(* ===== verification/Prelude.thy ===== *)
theory Prelude
  imports Main "HOL-Library.Word" "HOL-Library.Sublist" "HOL-Library.Char_ord"
    "HOL-Library.List_Lexorder"
begin

text \<open>
  Shared vocabulary of the development: Go byte strings and the functions of the packages
  \<open>strings\<close>, \<open>strconv\<close> and \<open>encoding/hex\<close> that the sources call, results of
  fallible operations, times and durations, and the generic lemmas on them.

  A Go \<open>string\<close> is a sequence of bytes; it is modelled by \<^typ>\<open>string\<close>, a list of
  8-bit characters. Binary data (\<open>[]byte\<close>) is a list of \<open>8 word\<close>. A fallible operation
  \<open>(T, error)\<close> returns a sum: \<open>Inl\<close> the error, \<open>Inr\<close> the value. Instants
  (\<open>time.Time\<close>) and durations are nanoseconds in \<^typ>\<open>int\<close>, instants counted from Go's zero instant.
\<close>

named_theorems go_eval \<open>equations that evaluate the Go library functions on concrete inputs\<close>

type_synonym byte = "8 word"
type_synonym instant = int
type_synonym duration = int

abbreviation second :: duration where "second \<equiv> 1000000000"
abbreviation minute :: duration where "minute \<equiv> 60 * second"
abbreviation millisecond :: duration where "millisecond \<equiv> 1000000"

section \<open>Characters and case folding\<close>

abbreviation code :: "char \<Rightarrow> nat" where "code c \<equiv> of_char c"

definition is_digit :: "char \<Rightarrow> bool" where
  "is_digit c \<longleftrightarrow> 48 \<le> code c \<and> code c \<le> 57"

definition is_lower :: "char \<Rightarrow> bool" where
  "is_lower c \<longleftrightarrow> 97 \<le> code c \<and> code c \<le> 122"

definition is_upper :: "char \<Rightarrow> bool" where
  "is_upper c \<longleftrightarrow> 65 \<le> code c \<and> code c \<le> 90"

definition is_hex_digit :: "char \<Rightarrow> bool" where
  "is_hex_digit c \<longleftrightarrow> is_digit c \<or> (97 \<le> code c \<and> code c \<le> 102) \<or> (65 \<le> code c \<and> code c \<le> 70)"

text \<open>Printable ASCII other than the space: such a byte neither starts nor ends a space rune.\<close>

definition is_graphic :: "char \<Rightarrow> bool" where
  "is_graphic c \<longleftrightarrow> 33 \<le> code c \<and> code c \<le> 126"

definition is_ascii :: "char \<Rightarrow> bool" where
  "is_ascii c \<longleftrightarrow> code c < 128"

definition lower_char :: "char \<Rightarrow> char" where
  "lower_char c = (if is_upper c then char_of (code c + 32) else c)"

definition upper_char :: "char \<Rightarrow> char" where
  "upper_char c = (if is_lower c then char_of (code c - 32) else c)"

lemmas char_class_defs = is_digit_def is_lower_def is_upper_def is_hex_digit_def
  is_graphic_def is_ascii_def

lemma code_char_of [simp]: "n < 256 \<Longrightarrow> code (char_of n) = n"
  by simp

lemma code_inj [simp]: "code c = code d \<longleftrightarrow> c = d"
  by (metis char_of_char)

lemma lower_char_lower [simp]: "\<not> is_upper c \<Longrightarrow> lower_char c = c"
  by (simp add: lower_char_def)

lemma not_upper_lower_char [simp]: "\<not> is_upper (lower_char c)"
  by (simp add: lower_char_def char_class_defs)

lemma lower_char_idem [simp]: "lower_char (lower_char c) = lower_char c"
  by simp

lemma lower_char_ascii [simp]: "is_ascii (lower_char c) \<longleftrightarrow> is_ascii c"
  by (simp add: lower_char_def char_class_defs)

lemma lower_char_hex [simp]: "is_hex_digit (lower_char c) \<longleftrightarrow> is_hex_digit c"
  by (auto simp: lower_char_def char_class_defs)

lemma upper_char_hex [simp]: "is_hex_digit (upper_char c) \<longleftrightarrow> is_hex_digit c"
  by (auto simp: upper_char_def char_class_defs)

lemma code_lower_char: "code (lower_char c) = (if is_upper c then code c + 32 else code c)"
  by (simp add: lower_char_def char_class_defs)

lemma code_upper_char: "code (upper_char c) = (if is_lower c then code c - 32 else code c)"
  by (auto simp: upper_char_def char_class_defs)

lemma lower_upper_char [simp]: "lower_char (upper_char c) = lower_char c"
proof -
  have "code (lower_char (upper_char c)) = code (lower_char c)"
    by (auto simp only: code_lower_char code_upper_char char_class_defs split: if_splits)
  then show ?thesis by (simp only: code_inj)
qed

lemma is_lower_not_upper: "is_lower c \<Longrightarrow> \<not> is_upper c"
  by (simp add: char_class_defs)

lemma is_digit_not_upper: "is_digit c \<Longrightarrow> \<not> is_upper c"
  by (simp add: char_class_defs)

lemma is_hex_digit_graphic: "is_hex_digit c \<Longrightarrow> is_graphic c"
  by (auto simp: char_class_defs)

lemma is_graphic_ascii: "is_graphic c \<Longrightarrow> is_ascii c"
  by (auto simp: char_class_defs)

section \<open>Package \<open>strings\<close>\<close>

text \<open>
  \<open>strings.TrimSpace\<close> removes leading and trailing runes with \<open>unicode.IsSpace\<close>; these are
  the UTF-8 encodings of all of them. Since UTF-8 is self-synchronising, removing encoded
  runes from either end is removing these byte sequences.
\<close>

definition space_runes :: "string list" where
  "space_runes =
     [[CHR 0x09], [CHR 0x0A], [CHR 0x0B], [CHR 0x0C], [CHR 0x0D], [CHR 0x20],
      [CHR 0xC2, CHR 0x85], [CHR 0xC2, CHR 0xA0], [CHR 0xE1, CHR 0x9A, CHR 0x80],
      [CHR 0xE2, CHR 0x80, CHR 0x80], [CHR 0xE2, CHR 0x80, CHR 0x81], [CHR 0xE2, CHR 0x80, CHR 0x82],
      [CHR 0xE2, CHR 0x80, CHR 0x83], [CHR 0xE2, CHR 0x80, CHR 0x84], [CHR 0xE2, CHR 0x80, CHR 0x85],
      [CHR 0xE2, CHR 0x80, CHR 0x86], [CHR 0xE2, CHR 0x80, CHR 0x87], [CHR 0xE2, CHR 0x80, CHR 0x88],
      [CHR 0xE2, CHR 0x80, CHR 0x89], [CHR 0xE2, CHR 0x80, CHR 0x8A], [CHR 0xE2, CHR 0x80, CHR 0xA8],
      [CHR 0xE2, CHR 0x80, CHR 0xA9], [CHR 0xE2, CHR 0x80, CHR 0xAF], [CHR 0xE2, CHR 0x81, CHR 0x9F],
      [CHR 0xE3, CHR 0x80, CHR 0x80]]"

lemma space_runes_nonempty: "r \<in> set space_runes \<Longrightarrow> r \<noteq> []"
  by (auto simp: space_runes_def)

lemma space_runes_ends:
  "r \<in> set space_runes \<Longrightarrow> \<not> is_graphic (hd r) \<and> \<not> is_graphic (last r)"
  by (auto simp: space_runes_def is_graphic_def)

lemma find_space_prefix:
  "find (\<lambda>r. prefix r s) space_runes = Some r \<Longrightarrow> r \<noteq> [] \<and> prefix r s"
  by (auto simp: find_Some_iff dest: space_runes_nonempty nth_mem)

lemma find_space_suffix:
  "find (\<lambda>r. suffix r s) space_runes = Some r \<Longrightarrow> r \<noteq> [] \<and> suffix r s"
  by (auto simp: find_Some_iff dest: space_runes_nonempty nth_mem)

function trim_left :: "string \<Rightarrow> string" where
  "trim_left s = (case find (\<lambda>r. prefix r s) space_runes of
       None \<Rightarrow> s | Some r \<Rightarrow> trim_left (drop (length r) s))"
  by pat_completeness auto
termination
  by (relation "measure length")
    (auto dest!: find_space_prefix prefix_length_le simp: Suc_le_eq [symmetric] neq_Nil_conv)

function trim_right :: "string \<Rightarrow> string" where
  "trim_right s = (case find (\<lambda>r. suffix r s) space_runes of
       None \<Rightarrow> s | Some r \<Rightarrow> trim_right (take (length s - length r) s))"
  by pat_completeness auto
termination
  by (relation "measure length")
    (auto dest!: find_space_suffix suffix_length_le simp: Suc_le_eq [symmetric] neq_Nil_conv)

declare trim_left.simps [simp del] trim_right.simps [simp del]

definition trim_space :: "string \<Rightarrow> string" where
  "trim_space s = trim_right (trim_left s)"


lemma trim_left_graphic: "s = [] \<or> is_graphic (hd s) \<Longrightarrow> trim_left s = s"
proof -
  assume a: "s = [] \<or> is_graphic (hd s)"
  have "\<not> prefix r s" if "r \<in> set space_runes" for r
  proof
    assume "prefix r s"
    then obtain p where "s = r @ p" by (auto simp: prefix_def)
    with space_runes_nonempty [OF that] have "s \<noteq> []" "hd s = hd r" by auto
    with a space_runes_ends [OF that] show False by simp
  qed
  then have "find (\<lambda>r. prefix r s) space_runes = None"
    by (auto simp: find_None_iff)
  then show ?thesis by (simp add: trim_left.simps)
qed

lemma trim_right_graphic: "s = [] \<or> is_graphic (last s) \<Longrightarrow> trim_right s = s"
proof -
  assume a: "s = [] \<or> is_graphic (last s)"
  have "\<not> suffix r s" if r: "r \<in> set space_runes" for r
  proof
    assume "suffix r s"
    then obtain p where "s = p @ r" by (auto simp: suffix_def)
    with space_runes_nonempty [OF r] have "s \<noteq> []" "last s = last r" by auto
    with a space_runes_ends [OF r] show False by simp
  qed
  then have "find (\<lambda>r. suffix r s) space_runes = None"
    by (auto simp: find_None_iff)
  then show ?thesis by (simp add: trim_right.simps)
qed

lemma trim_space_graphic:
  "s = [] \<or> (is_graphic (hd s) \<and> is_graphic (last s)) \<Longrightarrow> trim_space s = s"
  by (auto simp: trim_space_def trim_left_graphic trim_right_graphic)

lemma trim_space_all_graphic: "list_all is_graphic s \<Longrightarrow> trim_space s = s"
  by (rule trim_space_graphic) (cases s; auto simp: list_all_iff)

lemma trim_space_Nil [simp]: "trim_space [] = []"
  by (simp add: trim_space_graphic)

text \<open>
  Case mapping. \<open>strings.ToLower\<close> maps every rune with \<open>unicode.ToLower\<close> and
  \<open>strings.EqualFold\<close> compares under simple folding. The sources only ever compare the
  result with ASCII text or accept ASCII bytes in it, so what matters is exactly which byte
  sequences become ASCII: the ASCII letters, U+0130 (lowercase \<open>i\<close>), U+212A (lowercase and
  folded \<open>k\<close>) and U+017F (folded \<open>s\<close>). Other non-ASCII runes stay non-ASCII under the
  real mapping and are kept as they are here.
\<close>

abbreviation (input) dotted_i :: string where "dotted_i \<equiv> [CHR 0xC4, CHR 0xB0]"
abbreviation (input) kelvin :: string where "kelvin \<equiv> [CHR 0xE2, CHR 0x84, CHR 0xAA]"
abbreviation (input) long_s :: string where "long_s \<equiv> [CHR 0xC5, CHR 0xBF]"

function to_lower :: "string \<Rightarrow> string" where
  "to_lower [] = []"
| "to_lower (c # s) =
     (if prefix dotted_i (c # s) then CHR ''i'' # to_lower (drop 1 s)
      else if prefix kelvin (c # s) then CHR ''k'' # to_lower (drop 2 s)
      else lower_char c # to_lower s)"
  by pat_completeness auto
termination by (relation "measure length") auto

function fold_case :: "string \<Rightarrow> string" where
  "fold_case [] = []"
| "fold_case (c # s) =
     (if prefix long_s (c # s) then CHR ''s'' # fold_case (drop 1 s)
      else if prefix kelvin (c # s) then CHR ''k'' # fold_case (drop 2 s)
      else lower_char c # fold_case s)"
  by pat_completeness auto
termination by (relation "measure length") auto

definition equal_fold :: "string \<Rightarrow> string \<Rightarrow> bool" where
  "equal_fold s t \<longleftrightarrow> fold_case s = fold_case t"

text \<open>\<open>strings.ToUpper\<close>; the sources apply it to hexadecimal digits only.\<close>

definition to_upper :: "string \<Rightarrow> string" where
  "to_upper s = map upper_char s"

lemma to_lower_ascii: "list_all is_ascii s \<Longrightarrow> to_lower s = map lower_char s"
  by (induction s rule: to_lower.induct) (auto simp: is_ascii_def)

lemma fold_case_ascii: "list_all is_ascii s \<Longrightarrow> fold_case s = map lower_char s"
  by (induction s rule: fold_case.induct) (auto simp: is_ascii_def)

lemma equal_fold_ascii:
  "list_all is_ascii s \<Longrightarrow> list_all is_ascii t \<Longrightarrow>
   equal_fold s t \<longleftrightarrow> map lower_char s = map lower_char t"
  by (simp add: equal_fold_def fold_case_ascii)

lemma to_lower_fixed:
  "list_all is_ascii s \<Longrightarrow> list_all (\<lambda>c. \<not> is_upper c) s \<Longrightarrow> to_lower s = s"
  by (simp add: to_lower_ascii list_all_iff map_idI)

lemma to_lower_idem: "list_all is_ascii s \<Longrightarrow> to_lower (to_lower s) = to_lower s"
  by (simp add: to_lower_ascii list_all_iff)

lemma to_lower_not_upper: "list_all (\<lambda>c. \<not> is_upper c) (to_lower s)"
proof -
  have "\<not> is_upper CHR ''i''" "\<not> is_upper CHR ''k''" by (simp_all add: is_upper_def)
  then show ?thesis by (induction s rule: to_lower.induct) auto
qed

text \<open>Searching and splitting.\<close>

fun contains :: "string \<Rightarrow> string \<Rightarrow> bool" where
  "contains [] p = (p = [])"
| "contains (c # s) p = (prefix p (c # s) \<or> contains s p)"

fun split_on :: "char \<Rightarrow> string \<Rightarrow> string list" where
  "split_on d [] = [[]]"
| "split_on d (c # s) =
     (if c = d then [] # split_on d s
      else (case split_on d s of [] \<Rightarrow> [[c]] | p # ps \<Rightarrow> (c # p) # ps))"

text \<open>\<open>strings.Cut\<close> at a byte: the parts before and after its first occurrence.\<close>

fun cut :: "char \<Rightarrow> string \<Rightarrow> string \<times> string \<times> bool" where
  "cut d [] = ([], [], False)"
| "cut d (c # s) =
     (if c = d then ([], s, True) else (case cut d s of (a, b, f) \<Rightarrow> (c # a, b, f)))"

text \<open>Index of the last occurrence of a byte.\<close>

fun last_index :: "char \<Rightarrow> string \<Rightarrow> nat option" where
  "last_index d [] = None"
| "last_index d (c # s) =
     (case last_index d s of Some i \<Rightarrow> Some (Suc i)
      | None \<Rightarrow> if c = d then Some 0 else None)"

definition trim_suffix :: "string \<Rightarrow> string \<Rightarrow> string" where
  "trim_suffix s p = (if suffix p s then take (length s - length p) s else s)"

definition trim_prefix :: "string \<Rightarrow> string \<Rightarrow> string" where
  "trim_prefix s p = (if prefix p s then drop (length p) s else s)"

lemma contains_single [simp]: "contains s [c] \<longleftrightarrow> c \<in> set s"
  by (induction s) auto

lemma contains_sublist: "contains s p \<longleftrightarrow> (\<exists>a b. s = a @ p @ b)"
proof (induction s)
  case hyp: (Cons c s)
  show ?case
  proof
    assume "contains (c # s) p"
    then consider "prefix p (c # s)" | "contains s p" by auto
    then show "\<exists>a b. c # s = a @ p @ b"
    proof cases
      case 1
      then show ?thesis by (metis append_Nil prefix_def)
    next
      case 2
      with hyp.IH show ?thesis by (metis append_Cons)
    qed
  next
    assume "\<exists>a b. c # s = a @ p @ b"
    then obtain a b where ab: "c # s = a @ p @ b" by blast
    then show "contains (c # s) p"
    proof (cases a)
      case Nil
      with ab have "prefix p (c # s)" by (simp add: prefix_def)
      then show ?thesis by simp
    next
      case (Cons x xs)
      with ab have "contains s p" using hyp.IH by auto
      then show ?thesis by simp
    qed
  qed
qed auto

lemma contains_setD: "contains s p \<Longrightarrow> set p \<subseteq> set s"
  by (auto simp: contains_sublist)

lemma last_index_None: "last_index d s = None \<longleftrightarrow> d \<notin> set s"
  by (induction s) (auto split: option.splits if_splits)

lemma last_index_append_same:
  "d \<notin> set t \<Longrightarrow> last_index d (s @ d # t) = Some (length s)"
  by (induction s) (auto simp: last_index_None [THEN iffD2])

lemma cut_notin: "d \<notin> set s \<Longrightarrow> cut d s = (s, [], False)"
  by (induction s) auto

lemma cut_append: "d \<notin> set s \<Longrightarrow> cut d (s @ d # t) = (s, t, True)"
  by (induction s) auto

lemma split_on_notin: "d \<notin> set s \<Longrightarrow> split_on d s = [s]"
  by (induction s) auto

lemma split_on_ne [simp]: "split_on d s \<noteq> []"
  by (induction s) (auto split: list.splits)

lemma split_on_append: "d \<notin> set s \<Longrightarrow> split_on d (s @ d # t) = s # split_on d t"
  by (induction s) (auto split: list.splits)

lemma split_on_set: "p \<in> set (split_on d s) \<Longrightarrow> set p \<subseteq> set s - {d}"
proof (induction s arbitrary: p)
  case (Cons c s)
  then show ?case
    by (cases "split_on d s"; fastforce split: if_splits)
qed simp


section \<open>Packages \<open>strconv\<close> and \<open>encoding/hex\<close>\<close>

definition digit_char :: "nat \<Rightarrow> char" where
  "digit_char n = char_of (48 + n)"

definition digit_val :: "char \<Rightarrow> nat" where
  "digit_val c = code c - 48"

text \<open>\<open>strconv.FormatUint(n, 10)\<close>.\<close>

fun format_uint :: "nat \<Rightarrow> string" where
  "format_uint n =
     (if n < 10 then [digit_char n] else format_uint (n div 10) @ [digit_char (n mod 10)])"

declare format_uint.simps [simp del]

definition dec_value :: "string \<Rightarrow> nat" where
  "dec_value s = foldl (\<lambda>a c. 10 * a + digit_val c) 0 s"

text \<open>\<open>strconv.ParseUint(s, 10, bits)\<close>; a syntax or a range error is \<open>None\<close>.\<close>

definition parse_uint :: "nat \<Rightarrow> string \<Rightarrow> nat option" where
  "parse_uint bits s =
     (if s \<noteq> [] \<and> list_all is_digit s \<and> dec_value s < 2 ^ bits then Some (dec_value s) else None)"

lemma digit_char_is_digit [simp]: "n < 10 \<Longrightarrow> is_digit (digit_char n)"
  by (simp add: is_digit_def digit_char_def)

lemma digit_val_digit_char [simp]: "n < 10 \<Longrightarrow> digit_val (digit_char n) = n"
  by (simp add: digit_val_def digit_char_def)

lemma digit_val_less: "is_digit c \<Longrightarrow> digit_val c < 10"
  by (auto simp: is_digit_def digit_val_def)

lemma format_uint_ne [simp]: "format_uint n \<noteq> []"
  by (subst format_uint.simps) simp

lemma dec_value_append: "dec_value (s @ [c]) = 10 * dec_value s + digit_val c"
  by (simp add: dec_value_def)

lemma format_uint_props:
  "list_all is_digit (format_uint n) \<and> dec_value (format_uint n) = n"
proof (induction n rule: format_uint.induct)
  case (1 n)
  show ?case
  proof (cases "n < 10")
    case True
    then show ?thesis by (simp add: format_uint.simps [of n] dec_value_def)
  next
    case False
    with 1 show ?thesis by (simp add: format_uint.simps [of n] dec_value_append)
  qed
qed

lemma format_uint_digits [simp]: "list_all is_digit (format_uint n)"
  and dec_value_format_uint [simp]: "dec_value (format_uint n) = n"
  by (simp_all add: format_uint_props)

lemma parse_format_uint [simp]: "n < 2 ^ bits \<Longrightarrow> parse_uint bits (format_uint n) = Some n"
  by (simp add: parse_uint_def)

lemma parse_uint_bound: "parse_uint bits s = Some n \<Longrightarrow> n < 2 ^ bits"
  by (simp add: parse_uint_def split: if_splits)

definition hex_char :: "nat \<Rightarrow> char" where
  "hex_char n = char_of (if n < 10 then 48 + n else 87 + n)"

definition hex_val :: "char \<Rightarrow> nat" where
  "hex_val c = (if is_digit c then code c - 48
     else if 97 \<le> code c then code c - 87 else code c - 55)"

fun hex_encode :: "byte list \<Rightarrow> string" where
  "hex_encode [] = []"
| "hex_encode (b # bs) = hex_char (unat b div 16) # hex_char (unat b mod 16) # hex_encode bs"

text \<open>\<open>hex.DecodeString\<close>: upper and lower case digits; \<open>None\<close> on any other byte or odd length.\<close>

fun hex_decode :: "string \<Rightarrow> byte list option" where
  "hex_decode [] = Some []"
| "hex_decode [c] = None"
| "hex_decode (c # d # s) =
     (if is_hex_digit c \<and> is_hex_digit d
      then map_option (Cons (of_nat (16 * hex_val c + hex_val d))) (hex_decode s)
      else None)"

lemma hex_char_props [simp]:
  assumes "n < 16"
  shows "is_hex_digit (hex_char n)" "hex_val (hex_char n) = n" "\<not> is_upper (hex_char n)"
  using assms by (auto simp: hex_char_def hex_val_def char_class_defs)

lemma hex_val_less: "is_hex_digit c \<Longrightarrow> hex_val c < 16"
  by (auto simp: hex_val_def char_class_defs)

lemma hex_val_lower [simp]: "is_hex_digit c \<Longrightarrow> hex_val (lower_char c) = hex_val c"
  by (auto simp: hex_val_def char_class_defs code_lower_char)

lemma hex_nibbles: "16 * (unat (b::byte) div 16) + unat b mod 16 = unat b"
  by simp

lemma byte_less_256: "unat (b::byte) < 256"
  using unsigned_less [of b, where ?'a = nat] by simp

lemma hex_decode_encode [simp]: "hex_decode (hex_encode bs) = Some bs"
proof (induction bs)
  case (Cons b bs)
  have "unat b div 16 < 16" using byte_less_256 [of b] by simp
  then show ?case using Cons by (simp add: hex_nibbles)
qed simp

lemma hex_encode_digits:
  "list_all is_hex_digit (hex_encode bs)" "list_all (\<lambda>c. \<not> is_upper c) (hex_encode bs)"
proof -
  have "unat (b::byte) div 16 < 16" for b using byte_less_256 [of b] by simp
  then show "list_all is_hex_digit (hex_encode bs)"
    "list_all (\<lambda>c. \<not> is_upper c) (hex_encode bs)"
    by (induction bs) simp_all
qed

lemma length_hex_encode [simp]: "length (hex_encode bs) = 2 * length bs"
  by (induction bs) auto

lemma hex_decode_Some_iff: "(\<exists>bs. hex_decode s = Some bs) \<longleftrightarrow> even (length s) \<and> list_all is_hex_digit s"
  by (induction s rule: hex_decode.induct) auto

lemma hex_decode_length: "hex_decode s = Some bs \<Longrightarrow> length s = 2 * length bs"
  by (induction s arbitrary: bs rule: hex_decode.induct) (auto split: if_splits)

lemma hex_decode_map_lower: "hex_decode (map lower_char s) = hex_decode s"
  by (induction s rule: hex_decode.induct) auto

lemma hex_char_val: "is_hex_digit c \<Longrightarrow> hex_char (hex_val c) = lower_char c"
  by (auto simp: hex_char_def hex_val_def lower_char_def char_class_defs)

lemma byte_unat_of_nat: "n < 256 \<Longrightarrow> unat (of_nat n :: byte) = n"
  by (simp add: unat_of_nat)

lemma hex_encode_decode: "hex_decode s = Some bs \<Longrightarrow> hex_encode bs = map lower_char s"
proof (induction s arbitrary: bs rule: hex_decode.induct)
  case (3 c d s)
  define w :: byte where "w = of_nat (16 * hex_val c + hex_val d)"
  from 3 obtain bs' where h: "is_hex_digit c" "is_hex_digit d" "hex_decode s = Some bs'"
    "bs = w # bs'"
    by (auto simp: w_def split: if_splits)
  then have "unat w = 16 * hex_val c + hex_val d"
    unfolding w_def using hex_val_less [of c] hex_val_less [of d] by (intro byte_unat_of_nat) simp
  with 3 h show ?case
    using hex_val_less [of d] by (simp add: hex_char_val)
qed auto

text \<open>Generic list facts.\<close>

lemma list_all_lastI: "list_all P s \<Longrightarrow> s \<noteq> [] \<Longrightarrow> P (last s)"
  by (simp add: list_all_iff)

lemma list_all_hdI: "list_all P s \<Longrightarrow> s \<noteq> [] \<Longrightarrow> P (hd s)"
  by (simp add: list_all_iff)

lemma list_all_mono: "list_all P s \<Longrightarrow> (\<And>c. P c \<Longrightarrow> Q c) \<Longrightarrow> list_all Q s"
  by (simp add: list_all_iff)

lemma format_uint_graphic: "list_all is_graphic (format_uint n)"
  by (rule list_all_mono [OF format_uint_digits]) (simp add: char_class_defs)


section \<open>Interfaces\<close>

text \<open>
  A normaliser maps an input to its canonical form or rejects it; its contract is that canonical
  forms are left alone. Ports, targets, relay origins, relay lists, identity names and Ethereum
  addresses are normalised this way, and the lemmas below hold for each of them.
\<close>

locale normaliser =
  fixes norm :: "'a \<Rightarrow> 'e + 'a"
  assumes norm_fixed: "norm x = Inr y \<Longrightarrow> norm y = Inr y"
begin

lemma canonical_iff: "(\<exists>x. norm x = Inr y) \<longleftrightarrow> norm y = Inr y"
  using norm_fixed by blast

lemma norm_list_fixed: "map norm xs = map Inr ys \<Longrightarrow> map norm ys = map Inr ys"
proof (induction xs arbitrary: ys)
  case (Cons x xs)
  then obtain y zs where y: "ys = y # zs" "norm x = Inr y" "map norm xs = map Inr zs"
    by (cases ys) simp_all
  from norm_fixed [OF y(2)] Cons.IH [OF y(3)] y(1) show ?case by simp
qed simp

end

text \<open>
  A codec is an encoder with a partial decoder that undoes it on the encoder's domain; encodings
  are then unambiguous.
\<close>

locale codec =
  fixes valid :: "'a \<Rightarrow> bool" and enc :: "'a \<Rightarrow> 'b" and dec :: "'b \<Rightarrow> 'a option"
  assumes dec_enc: "valid x \<Longrightarrow> dec (enc x) = Some x"
begin

lemma enc_inj: "valid x \<Longrightarrow> valid y \<Longrightarrow> enc x = enc y \<Longrightarrow> x = y"
  by (metis dec_enc option.inject)

lemma enc_inj_on: "inj_on enc {x. valid x}"
  using enc_inj by (auto intro: inj_onI)

end

text \<open>
  A ledger of a resource in a history of events: how often each one was acquired and released. The
  history is balanced when every resource was released as often as it was acquired, except the one
  that is held now.
\<close>

definition balanced :: "('i \<Rightarrow> 'e \<Rightarrow> bool) \<Rightarrow> ('i \<Rightarrow> 'e \<Rightarrow> bool) \<Rightarrow> 'i option \<Rightarrow> 'e list \<Rightarrow> bool" where
  "balanced opens closes held hist \<longleftrightarrow>
     (\<forall>i. length (filter (opens i) hist) = length (filter (closes i) hist) + (if held = Some i then 1 else 0))"

locale ledger =
  fixes opens closes :: "'i \<Rightarrow> 'e \<Rightarrow> bool"
  assumes opens_unique: "opens i e \<Longrightarrow> opens j e \<Longrightarrow> i = j"
    and closes_unique: "closes i e \<Longrightarrow> closes j e \<Longrightarrow> i = j"
    and opens_not_closes: "opens i e \<Longrightarrow> \<not> closes j e"
begin

lemma balanced_Nil [simp]: "balanced opens closes None []"
  by (simp add: balanced_def)

lemma balanced_other:
  "(\<And>i. \<not> opens i e) \<Longrightarrow> (\<And>i. \<not> closes i e) \<Longrightarrow>
   balanced opens closes held (hist @ [e]) = balanced opens closes held hist"
  by (simp add: balanced_def)

lemma balanced_open:
  assumes "balanced opens closes None hist" "opens i e"
  shows "balanced opens closes (Some i) (hist @ [e])"
  using assms opens_unique opens_not_closes by (auto simp: balanced_def)

lemma balanced_close:
  assumes "balanced opens closes (Some i) hist" "closes i e"
  shows "balanced opens closes None (hist @ [e])"
  using assms closes_unique opens_not_closes by (auto simp: balanced_def)

lemma balanced_open_close:
  assumes "opens i e" "closes i f"
  shows "balanced opens closes held (hist @ [e, f]) = balanced opens closes held hist"
proof -
  have "opens k e \<longleftrightarrow> k = i" "\<not> closes k e" "\<not> opens k f" "closes k f \<longleftrightarrow> k = i" for k
    using assms opens_unique closes_unique opens_not_closes by blast+
  then have "length (filter (opens k) (hist @ [e, f])) = length (filter (opens k) hist) + (if k = i then 1 else 0)"
    "length (filter (closes k) (hist @ [e, f])) = length (filter (closes k) hist) + (if k = i then 1 else 0)" for k
    by simp_all
  then show ?thesis by (simp add: balanced_def)
qed

lemma balanced_replace:
  assumes "balanced opens closes (Some i) hist" "opens j e" "closes i f"
  shows "balanced opens closes (Some j) (hist @ [e, f])"
proof -
  have "opens k e \<longleftrightarrow> k = j" "\<not> closes k e" "\<not> opens k f" "closes k f \<longleftrightarrow> k = i" for k
    using assms(2,3) opens_unique closes_unique opens_not_closes by blast+
  then show ?thesis using assms(1) by (auto simp: balanced_def)
qed

end

text \<open>
  Reachable states of a step relation, and the interface of an inductive invariant.
\<close>

inductive reachable :: "('s \<Rightarrow> bool) \<Rightarrow> ('s \<Rightarrow> 's \<Rightarrow> bool) \<Rightarrow> 's \<Rightarrow> bool" for init step where
  reach_init: "init s \<Longrightarrow> reachable init step s"
| reach_step: "reachable init step s \<Longrightarrow> step s t \<Longrightarrow> reachable init step t"

lemma reachable_trans: "reachable ((=) y) step z \<Longrightarrow> reachable init step y \<Longrightarrow> reachable init step z"
  by (induction rule: reachable.induct) (auto intro: reach_step)

locale invariant =
  fixes init :: "'s \<Rightarrow> bool" and step :: "'s \<Rightarrow> 's \<Rightarrow> bool" and inv :: "'s \<Rightarrow> bool"
  assumes inv_init: "init s \<Longrightarrow> inv s"
    and inv_step: "inv s \<Longrightarrow> step s t \<Longrightarrow> inv t"
begin

lemma reachable_inv: "reachable init step s \<Longrightarrow> inv s"
  by (induction rule: reachable.induct) (auto intro: inv_init inv_step)

end

text \<open>
  Progress of a machine: a state that is settled, in that nothing outside has to happen, and short of the
  goal has a step that comes closer to it. Then the goal can be reached from every settled state.
\<close>

locale progress = invariant init step inv
  for init :: "'s \<Rightarrow> bool" and step :: "'s \<Rightarrow> 's \<Rightarrow> bool" and inv :: "'s \<Rightarrow> bool" +
  fixes settled :: "'s \<Rightarrow> bool" and goal :: "'s \<Rightarrow> bool" and rank :: "'s \<Rightarrow> nat"
  assumes advance: "inv s \<Longrightarrow> settled s \<Longrightarrow> \<not> goal s \<Longrightarrow> \<exists>t. step s t \<and> settled t \<and> rank t < rank s"
begin

lemma inv_reaches_goal: "inv s \<Longrightarrow> settled s \<Longrightarrow> \<exists>t. reachable ((=) s) step t \<and> settled t \<and> goal t"
proof (induction "rank s" arbitrary: s rule: less_induct)
  case less
  show ?case
  proof (cases "goal s")
    case True
    with less.prems show ?thesis by (auto intro: reach_init)
  next
    case False
    from advance [OF less.prems False] obtain t where t: "step s t" "settled t" "rank t < rank s" by blast
    from less.hyps [OF t(3) inv_step [OF less.prems(1) t(1)] t(2)]
    obtain u where u: "reachable ((=) t) step u" "settled u" "goal u" by blast
    have "reachable ((=) s) step t" using t(1) by (auto intro: reach_init reach_step)
    from reachable_trans [OF u(1) this] u(2,3) show ?thesis by blast
  qed
qed

lemma reaches_goal:
  "reachable init step s \<Longrightarrow> settled s \<Longrightarrow> \<exists>t. reachable ((=) s) step t \<and> settled t \<and> goal t"
  using inv_reaches_goal reachable_inv by blast

end

text \<open>
  A specification that a component refines: related states stay related under corresponding
  operations, as far as the operation is admissible.
\<close>

locale simulation =
  fixes ok :: "'o \<Rightarrow> bool" and R :: "'c \<Rightarrow> 'a \<Rightarrow> bool"
    and concrete :: "'o \<Rightarrow> 'c \<Rightarrow> 'c" and abstract :: "'o \<Rightarrow> 'a \<Rightarrow> 'a"
  assumes sim: "ok x \<Longrightarrow> R c a \<Longrightarrow> R (concrete x c) (abstract x a)"
begin

lemma sim_run: "list_all ok xs \<Longrightarrow> R c a \<Longrightarrow> R (fold concrete xs c) (fold abstract xs a)"
  by (induction xs arbitrary: c a) (auto intro: sim)

end

end
