(* ===== verification/GoNet.thy ===== *)
theory GoNet
  imports Prelude
begin

text \<open>
  The parts of Go's packages \<open>net\<close>, \<open>net/netip\<close> and \<open>net/url\<close> that the sources call:
  \<open>net.JoinHostPort\<close>, \<open>net.SplitHostPort\<close>, \<open>netip.ParseAddr\<close> with \<open>Addr.String\<close>
  and \<open>Addr.Is6\<close>, \<open>net.ParseIP(..).IsLoopback\<close>, and \<open>url.Parse\<close> with the accessors
  \<open>Hostname\<close>, \<open>Port\<close>, \<open>EscapedPath\<close> and \<open>String\<close>. A parse error of the library is
  \<open>None\<close>, since no caller looks into it.
\<close>

section \<open>Package \<open>net\<close>\<close>

definition join_host_port :: "string \<Rightarrow> string \<Rightarrow> string" where
  "join_host_port host port =
     (if CHR '':'' \<in> set host then ''['' @ host @ '']:'' @ port else host @ '':'' @ port)"

definition first_index :: "char \<Rightarrow> string \<Rightarrow> nat option" where
  "first_index d s = (if d \<in> set s then Some (length (takeWhile (\<lambda>c. c \<noteq> d) s)) else None)"

definition split_host_port :: "string \<Rightarrow> (string \<times> string) option" where
  "split_host_port hostport =
     (case last_index (CHR '':'') hostport of
        None \<Rightarrow> None
      | Some i \<Rightarrow>
          (let bracket = (hostport ! 0 = CHR ''['');
               parts = (if bracket then
                  (case first_index (CHR '']'') hostport of
                     None \<Rightarrow> None
                   | Some e \<Rightarrow>
                       if e + 1 = length hostport then None
                       else if e + 1 = i then Some (take (e - 1) (drop 1 hostport), 1, e + 1)
                       else None)
                else if CHR '':'' \<in> set (take i hostport) then None
                else Some (take i hostport, 0, 0))
           in (case parts of
                 None \<Rightarrow> None
               | Some (host, j, k) \<Rightarrow>
                   if CHR ''['' \<in> set (drop j hostport) then None
                   else if CHR '']'' \<in> set (drop k hostport) then None
                   else Some (host, drop (i + 1) hostport))))"

section \<open>Package \<open>net/netip\<close>\<close>

text \<open>An address: four octets, or eight 16-bit groups and a zone (empty for none).\<close>

datatype addr = Addr4 "nat list" | Addr6 "nat list" string

definition is_addr6 :: "addr \<Rightarrow> bool" where
  "is_addr6 a = (case a of Addr4 _ \<Rightarrow> False | Addr6 _ _ \<Rightarrow> True)"

text \<open>\<open>parseIPv4Fields\<close>: four dot-separated decimal octets without leading zeros.\<close>

definition ipv4_octet :: "string \<Rightarrow> bool" where
  "ipv4_octet p \<longleftrightarrow> p \<noteq> [] \<and> list_all is_digit p \<and> (hd p = CHR ''0'' \<longrightarrow> length p = 1)
     \<and> dec_value p \<le> 255"

definition parse_ipv4_fields :: "string \<Rightarrow> nat list option" where
  "parse_ipv4_fields s =
     (let ps = split_on (CHR ''.'') s in
      if length ps = 4 \<and> list_all ipv4_octet ps then Some (map dec_value ps) else None)"

definition hex_value :: "string \<Rightarrow> nat" where
  "hex_value s = foldl (\<lambda>a c. 16 * a + hex_val c) 0 s"

text \<open>
  The loop of \<open>parseIPv6\<close>. The first argument counts the groups that are still free, \<open>ell\<close>
  is the position of the ellipsis, \<open>acc\<close> the groups read so far; the result is the rest of the
  input, the ellipsis and the groups.
\<close>

fun parse6_loop :: "nat \<Rightarrow> string \<Rightarrow> nat option \<Rightarrow> nat list
    \<Rightarrow> (string \<times> nat option \<times> nat list) option" where
  "parse6_loop 0 s ell acc = Some (s, ell, acc)"
| "parse6_loop (Suc n) s ell acc =
     (let ds = takeWhile is_hex_digit s; rest = drop (length ds) s in
      if length ds = 0 \<or> length ds > 4 then None
      else if rest \<noteq> [] \<and> hd rest = CHR ''.'' then
        (if ell = None \<and> length acc \<noteq> 6 then None
         else if length acc + 2 > 8 then None
         else (case parse_ipv4_fields s of
                 Some [a, b, c, d] \<Rightarrow> Some ([], ell, acc @ [256 * a + b, 256 * c + d])
               | _ \<Rightarrow> None))
      else
        (let acc' = acc @ [hex_value ds] in
         case rest of
           [] \<Rightarrow> Some ([], ell, acc')
         | c # s1 \<Rightarrow>
             if c \<noteq> CHR '':'' then None
             else (case s1 of
                 [] \<Rightarrow> None
               | c2 # s2 \<Rightarrow>
                   if c2 = CHR '':'' then
                     (if ell \<noteq> None then None
                      else if s2 = [] then Some ([], Some (length acc'), acc')
                      else parse6_loop n s2 (Some (length acc')) acc')
                   else parse6_loop n s1 ell acc')))"

definition expand_ellipsis :: "nat option \<Rightarrow> nat list \<Rightarrow> nat list option" where
  "expand_ellipsis ell acc =
     (if length acc < 8 then
        (case ell of None \<Rightarrow> None
         | Some e \<Rightarrow> Some (take e acc @ replicate (8 - length acc) 0 @ drop e acc))
      else if ell \<noteq> None then None else Some acc)"

definition parse_ipv6 :: "string \<Rightarrow> addr option" where
  "parse_ipv6 inp =
     (case cut (CHR ''%'') inp of (s, zone, has_zone) \<Rightarrow>
        if has_zone \<and> zone = [] then None
        else if s = ''::'' then Some (Addr6 (replicate 8 0) zone)
        else (case (if prefix ''::'' s then parse6_loop 8 (drop 2 s) (Some 0) []
                    else parse6_loop 8 s None []) of
                None \<Rightarrow> None
              | Some (rest, ell, acc) \<Rightarrow>
                  if rest \<noteq> [] then None
                  else map_option (\<lambda>g. Addr6 g zone) (expand_ellipsis ell acc)))"

text \<open>\<open>ParseAddr\<close> dispatches on the first of \<open>.\<close>, \<open>:\<close> and \<open>%\<close>.\<close>

definition parse_addr :: "string \<Rightarrow> addr option" where
  "parse_addr s =
     (case dropWhile (\<lambda>c. c \<noteq> CHR ''.'' \<and> c \<noteq> CHR '':'' \<and> c \<noteq> CHR ''%'') s of
        [] \<Rightarrow> None
      | c # _ \<Rightarrow> if c = CHR ''.'' then map_option Addr4 (parse_ipv4_fields s)
                 else if c = CHR '':'' then parse_ipv6 s else None)"

fun join_with :: "string \<Rightarrow> string list \<Rightarrow> string" where
  "join_with sep [] = []"
| "join_with sep [p] = p"
| "join_with sep (p # ps) = p @ sep @ join_with sep ps"

text \<open>Lowercase hexadecimal without leading zeros (\<open>appendHex\<close>).\<close>

fun format_hex :: "nat \<Rightarrow> string" where
  "format_hex n = (if n < 16 then [hex_char n] else format_hex (n div 16) @ [hex_char (n mod 16)])"

declare format_hex.simps [simp del]

text \<open>The first longest run of at least two zero groups: start and end.\<close>

definition zero_run :: "nat list \<Rightarrow> nat \<Rightarrow> nat" where
  "zero_run gs i = length (takeWhile (\<lambda>g. g = 0) (drop i gs))"

definition best_zero_run :: "nat list \<Rightarrow> (nat \<times> nat) option" where
  "best_zero_run gs = foldl (\<lambda>best i. let l = zero_run gs i in
       if l \<ge> 2 \<and> l > (case best of None \<Rightarrow> 0 | Some (a, b) \<Rightarrow> b - a) then Some (i, i + l) else best)
     None [0..<8]"

definition string6 :: "nat list \<Rightarrow> string" where
  "string6 gs = (case best_zero_run gs of
      None \<Rightarrow> join_with '':'' (map format_hex gs)
    | Some (a, b) \<Rightarrow> join_with '':'' (map format_hex (take a gs)) @ ''::''
        @ join_with '':'' (map format_hex (drop b gs)))"

definition string4 :: "nat list \<Rightarrow> string" where
  "string4 os = join_with ''.'' (map format_uint os)"

definition is_4in6 :: "nat list \<Rightarrow> bool" where
  "is_4in6 gs \<longleftrightarrow> take 6 gs = [0, 0, 0, 0, 0, 65535]"

definition addr_string :: "addr \<Rightarrow> string" where
  "addr_string a = (case a of
      Addr4 os \<Rightarrow> string4 os
    | Addr6 gs zone \<Rightarrow>
        (if is_4in6 gs
         then ''::ffff:'' @ string4 [gs ! 6 div 256, gs ! 6 mod 256, gs ! 7 div 256, gs ! 7 mod 256]
         else string6 gs)
        @ (if zone = [] then [] else ''%'' @ zone))"

text \<open>\<open>net.ParseIP(s)\<close> is an address without a zone; \<open>IsLoopback\<close> is 127/8 (also mapped) or \<open>::1\<close>.\<close>

definition parse_ip_loopback :: "string \<Rightarrow> bool" where
  "parse_ip_loopback s = (case parse_addr s of
      None \<Rightarrow> False
    | Some (Addr4 os) \<Rightarrow> os ! 0 = 127
    | Some (Addr6 gs zone) \<Rightarrow> zone = [] \<and>
        (if is_4in6 gs then gs ! 6 div 256 = 127 else gs = [0, 0, 0, 0, 0, 0, 0, 1]))"

section \<open>Package \<open>net/url\<close>\<close>

datatype url_mode = EncodePath | EncodeHost | EncodeZone | EncodeUserPassword | EncodeFragment

definition is_alnum :: "char \<Rightarrow> bool" where
  "is_alnum c \<longleftrightarrow> is_lower c \<or> is_upper c \<or> is_digit c"

definition should_escape :: "url_mode \<Rightarrow> char \<Rightarrow> bool" where
  "should_escape m c =
     (if is_alnum c then False
      else if (m = EncodeHost \<or> m = EncodeZone) \<and> c \<in> set ''!$&()*+,;=:[]<>'' \<union> {CHR 0x27, CHR 0x22}
      then False
      else if c \<in> set ''-_.~'' then False
      else if c \<in> set ''$&+,/:;=?@'' then
        (case m of EncodePath \<Rightarrow> c = CHR ''?''
         | EncodeUserPassword \<Rightarrow> c \<in> set ''@/?:''
         | EncodeFragment \<Rightarrow> False
         | _ \<Rightarrow> True)
      else if m = EncodeFragment \<and> c \<in> set ''!()*'' then False
      else True)"

text \<open>\<open>unescape\<close>: percent decoding with the host and zone restrictions.\<close>

fun unescape :: "url_mode \<Rightarrow> string \<Rightarrow> string option" where
  "unescape m [] = Some []"
| "unescape m (c # s) =
     (if c = CHR ''%'' then
        (case s of
           x # y # t \<Rightarrow>
             if is_hex_digit x \<and> is_hex_digit y then
               (let v = 16 * hex_val x + hex_val y in
                if m = EncodeHost \<and> hex_val x < 8 \<and> [x, y] \<noteq> ''25'' then None
                else if m = EncodeZone \<and> [x, y] \<noteq> ''25'' \<and> v \<noteq> 32 \<and> should_escape EncodeHost (char_of v)
                then None
                else map_option (Cons (char_of v)) (unescape m t))
             else None
         | _ \<Rightarrow> None)
      else if (m = EncodeHost \<or> m = EncodeZone) \<and> is_ascii c \<and> should_escape m c then None
      else map_option (Cons c) (unescape m s))"

fun escape :: "url_mode \<Rightarrow> string \<Rightarrow> string" where
  "escape m [] = []"
| "escape m (c # s) =
     (if should_escape m c
      then CHR ''%'' # upper_char (hex_char (code c div 16)) # upper_char (hex_char (code c mod 16))
        # escape m s
      else c # escape m s)"

record parsed_url =
  url_scheme :: string
  url_opaque :: string
  url_user :: "string option"
  url_host :: string
  url_path :: string
  url_raw_path :: string
  url_force_query :: bool
  url_raw_query :: string
  url_fragment :: string

definition is_ctl :: "char \<Rightarrow> bool" where
  "is_ctl c \<longleftrightarrow> code c < 32 \<or> code c = 127"

definition scheme_char :: "char \<Rightarrow> bool" where
  "scheme_char c \<longleftrightarrow> is_alnum c \<or> c \<in> set ''+-.''"

text \<open>\<open>getScheme\<close>: the scheme and the rest; \<open>None\<close> is the error for a leading colon.\<close>

definition get_scheme :: "string \<Rightarrow> (string \<times> string) option" where
  "get_scheme s =
     (let p = takeWhile scheme_char s; r = drop (length p) s in
      if p \<noteq> [] \<and> (is_digit (hd p) \<or> hd p \<in> set ''+-.'') then Some ([], s)
      else if r = [] \<or> hd r \<noteq> CHR '':'' then Some ([], s)
      else if p = [] then None
      else Some (p, tl r))"

definition valid_optional_port :: "string \<Rightarrow> bool" where
  "valid_optional_port p = (case p of [] \<Rightarrow> True | c # ds \<Rightarrow> c = CHR '':'' \<and> list_all is_digit ds)"

fun index_of :: "string \<Rightarrow> string \<Rightarrow> nat option" where
  "index_of [] p = (if p = [] then Some 0 else None)"
| "index_of (c # s) p = (if prefix p (c # s) then Some 0 else map_option Suc (index_of s p))"

text \<open>
  \<open>parseHost\<close>: a bracketed host must be an IPv6 literal; otherwise everything after the first
  colon must be a numeric port.
\<close>

definition parse_host :: "string \<Rightarrow> string option" where
  "parse_host host =
     (if CHR ''['' \<in> set host then
        (case last_index (CHR '']'') host of
           None \<Rightarrow> None
         | Some e \<Rightarrow>
             if hd host \<noteq> CHR ''['' \<or> \<not> valid_optional_port (drop (e + 1) host) then None
             else
               (let name = take (e - 1) (drop 1 host);
                    plain = (case index_of name ''%25'' of
                       None \<Rightarrow> unescape EncodeHost name
                     | Some z \<Rightarrow> (case (unescape EncodeHost (take z name), unescape EncodeZone (drop z name)) of
                           (Some a, Some b) \<Rightarrow> Some (a @ b) | _ \<Rightarrow> None))
                in case plain of
                     None \<Rightarrow> None
                   | Some h \<Rightarrow> (case parse_addr h of
                         None \<Rightarrow> None
                       | Some a \<Rightarrow> if is_addr6 a then Some (''['' @ h @ '']'' @ drop (e + 1) host)
                                   else None)))
      else if valid_optional_port (dropWhile (\<lambda>c. c \<noteq> CHR '':'') host) then unescape EncodeHost host
      else None)"

definition valid_userinfo :: "string \<Rightarrow> bool" where
  "valid_userinfo s \<longleftrightarrow>
     list_all (\<lambda>c. is_alnum c \<or> c \<in> set ''-._:~!$&()*+,;=%@'' \<union> {CHR 0x27}) s"

definition parse_authority :: "string \<Rightarrow> (string option \<times> string) option" where
  "parse_authority a =
     (case last_index (CHR ''@'') a of
        None \<Rightarrow> map_option (\<lambda>h. (None, h)) (parse_host a)
      | Some i \<Rightarrow>
          (case parse_host (drop (i + 1) a) of
             None \<Rightarrow> None
           | Some h \<Rightarrow>
               if \<not> valid_userinfo (take i a) then None
               else map_option (\<lambda>u. (Some u, h)) (unescape EncodeUserPassword (take i a))))"

definition set_path :: "parsed_url \<Rightarrow> string \<Rightarrow> parsed_url option" where
  "set_path u p = (case unescape EncodePath p of
      None \<Rightarrow> None
    | Some path \<Rightarrow> Some (u\<lparr>url_path := path,
        url_raw_path := (if escape EncodePath path = p then [] else p)\<rparr>))"

definition empty_url :: parsed_url where
  "empty_url = \<lparr>url_scheme = [], url_opaque = [], url_user = None, url_host = [], url_path = [],
     url_raw_path = [], url_force_query = False, url_raw_query = [], url_fragment = []\<rparr>"

text \<open>\<open>parse\<close> on the part before the fragment (never called on behalf of a request).\<close>

definition url_parse_rest :: "parsed_url \<Rightarrow> string \<Rightarrow> parsed_url option" where
  "url_parse_rest u rest =
     (if \<not> prefix ''/'' rest \<and> url_scheme u \<noteq> [] then Some (u\<lparr>url_opaque := rest\<rparr>)
      else if \<not> prefix ''/'' rest \<and> CHR '':'' \<in> set (takeWhile (\<lambda>c. c \<noteq> CHR ''/'') rest) then None
      else if (url_scheme u \<noteq> [] \<or> \<not> prefix ''///'' rest) \<and> prefix ''//'' rest then
        (let a = drop 2 rest;
             authority = takeWhile (\<lambda>c. c \<noteq> CHR ''/'') a;
             path = dropWhile (\<lambda>c. c \<noteq> CHR ''/'') a
         in case parse_authority authority of
              None \<Rightarrow> None
            | Some (user, host) \<Rightarrow> set_path (u\<lparr>url_user := user, url_host := host\<rparr>) path)
      else set_path u rest)"

definition url_parse :: "string \<Rightarrow> parsed_url option" where
  "url_parse raw =
     (case cut (CHR ''#'') raw of (body, frag, _) \<Rightarrow>
        if list_ex is_ctl body then None
        else if body = ''*'' then Some (empty_url\<lparr>url_path := ''*''\<rparr>)
        else (case get_scheme body of
            None \<Rightarrow> None
          | Some (scheme, rest) \<Rightarrow>
              (let u = empty_url\<lparr>url_scheme := map lower_char scheme\<rparr>;
                   force = (suffix ''?'' rest \<and> count_list rest (CHR ''?'') = 1);
                   u' = (if force then u\<lparr>url_force_query := True\<rparr>
                         else u\<lparr>url_raw_query := fst (snd (cut (CHR ''?'') rest))\<rparr>);
                   rest' = fst (cut (CHR ''?'') rest)
               in case url_parse_rest u' rest' of
                    None \<Rightarrow> None
                  | Some v \<Rightarrow>
                      if frag = [] then Some v
                      else map_option (\<lambda>f. v\<lparr>url_fragment := f\<rparr>) (unescape EncodeFragment frag))))"

text \<open>\<open>URL.Hostname\<close> and \<open>URL.Port\<close>.\<close>

definition url_split_host_port :: "string \<Rightarrow> string \<times> string" where
  "url_split_host_port hp =
     (let (h, p) = (case last_index (CHR '':'') hp of
          Some i \<Rightarrow> if valid_optional_port (drop i hp) then (take i hp, drop (i + 1) hp) else (hp, [])
        | None \<Rightarrow> (hp, []))
      in (if prefix ''['' h \<and> suffix '']'' h then take (length h - 2) (drop 1 h) else h, p))"

definition url_hostname :: "parsed_url \<Rightarrow> string" where
  "url_hostname u = fst (url_split_host_port (url_host u))"

definition url_port :: "parsed_url \<Rightarrow> string" where
  "url_port u = snd (url_split_host_port (url_host u))"

text \<open>\<open>URL.EscapedPath\<close>, and \<open>URL.String\<close> of a URL with a host and no user, query or fragment.\<close>

definition valid_encoded :: "string \<Rightarrow> bool" where
  "valid_encoded s \<longleftrightarrow> list_all (\<lambda>c. c \<in> set ''!$&()*+,;=:@[]%'' \<union> {CHR 0x27} \<or> \<not> should_escape EncodePath c) s"

definition escaped_path :: "parsed_url \<Rightarrow> string" where
  "escaped_path u =
     (if url_raw_path u \<noteq> [] \<and> valid_encoded (url_raw_path u)
         \<and> unescape EncodePath (url_raw_path u) = Some (url_path u) then url_raw_path u
      else if url_path u = ''*'' then ''*''
      else escape EncodePath (url_path u))"

definition url_string :: "parsed_url \<Rightarrow> string" where
  "url_string u = url_scheme u @ ''://'' @ escape EncodeHost (url_host u) @ escaped_path u"

section \<open>Lemmas\<close>

subsection \<open>Splitting a joined host and port\<close>

definition no_brackets :: "string \<Rightarrow> bool" where
  "no_brackets s \<longleftrightarrow> CHR ''['' \<notin> set s \<and> CHR '']'' \<notin> set s"

lemma first_index_append: "d \<notin> set s \<Longrightarrow> first_index d (s @ d # t) = Some (length s)"
  by (simp add: first_index_def takeWhile_append)

lemma split_join_host_port:
  assumes h: "host \<noteq> []" "no_brackets host"
    and p: "CHR '':'' \<notin> set port" "no_brackets port"
  shows "split_host_port (join_host_port host port) = Some (host, port)"
proof (cases "CHR '':'' \<in> set host")
  case True
  let ?s = "CHR ''['' # host @ CHR '']'' # CHR '':'' # port"
  have s: "join_host_port host port = ?s"
    using True by (simp add: join_host_port_def)
  have i: "last_index (CHR '':'') ?s = Some (length host + 2)"
    using last_index_append_same [OF p(1), of "CHR ''['' # host @ ['']'' ! 0]"] by simp
  have e: "first_index (CHR '']'') ?s = Some (length host + 1)"
    using first_index_append [of "CHR '']''" "CHR ''['' # host" "CHR '':'' # port"] h(2)
    by (simp add: no_brackets_def)
  show ?thesis
    unfolding split_host_port_def s i e
    using h p by (simp add: Let_def no_brackets_def)
next
  case False
  let ?s = "host @ CHR '':'' # port"
  have s: "join_host_port host port = ?s"
    using False by (simp add: join_host_port_def)
  have i: "last_index (CHR '':'') ?s = Some (length host)"
    by (rule last_index_append_same [OF p(1)])
  have "?s ! 0 \<noteq> CHR ''[''"
    using h by (cases host) (auto simp: no_brackets_def)
  then show ?thesis
    unfolding split_host_port_def s i
    using h p False by (simp add: Let_def no_brackets_def)
qed

lemma set_take_takeWhile:
  "x \<in> set (take (length (takeWhile P s) - Suc 0) (drop (Suc 0) s)) \<Longrightarrow> P x"
proof (cases s)
  case (Cons a t)
  assume "x \<in> set (take (length (takeWhile P s) - Suc 0) (drop (Suc 0) s))"
  with Cons have "x \<in> set (takeWhile P t)"
    by (auto simp flip: takeWhile_eq_take split: if_splits)
  then show ?thesis by (rule set_takeWhileD [THEN conjunct2])
qed simp

lemma split_host_port_no_brackets:
  "split_host_port s = Some (host, port) \<Longrightarrow> no_brackets host"
  by (auto simp: split_host_port_def no_brackets_def first_index_def Let_def
      split: option.splits if_splits prod.splits
      dest: in_set_takeD in_set_dropD set_take_takeWhile)

subsection \<open>IPv4 addresses\<close>

lemma digit_no_sep: "list_all is_digit s \<Longrightarrow> CHR ''.'' \<notin> set s \<and> CHR '':'' \<notin> set s \<and> no_brackets s
    \<and> CHR ''%'' \<notin> set s"
  by (auto simp: list_all_iff is_digit_def no_brackets_def)

lemma split_join_with:
  assumes "ps \<noteq> []" and "list_all (\<lambda>p. d \<notin> set p) ps"
  shows "split_on d (join_with [d] ps) = ps"
  using assms
  by (induction ps rule: induct_list012) (auto simp: split_on_notin split_on_append)

lemma join_with_split: "join_with [d] (split_on d s) = s"
proof (induction s)
  case (Cons c s)
  then show ?case
    by (cases "split_on d s" rule: list.exhaust; cases "tl (split_on d s)")
       (auto simp: neq_Nil_conv)
qed simp

lemma set_join_with: "set (join_with sep ps) \<subseteq> set sep \<union> \<Union> (set ` set ps)"
  by (induction sep ps rule: join_with.induct) auto

lemma format_uint_hd: "n > 0 \<Longrightarrow> hd (format_uint n) \<noteq> CHR ''0''"
proof (induction n rule: format_uint.induct)
  case (1 n)
  show ?case
  proof (cases "n < 10")
    case True
    have "code (digit_char n) \<noteq> code (CHR ''0'')"
      using True 1(2) by (simp add: digit_char_def)
    with True show ?thesis by (auto simp: format_uint.simps [of n])
  next
    case False
    with 1 show ?thesis by (simp add: format_uint.simps [of n])
  qed
qed

lemma ipv4_octet_format: "n \<le> 255 \<Longrightarrow> ipv4_octet (format_uint n)"
proof (cases "n = 0")
  case True
  then show ?thesis by (simp add: ipv4_octet_def) (simp add: format_uint.simps)
next
  case False
  then show "n \<le> 255 \<Longrightarrow> ?thesis" by (simp add: ipv4_octet_def format_uint_hd)
qed

lemma dec_value_inj:
  assumes "list_all is_digit p" "p \<noteq> []" "hd p = CHR ''0'' \<longrightarrow> length p = 1"
  shows "format_uint (dec_value p) = p"
  using assms
proof (induction p rule: rev_induct)
  case (snoc c p)
  have c: "is_digit c" using snoc.prems by simp
  then have dc: "digit_char (digit_val c) = c"
    by (auto simp: digit_char_def digit_val_def is_digit_def)
  show ?case
  proof (cases "p = []")
    case True
    then show ?thesis using c dc digit_val_less [OF c]
      by (simp add: format_uint.simps [of "digit_val c"] dec_value_def)
  next
    case False
    with snoc.prems have hp: "hd p \<noteq> CHR ''0''" by (cases p) auto
    with snoc False have IH: "format_uint (dec_value p) = p" by simp
    have "dec_value p \<noteq> 0"
    proof
      assume "dec_value p = 0"
      with IH have "p = [digit_char 0]" by (simp add: format_uint.simps [of 0])
      moreover have "digit_char 0 = CHR ''0''"
        by (simp add: digit_char_def code_inj [symmetric] del: code_inj)
      ultimately show False using hp by simp
    qed
    then show ?thesis
      using IH dc digit_val_less [OF c]
      by (simp add: dec_value_append format_uint.simps [of "10 * dec_value p + digit_val c"])
  qed
qed simp

fun wf_addr :: "addr \<Rightarrow> bool" where
  "wf_addr (Addr4 os) = (length os = 4 \<and> list_all (\<lambda>x. x \<le> 255) os)"
| "wf_addr (Addr6 gs zone) = (length gs = 8 \<and> list_all (\<lambda>g. g < 65536) gs)"

lemma parse_ipv4_string4:
  assumes "length os = 4" "list_all (\<lambda>x. x \<le> 255) os"
  shows "parse_ipv4_fields (string4 os) = Some os"
proof -
  have "split_on (CHR ''.'') (string4 os) = map format_uint os"
    unfolding string4_def
  proof (rule split_join_with)
    show "map format_uint os \<noteq> []" using assms by auto
    show "list_all (\<lambda>p. CHR ''.'' \<notin> set p) (map format_uint os)"
      using digit_no_sep [OF format_uint_digits] by (simp add: list_all_iff)
  qed
  then show ?thesis
    using assms by (simp add: parse_ipv4_fields_def Let_def list_all_iff ipv4_octet_format map_idI)
qed

lemma parse_ipv4_fields_wf:
  "parse_ipv4_fields s = Some os \<Longrightarrow> length os = 4 \<and> list_all (\<lambda>x. x \<le> 255) os"
  by (auto simp: parse_ipv4_fields_def Let_def list_all_iff ipv4_octet_def split: if_splits)

lemma string4_parse: "parse_ipv4_fields s = Some os \<Longrightarrow> string4 os = s"
proof -
  assume "parse_ipv4_fields s = Some os"
  then have ps: "list_all ipv4_octet (split_on (CHR ''.'') s)"
    and os: "os = map dec_value (split_on (CHR ''.'') s)"
    by (auto simp: parse_ipv4_fields_def Let_def split: if_splits)
  then have "map format_uint os = split_on (CHR ''.'') s"
    by (auto simp: list_all_iff ipv4_octet_def intro!: map_idI dec_value_inj)
  then show ?thesis by (simp add: string4_def join_with_split)
qed

subsection \<open>IPv6 addresses\<close>

lemma format_hex_ne [simp]: "format_hex n \<noteq> []"
  by (subst format_hex.simps) simp

lemma hex_value_append: "hex_value (s @ [c]) = 16 * hex_value s + hex_val c"
  by (simp add: hex_value_def)

lemma format_hex_props: "list_all is_hex_digit (format_hex n) \<and> hex_value (format_hex n) = n"
proof (induction n rule: format_hex.induct)
  case (1 n)
  show ?case
  proof (cases "n < 16")
    case True
    then show ?thesis by (simp add: format_hex.simps [of n] hex_value_def)
  next
    case False
    with 1 show ?thesis by (simp add: format_hex.simps [of n] hex_value_append)
  qed
qed

lemma format_hex_digits [simp]: "list_all is_hex_digit (format_hex n)"
  and hex_value_format_hex [simp]: "hex_value (format_hex n) = n"
  by (simp_all add: format_hex_props)

lemma length_format_hex: "n < 16 ^ Suc k \<Longrightarrow> length (format_hex n) \<le> Suc k"
proof (induction k arbitrary: n)
  case 0
  then show ?case by (subst format_hex.simps) simp
next
  case (Suc k)
  then have "n div 16 < 16 ^ Suc k" by (simp add: less_mult_imp_div_less)
  with Suc.IH [of "n div 16"] show ?case by (subst format_hex.simps) simp
qed

lemma length_format_hex_group: "g < 65536 \<Longrightarrow> length (format_hex g) \<le> 4"
  using length_format_hex [of g 3] by simp

lemma takeWhile_hex_group:
  "takeWhile is_hex_digit (format_hex g @ CHR '':'' # r) = format_hex g"
  "takeWhile is_hex_digit (format_hex g) = format_hex g"
  using format_hex_digits [of g]
  by (simp_all add: list_all_iff takeWhile_append is_hex_digit_def is_digit_def)

lemma hex_digit_not_sep:
  "is_hex_digit c \<Longrightarrow> c \<noteq> CHR '':'' \<and> c \<noteq> CHR ''.'' \<and> c \<noteq> CHR ''%'' \<and> c \<noteq> CHR ''['' \<and> c \<noteq> CHR '']''
     \<and> c \<noteq> CHR ''/''"
  by (auto simp: char_class_defs)

abbreviation groups_string :: "nat list \<Rightarrow> string" where
  "groups_string gs \<equiv> join_with '':'' (map format_hex gs)"

lemma groups_string_hd:
  "gs \<noteq> [] \<Longrightarrow> groups_string gs \<noteq> [] \<and> is_hex_digit (hd (groups_string gs))"
  using format_hex_digits [of "hd gs"] format_hex_ne [of "hd gs"]
  by (cases gs rule: remdups_adj.cases) (auto simp: list_all_iff)

lemma parse6_group_end:
  "g < 65536 \<Longrightarrow> parse6_loop (Suc n) (format_hex g) ell acc = Some ([], ell, acc @ [g])"
  using length_format_hex_group [of g] by (simp add: takeWhile_hex_group Let_def)

lemma parse6_group_colon:
  assumes "g < 65536" "r \<noteq> []" "hd r \<noteq> CHR '':''"
  shows "parse6_loop (Suc n) (format_hex g @ CHR '':'' # r) ell acc = parse6_loop n r ell (acc @ [g])"
  using length_format_hex_group [OF assms(1)] assms
  by (cases r) (auto simp: takeWhile_hex_group Let_def)

lemma parse6_group_ellipsis:
  assumes "g < 65536"
  shows "parse6_loop (Suc n) (format_hex g @ CHR '':'' # CHR '':'' # r) None acc =
    (if r = [] then Some ([], Some (Suc (length acc)), acc @ [g])
     else parse6_loop n r (Some (Suc (length acc))) (acc @ [g]))"
  using length_format_hex_group [OF assms] by (auto simp: takeWhile_hex_group Let_def)

lemma parse6_groups:
  assumes "gs \<noteq> []" "length gs \<le> n" "list_all (\<lambda>g. g < 65536) gs"
  shows "parse6_loop n (groups_string gs) ell acc = Some ([], ell, acc @ gs)"
  using assms
proof (induction gs arbitrary: n acc)
  case (Cons g gs)
  then obtain m where n: "n = Suc m" "length gs \<le> m" by (cases n) auto
  show ?case
  proof (cases gs)
    case Nil
    with Cons.prems n show ?thesis using parse6_group_end [of g m] by simp
  next
    case (Cons h hs)
    then have s: "groups_string (g # gs) = format_hex g @ CHR '':'' # groups_string gs" by simp
    have "hd (groups_string gs) \<noteq> CHR '':''"
      using Cons groups_string_hd [of gs] hex_digit_not_sep by blast
    then show ?thesis
      unfolding s n(1)
      using Cons Cons.prems Cons.IH n groups_string_hd [of gs]
      by (simp add: parse6_group_colon del: parse6_loop.simps join_with.simps list.map)
  qed
qed simp

lemma parse6_groups_ellipsis:
  assumes "gs \<noteq> []" "length gs + length hs \<le> n" "list_all (\<lambda>g. g < 65536) (gs @ hs)"
  shows "parse6_loop n (groups_string gs @ ''::'' @ groups_string hs) None acc =
    Some ([], Some (length acc + length gs), acc @ gs @ hs)"
  using assms
proof (induction gs arbitrary: n acc)
  case (Cons g gs)
  then obtain m where n: "n = Suc m" "length gs + length hs \<le> m" by (cases n) auto
  show ?case
  proof (cases gs)
    case Nil
    then show ?thesis
      using Cons.prems n parse6_groups [of hs m "Some (Suc (length acc))" "acc @ [g]"]
        groups_string_hd [of hs]
      by (cases "hs = []") (simp_all add: parse6_group_ellipsis del: parse6_loop.simps)
  next
    case (Cons h hs')
    then have s: "groups_string (g # gs) @ ''::'' @ groups_string hs
        = format_hex g @ CHR '':'' # (groups_string gs @ ''::'' @ groups_string hs)" by simp
    have "gs \<noteq> []" using Cons by simp
    with groups_string_hd [of gs] have "hd (groups_string gs @ ''::'' @ groups_string hs) \<noteq> CHR '':''"
      using hex_digit_not_sep [of "hd (groups_string gs)"] by auto
    then show ?thesis
      unfolding s n(1)
      using \<open>gs \<noteq> []\<close> Cons.prems Cons.IH [of m "acc @ [g]"] n groups_string_hd [of gs]
      by (simp add: parse6_group_colon del: parse6_loop.simps join_with.simps list.map)
  qed
qed simp

lemma takeWhile_zero: "takeWhile (\<lambda>g. g = 0) gs = replicate (length (takeWhile (\<lambda>g. g = (0::nat)) gs)) 0"
  by (induction gs) auto

lemma zero_run_split: "i \<le> length gs \<Longrightarrow>
    gs = take i gs @ replicate (zero_run gs i) 0 @ drop (i + zero_run gs i) gs"
proof -
  have "drop i gs = takeWhile (\<lambda>g. g = 0) (drop i gs) @ drop (zero_run gs i) (drop i gs)"
    unfolding zero_run_def by (metis dropWhile_eq_drop takeWhile_dropWhile_id)
  also have "\<dots> = replicate (zero_run gs i) 0 @ drop (i + zero_run gs i) gs"
    by (subst takeWhile_zero) (simp add: zero_run_def add.commute)
  finally show ?thesis by (metis append_take_drop_id)
qed

lemma best_zero_run_split:
  assumes "length gs = 8" "best_zero_run gs = Some (a, b)"
  shows "a + 2 \<le> b \<and> b \<le> 8 \<and> gs = take a gs @ replicate (b - a) 0 @ drop b gs"
proof -
  define ok where "ok = (\<lambda>r. case r of None \<Rightarrow> True
    | Some (a, b) \<Rightarrow> a + 2 \<le> b \<and> b \<le> 8 \<and> gs = take a gs @ replicate (b - a) (0::nat) @ drop b gs)"
  have step: "ok (Some (i, i + zero_run gs i))" if "i < 8" "zero_run gs i \<ge> 2" for i
  proof -
    have "zero_run gs i \<le> 8 - i"
      using assms(1) length_takeWhile_le [of "\<lambda>g. g = 0" "drop i gs"] by (simp add: zero_run_def)
    with that zero_run_split [of i gs] assms(1) show ?thesis by (simp add: ok_def)
  qed
  have "ok (foldl (\<lambda>best i. let l = zero_run gs i in
       if l \<ge> 2 \<and> l > (case best of None \<Rightarrow> 0 | Some (a, b) \<Rightarrow> b - a) then Some (i, i + l) else best) r is)"
    if "ok r" "list_all (\<lambda>i. i < 8) is" for r "is"
    using that by (induction "is" arbitrary: r) (auto simp: Let_def step)
  from this [of None "[0..<8]"] have "ok (best_zero_run gs)"
    by (simp add: ok_def best_zero_run_def list_all_iff)
  with assms(2) show ?thesis by (simp add: ok_def)
qed

lemma set_groups_string: "set (groups_string gs) \<subseteq> {CHR '':''} \<union> {c. is_hex_digit c}"
  using set_join_with [of "'':''" "map format_hex gs"] format_hex_digits
  by (fastforce simp: list_all_iff)

lemma set_string4: "set (string4 os) \<subseteq> {CHR ''.''} \<union> {c. is_hex_digit c}"
  using set_join_with [of "''.''" "map format_uint os"] format_uint_digits
  unfolding string4_def by (fastforce simp: list_all_iff is_hex_digit_def)

lemma set_string6: "set (string6 gs) \<subseteq> {CHR '':''} \<union> {c. is_hex_digit c}"
  using set_groups_string
  by (fastforce simp: string6_def split: option.splits prod.splits)

definition addr6_text :: "nat list \<Rightarrow> string" where
  "addr6_text gs = (if is_4in6 gs
     then ''::ffff:'' @ string4 [gs ! 6 div 256, gs ! 6 mod 256, gs ! 7 div 256, gs ! 7 mod 256]
     else string6 gs)"

lemma addr_string6: "addr_string (Addr6 gs zone) = addr6_text gs @ (if zone = [] then [] else ''%'' @ zone)"
  by (simp add: addr_string_def addr6_text_def)

lemma set_addr6_text: "set (addr6_text gs) \<subseteq> {CHR '':'', CHR ''.''} \<union> {c. is_hex_digit c}"
proof -
  have "is_hex_digit CHR ''f''" by (simp add: is_hex_digit_def)
  then show ?thesis
    unfolding addr6_text_def using set_string6 [of gs]
      set_string4 [of "[gs ! 6 div 256, gs ! 6 mod 256, gs ! 7 div 256, gs ! 7 mod 256]"]
    by auto
qed

text \<open>The first separator of an IPv6 text is a colon.\<close>

lemma addr6_text_first_sep:
  assumes "length gs = 8"
  shows "\<exists>h t. addr6_text gs = h @ CHR '':'' # t \<and> list_all is_hex_digit h"
proof (cases "is_4in6 gs")
  case True
  then show ?thesis by (auto simp: addr6_text_def intro: exI [of _ "[]"])
next
  case False
  have grp: "\<exists>h t. groups_string hs @ r = h @ CHR '':'' # t \<and> list_all is_hex_digit h"
    if "hs \<noteq> []" "length hs > 1 \<or> hd r = CHR '':'' \<and> r \<noteq> []" for hs :: "nat list" and r
  proof -
    have "groups_string hs @ r = format_hex (hd hs) @ CHR '':'' # tl (drop (length (format_hex (hd hs))) (groups_string hs @ r))"
      using that by (cases hs rule: remdups_adj.cases) (auto simp: neq_Nil_conv)
    then show ?thesis using format_hex_digits by blast
  qed
  have "string6 gs = addr6_text gs" using False by (simp add: addr6_text_def)
  moreover have "\<exists>h t. string6 gs = h @ CHR '':'' # t \<and> list_all is_hex_digit h"
  proof (cases "best_zero_run gs")
    case None
    have "gs \<noteq> []" using assms by auto
    with grp [of gs "[]"] assms None show ?thesis by (simp add: string6_def)
  next
    case (Some ab)
    obtain a b where ab: "ab = (a, b)" by force
    show ?thesis
    proof (cases "a = 0")
      case True
      with Some ab show ?thesis by (auto simp: string6_def intro: exI [of _ "[]"])
    next
      case False
      then have "take a gs \<noteq> []" using assms by auto
      with False grp [of "take a gs" "''::'' @ groups_string (drop b gs)"] assms Some ab
      show ?thesis by (auto simp: string6_def)
    qed
  qed
  ultimately show ?thesis by simp
qed

definition parse6_text :: "string \<Rightarrow> nat list option" where
  "parse6_text s = (if s = ''::'' then Some (replicate 8 0)
     else (case (if prefix ''::'' s then parse6_loop 8 (drop 2 s) (Some 0) []
                 else parse6_loop 8 s None []) of
             None \<Rightarrow> None
           | Some (rest, ell, acc) \<Rightarrow> if rest \<noteq> [] then None else expand_ellipsis ell acc))"

lemma parse_ipv6_alt:
  "parse_ipv6 inp = (case cut (CHR ''%'') inp of (s, zone, has_zone) \<Rightarrow>
     if has_zone \<and> zone = [] then None else map_option (\<lambda>g. Addr6 g zone) (parse6_text s))"
  by (auto simp: parse_ipv6_def parse6_text_def split: prod.splits option.splits)

lemma groups_no_ellipsis: "gs \<noteq> [] \<Longrightarrow> \<not> prefix ''::'' (groups_string gs @ r)"
  using groups_string_hd [of gs] hex_digit_not_sep [of "hd (groups_string gs)"]
  by (cases "groups_string gs") auto

lemma parse6_string6:
  assumes wf: "length gs = 8" "list_all (\<lambda>g. g < 65536) gs"
  shows "parse6_text (string6 gs) = Some gs"
proof (cases "best_zero_run gs")
  case None
  then have s: "string6 gs = groups_string gs" by (simp add: string6_def)
  have ne: "gs \<noteq> []" using wf by auto
  have "\<not> prefix ''::'' (groups_string gs)" using groups_no_ellipsis [OF ne, of "[]"] by simp
  with s show ?thesis
    using parse6_groups [OF ne, of 8 None "[]"] wf
    by (auto simp: parse6_text_def expand_ellipsis_def simp del: parse6_loop.simps)
next
  case (Some ab)
  obtain a b where "ab = (a, b)" by force
  with Some have ab: "best_zero_run gs = Some (a, b)" by simp
  from best_zero_run_split [OF wf(1) ab]
  have r: "a + 2 \<le> b" "b \<le> 8" and gs: "gs = take a gs @ replicate (b - a) 0 @ drop b gs" by auto
  have s: "string6 gs = groups_string (take a gs) @ ''::'' @ groups_string (drop b gs)"
    using ab by (simp add: string6_def)
  have small: "list_all (\<lambda>g. g < 65536) (take a gs @ drop b gs)"
    using wf(2) by (auto simp: list_all_iff dest: in_set_takeD in_set_dropD)
  show ?thesis
  proof (cases "a = 0")
    case True
    show ?thesis
    proof (cases "b = 8")
      case True
      with \<open>a = 0\<close> wf gs s show ?thesis by (simp add: parse6_text_def)
    next
      case False
      then have ne: "drop b gs \<noteq> []" using r wf by simp
      then have "parse6_loop 8 (groups_string (drop b gs)) (Some 0) [] = Some ([], Some 0, drop b gs)"
        using parse6_groups [of "drop b gs" 8 "Some 0" "[]"] wf small by simp
      moreover have "groups_string (drop b gs) \<noteq> []" using groups_string_hd [OF ne] by simp
      moreover have "expand_ellipsis (Some 0) (drop b gs) = Some gs"
        using gs \<open>a = 0\<close> r wf by (simp add: expand_ellipsis_def)
      ultimately show ?thesis
        using \<open>a = 0\<close> s by (simp add: parse6_text_def del: parse6_loop.simps)
    qed
  next
    case False
    then have ne: "take a gs \<noteq> []" using wf by auto
    have "parse6_loop 8 (string6 gs) None [] = Some ([], Some a, take a gs @ drop b gs)"
      using parse6_groups_ellipsis [OF ne, of "drop b gs" 8 "[]"] s r wf small by simp
    moreover have "\<not> prefix ''::'' (string6 gs)" using groups_no_ellipsis [OF ne] s by simp
    moreover have "expand_ellipsis (Some a) (take a gs @ drop b gs) = Some gs"
      using gs r wf by (simp add: expand_ellipsis_def)
    ultimately show ?thesis by (auto simp: parse6_text_def simp del: parse6_loop.simps)
  qed
qed


lemma takeWhile_digits_dot:
  "takeWhile is_hex_digit (format_uint n @ CHR ''.'' # r) = format_uint n"
  using format_uint_digits [of n]
  by (simp add: list_all_iff takeWhile_append char_class_defs)

lemma length_format_uint_octet: "n \<le> 255 \<Longrightarrow> length (format_uint n) \<le> 3"
  by (subst format_uint.simps, subst (1) format_uint.simps, subst (1) format_uint.simps) auto

lemma length_2_cases: "length xs = 2 \<Longrightarrow> (\<And>a b. xs = [a, b] \<Longrightarrow> P) \<Longrightarrow> P"
  by (cases xs; cases "tl xs") auto

lemma hex_char_f: "hex_char 15 = CHR ''f''"
  by (simp add: hex_char_def code_inj [symmetric] del: code_inj)

lemma parse6_loop_embedded:
  assumes os: "parse_ipv4_fields (string4 [a, b, c, d]) = Some [a, b, c, d]" and "a \<le> 255"
    and "length acc \<le> 6"
  shows "parse6_loop (Suc n) (string4 [a, b, c, d]) (Some e) acc
    = Some ([], Some e, acc @ [256 * a + b, 256 * c + d])"
proof -
  obtain t where s4: "string4 [a, b, c, d] = format_uint a @ CHR ''.'' # t"
    by (simp add: string4_def)
  show ?thesis
    using os length_format_uint_octet [OF assms(2)] assms(3)
    unfolding s4 by (simp add: takeWhile_digits_dot Let_def)
qed

lemma parse6_text_mapped:
  assumes "parse6_loop (Suc 6) s (Some 0) [65535] = Some ([], Some 0, [65535, a, b])"
    and "s \<noteq> []" "hd s \<noteq> CHR '':''"
  shows "parse6_text (''::'' @ ''ffff'' @ CHR '':'' # s) = Some [0, 0, 0, 0, 0, 65535, a, b]"
proof -
  have ff: "format_hex 65535 = ''ffff''"
    by (simp add: format_hex.simps hex_char_f)
  have lt: "(65535::nat) < 65536" by simp
  have eight: "Suc (Suc 6) = 8" by simp
  have "parse6_loop (Suc (Suc 6)) (format_hex 65535 @ CHR '':'' # s) (Some 0) []
      = Some ([], Some 0, [65535, a, b])"
    unfolding parse6_group_colon [OF lt assms(2,3)] append_Nil by (rule assms(1))
  then have l: "parse6_loop 8 (''ffff'' @ CHR '':'' # s) (Some 0) [] = Some ([], Some 0, [65535, a, b])"
    unfolding ff eight .
  have "replicate 5 (0::nat) = [0, 0, 0, 0, 0]" by (simp add: numeral_eq_Suc)
  then have "expand_ellipsis (Some 0) [65535, a, b] = Some [0, 0, 0, 0, 0, 65535, a, b]"
    by (simp add: expand_ellipsis_def)
  then show ?thesis
    using l by (simp add: parse6_text_def del: parse6_loop.simps)
qed

lemma parse6_4in6:
  assumes wf: "length gs = 8" "list_all (\<lambda>g. g < 65536) gs" and m: "is_4in6 gs"
  shows "parse6_text (addr6_text gs) = Some gs"
proof -
  have "length (drop 6 gs) = 2" using wf by simp
  then obtain g6 g7 where d: "drop 6 gs = [g6, g7]" by (rule length_2_cases)
  have gs: "gs = [0, 0, 0, 0, 0, 65535, g6, g7]"
    using append_take_drop_id [of 6 gs] d m by (simp add: is_4in6_def)
  then have small: "g6 < 65536" "g7 < 65536" using wf by auto
  define s where "s = string4 [g6 div 256, g6 mod 256, g7 div 256, g7 mod 256]"
  have os: "parse_ipv4_fields (string4 [g6 div 256, g6 mod 256, g7 div 256, g7 mod 256])
      = Some [g6 div 256, g6 mod 256, g7 div 256, g7 mod 256]"
    by (rule parse_ipv4_string4) (use small in \<open>auto simp: less_mult_imp_div_less\<close>)
  have "parse6_loop (Suc 6) s (Some 0) [65535] = Some ([], Some 0, [65535, g6, g7])"
    unfolding s_def using parse6_loop_embedded [OF os, of "[65535]" 6 0] small by simp
  moreover have "s \<noteq> []" "hd s \<noteq> CHR '':''"
    using list_all_hdI [OF format_uint_digits format_uint_ne, of "g6 div 256"]
    by (auto simp: s_def string4_def hd_append is_digit_def)
  ultimately have "parse6_text (''::'' @ ''ffff'' @ CHR '':'' # s) = Some gs"
    unfolding gs by (rule parse6_text_mapped)
  moreover have "addr6_text gs = ''::'' @ ''ffff'' @ CHR '':'' # s"
    using m by (simp add: addr6_text_def gs s_def)
  ultimately show ?thesis by (simp only:)
qed

lemma parse6_addr6_text:
  "length gs = 8 \<Longrightarrow> list_all (\<lambda>g. g < 65536) gs \<Longrightarrow> parse6_text (addr6_text gs) = Some gs"
  using parse6_4in6 parse6_string6 by (cases "is_4in6 gs") (auto simp: addr6_text_def)


subsection \<open>Round trip of \<open>ParseAddr\<close> and \<open>String\<close>\<close>

lemma dropWhile_first_sep:
  "list_all is_hex_digit h \<Longrightarrow>
   dropWhile (\<lambda>c. c \<noteq> CHR ''.'' \<and> c \<noteq> CHR '':'' \<and> c \<noteq> CHR ''%'') (h @ c # t)
     = dropWhile (\<lambda>c. c \<noteq> CHR ''.'' \<and> c \<noteq> CHR '':'' \<and> c \<noteq> CHR ''%'') (c # t)"
  by (induction h) (auto dest: hex_digit_not_sep)

lemma parse_addr_colon:
  "list_all is_hex_digit h \<Longrightarrow> parse_addr (h @ CHR '':'' # t) = parse_ipv6 (h @ CHR '':'' # t)"
  unfolding parse_addr_def by (subst dropWhile_first_sep) simp_all

lemma parse_addr_dot:
  "list_all is_hex_digit h \<Longrightarrow>
   parse_addr (h @ CHR ''.'' # t) = map_option Addr4 (parse_ipv4_fields (h @ CHR ''.'' # t))"
  unfolding parse_addr_def by (subst dropWhile_first_sep) simp_all

lemma cut_addr6_text: "cut (CHR ''%'') (addr6_text gs @ (if zone = [] then [] else ''%'' @ zone))
    = (addr6_text gs, zone, zone \<noteq> [])"
proof -
  have "CHR ''%'' \<notin> set (addr6_text gs)"
    using set_addr6_text [of gs] hex_digit_not_sep by fastforce
  then show ?thesis by (simp add: cut_notin cut_append)
qed

lemma parse_addr_string:
  assumes "wf_addr a"
  shows "parse_addr (addr_string a) = Some a"
proof (cases a)
  case (Addr4 os)
  then have wf: "length os = 4" "list_all (\<lambda>x. x \<le> 255) os" using assms by auto
  then obtain x xs where os: "os = x # xs" "xs \<noteq> []" by (cases os; cases "tl os") auto
  then obtain t where "string4 os = format_uint x @ CHR ''.'' # t"
    by (cases xs) (auto simp: string4_def)
  moreover have "list_all is_hex_digit (format_uint x)"
    by (rule list_all_mono [OF format_uint_digits]) (simp add: is_hex_digit_def)
  ultimately show ?thesis
    using parse_addr_dot [of "format_uint x" t] parse_ipv4_string4 [OF wf] Addr4
    by (simp add: addr_string_def)
next
  case (Addr6 gs zone)
  then have wf: "length gs = 8" "list_all (\<lambda>g. g < 65536) gs" using assms by auto
  let ?s = "addr6_text gs @ (if zone = [] then [] else ''%'' @ zone)"
  obtain h t where ht: "addr6_text gs = h @ CHR '':'' # t" "list_all is_hex_digit h"
    using addr6_text_first_sep [OF wf(1)] by blast
  then have "parse_addr ?s = parse_ipv6 ?s"
    using parse_addr_colon [of h "t @ (if zone = [] then [] else ''%'' @ zone)"] by simp
  also have "\<dots> = Some a"
    unfolding parse_ipv6_alt cut_addr6_text using parse6_addr6_text [OF wf] Addr6 by simp
  finally show ?thesis using Addr6 by (simp add: addr_string6)
qed

lemma hex_value_less: "list_all is_hex_digit ds \<Longrightarrow> hex_value ds < 16 ^ length ds"
proof (induction ds rule: rev_induct)
  case (snoc c ds)
  then show ?case using hex_val_less [of c] by (simp add: hex_value_append)
qed (simp add: hex_value_def)

lemma hex_group_less: "length (takeWhile is_hex_digit s) \<le> 4 \<Longrightarrow> hex_value (takeWhile is_hex_digit s) < 65536"
proof -
  assume "length (takeWhile is_hex_digit s) \<le> 4"
  then have "(16::nat) ^ length (takeWhile is_hex_digit s) \<le> 16 ^ 4" by (rule power_increasing) simp
  moreover have "hex_value (takeWhile is_hex_digit s) < 16 ^ length (takeWhile is_hex_digit s)"
    by (rule hex_value_less) (auto simp: list_all_iff dest: set_takeWhileD)
  ultimately show ?thesis by simp
qed

lemma parse6_loop_step:
  assumes "parse6_loop (Suc n) s ell acc = Some res"
  shows "(\<exists>a b. snd (snd res) = acc @ [a, b] \<and> length acc \<le> 6 \<and> a < 65536 \<and> b < 65536)
    \<or> (\<exists>g. g < 65536 \<and> (snd (snd res) = acc @ [g]
          \<or> (\<exists>s' ell'. parse6_loop n s' ell' (acc @ [g]) = Some res)))"
proof -
  define ds where "ds = takeWhile is_hex_digit s"
  define rest where "rest = drop (length ds) s"
  note eq = assms [unfolded parse6_loop.simps Let_def, folded ds_def, folded rest_def]
  have len: "\<not> (length ds = 0 \<or> length ds > 4)"
  proof
    assume "length ds = 0 \<or> length ds > 4"
    with eq show False by simp
  qed
  then have g: "hex_value ds < 65536" unfolding ds_def by (intro hex_group_less) simp
  show ?thesis
  proof (cases "rest \<noteq> [] \<and> hd rest = CHR ''.''")
    case True
    with len eq obtain os where os: "parse_ipv4_fields s = Some os" "length acc \<le> 6"
      by (auto split: option.splits if_splits)
    from parse_ipv4_fields_wf [OF os(1)] obtain a b c d where "os = [a, b, c, d]"
      "a \<le> 255" "b \<le> 255" "c \<le> 255" "d \<le> 255"
      by (auto simp: numeral_eq_Suc length_Suc_conv)
    with True len eq os show ?thesis by (auto split: if_splits)
  next
    case False
    with len eq g show ?thesis by (force split: if_splits list.splits)
  qed
qed

lemma parse6_loop_wf:
  "parse6_loop n s ell acc = Some res \<Longrightarrow> list_all (\<lambda>g. g < 65536) acc \<Longrightarrow> length acc + n \<le> 8 \<Longrightarrow>
   list_all (\<lambda>g. g < 65536) (snd (snd res)) \<and> length (snd (snd res)) \<le> 8"
proof (induction n arbitrary: s ell acc)
  case (Suc n)
  from parse6_loop_step [OF Suc.prems(1)] show ?case
    using Suc.prems Suc.IH by fastforce
qed auto

lemma expand_ellipsis_wf:
  "expand_ellipsis ell acc = Some gs \<Longrightarrow> list_all (\<lambda>g. g < 65536) acc \<Longrightarrow> length acc \<le> 8 \<Longrightarrow>
   length gs = 8 \<and> list_all (\<lambda>g. g < 65536) gs"
  by (auto simp: expand_ellipsis_def list_all_iff split: if_splits option.splits)
    (meson in_set_takeD in_set_dropD)+

lemma parse_addr_wf: "parse_addr s = Some a \<Longrightarrow> wf_addr a"
proof -
  have six: "wf_addr a" if "parse_ipv6 s = Some a"
  proof -
    from that obtain gs zone t where a: "a = Addr6 gs zone" and t: "parse6_text t = Some gs"
      by (auto simp: parse_ipv6_alt split: prod.splits if_splits)
    show ?thesis
    proof (cases "t = ''::''")
      case True
      with a t show ?thesis by (auto simp: parse6_text_def list_all_iff)
    next
      case False
      with t obtain res u ell0 where "parse6_loop 8 u ell0 [] = Some res"
        "expand_ellipsis (fst (snd res)) (snd (snd res)) = Some gs"
        by (auto simp: parse6_text_def simp del: parse6_loop.simps split: option.splits if_splits)
      with parse6_loop_wf expand_ellipsis_wf show ?thesis using a by fastforce
    qed
  qed
  assume "parse_addr s = Some a"
  then show ?thesis
    using six by (auto simp: parse_addr_def split: list.splits if_splits dest: parse_ipv4_fields_wf)
qed

lemma parse_addr_string_parse: "parse_addr s = Some a \<Longrightarrow> parse_addr (addr_string a) = Some a"
  by (rule parse_addr_string) (rule parse_addr_wf)

lemma addr4_parse_same: "parse_addr s = Some (Addr4 os) \<Longrightarrow> string4 os = s"
  by (auto simp: parse_addr_def parse_ipv6_alt split: list.splits if_splits prod.splits
      intro: string4_parse)

lemma parse_addr_no_colon: "parse_addr s = Some a \<Longrightarrow> CHR '':'' \<notin> set s \<Longrightarrow> \<exists>os. a = Addr4 os"
  by (auto simp: parse_addr_def split: list.splits if_splits)
    (metis list.set_intros(1) set_dropWhileD)

subsection \<open>Parsing an HTTPS origin\<close>

definition origin_char :: "char \<Rightarrow> bool" where
  "origin_char c \<longleftrightarrow> is_lower c \<or> is_digit c \<or> c = CHR ''-'' \<or> c = CHR ''.''"

definition port_suffix :: "string \<Rightarrow> bool" where
  "port_suffix p \<longleftrightarrow> p = [] \<or> (\<exists>ds. p = CHR '':'' # ds \<and> ds \<noteq> [] \<and> list_all is_digit ds)"

lemma origin_char_facts:
  assumes "origin_char c"
  shows "is_graphic c" "\<not> is_ctl c" "\<not> should_escape EncodeHost c" "\<not> is_upper c" "is_ascii c"
    "c \<notin> {CHR ''#'', CHR ''?'', CHR ''/'', CHR ''@'', CHR ''['', CHR '']'', CHR ''%'', CHR '':''}"
  using assms by (auto simp: origin_char_def char_class_defs is_ctl_def should_escape_def is_alnum_def)

lemma port_suffix_chars:
  assumes "port_suffix p"
  shows "list_all (\<lambda>c. is_digit c \<or> c = CHR '':'') p"
  using assms by (auto simp: port_suffix_def list_all_iff)

lemma port_char_facts:
  assumes "is_digit c \<or> c = CHR '':''"
  shows "is_graphic c" "\<not> is_ctl c" "\<not> should_escape EncodeHost c"
    "c \<notin> {CHR ''#'', CHR ''?'', CHR ''/'', CHR ''@'', CHR ''['', CHR '']'', CHR ''%''}"
  using assms by (auto simp: char_class_defs is_ctl_def should_escape_def is_alnum_def)

lemma origin_notin:
  assumes "list_all origin_char s"
  shows "CHR ''#'' \<notin> set s" "CHR ''?'' \<notin> set s" "CHR ''/'' \<notin> set s" "CHR ''@'' \<notin> set s"
    "CHR ''['' \<notin> set s" "CHR '']'' \<notin> set s" "CHR ''%'' \<notin> set s" "CHR '':'' \<notin> set s"
  using assms origin_char_facts(6) by (fastforce simp: list_all_iff)+

lemma port_notin:
  assumes "port_suffix s"
  shows "CHR ''#'' \<notin> set s" "CHR ''?'' \<notin> set s" "CHR ''/'' \<notin> set s" "CHR ''@'' \<notin> set s"
    "CHR ''['' \<notin> set s" "CHR '']'' \<notin> set s" "CHR ''%'' \<notin> set s"
  using port_suffix_chars [OF assms] port_char_facts(4) by (fastforce simp: list_all_iff)+

lemma unescape_host_plain:
  "list_all (\<lambda>c. c \<noteq> CHR ''%'' \<and> \<not> should_escape EncodeHost c) s \<Longrightarrow> unescape EncodeHost s = Some s"
  by (induction s) auto

lemma valid_port_suffix: "port_suffix p \<Longrightarrow> valid_optional_port p"
  by (auto simp: port_suffix_def valid_optional_port_def)

lemma parse_host_origin:
  assumes h: "list_all origin_char host" and p: "port_suffix p"
  shows "parse_host (host @ p) = Some (host @ p)"
proof -
  have "dropWhile (\<lambda>c. c \<noteq> CHR '':'') (host @ p) = dropWhile (\<lambda>c. c \<noteq> CHR '':'') p"
    using origin_notin(8) [OF h] by (intro dropWhile_append2) auto
  also have "\<dots> = p" using p by (auto simp: port_suffix_def)
  finally have dw: "dropWhile (\<lambda>c. c \<noteq> CHR '':'') (host @ p) = p" .
  have "\<forall>c\<in>set (host @ p). \<not> should_escape EncodeHost c"
    using h port_suffix_chars [OF p] origin_char_facts(3) port_char_facts(3)
    by (auto simp only: list_all_iff set_append Un_iff)
  moreover have "CHR ''%'' \<notin> set (host @ p)"
    using origin_notin [OF h] port_notin [OF p] by simp
  ultimately have "unescape EncodeHost (host @ p) = Some (host @ p)"
    by (intro unescape_host_plain) (auto simp only: list_all_iff)
  then show ?thesis
    using origin_notin [OF h] port_notin [OF p] valid_port_suffix [OF p] dw
    by (simp add: parse_host_def)
qed

definition path_char :: "char \<Rightarrow> bool" where
  "path_char c \<longleftrightarrow> is_lower c \<or> is_digit c \<or> c \<in> set ''-_./''"

definition plain_path :: "string \<Rightarrow> bool" where
  "plain_path s \<longleftrightarrow> list_all path_char s \<and> (s = [] \<or> hd s = CHR ''/'')"

lemma path_char_facts:
  assumes "path_char c"
  shows "\<not> is_ctl c" "\<not> should_escape EncodePath c" "is_graphic c" "c \<notin> {CHR ''#'', CHR ''?'', CHR ''%''}"
  using assms by (auto simp: path_char_def char_class_defs is_ctl_def should_escape_def is_alnum_def)

lemma escape_plain: "list_all (\<lambda>c. \<not> should_escape m c) s \<Longrightarrow> escape m s = s"
  by (induction s) auto

lemma unescape_path_plain: "CHR ''%'' \<notin> set s \<Longrightarrow> unescape EncodePath s = Some s"
  by (induction s) auto

lemma set_plain_path:
  assumes "plain_path s"
  shows "set_path u s = Some (u\<lparr>url_path := s, url_raw_path := []\<rparr>)" "escape EncodePath s = s"
    "CHR ''#'' \<notin> set s" "CHR ''?'' \<notin> set s" "\<forall>c\<in>set s. \<not> is_ctl c"
proof -
  have "list_all path_char s" using assms by (simp add: plain_path_def)
  then have "CHR ''%'' \<notin> set s" "list_all (\<lambda>c. \<not> should_escape EncodePath c) s"
    and *: "CHR ''#'' \<notin> set s" "CHR ''?'' \<notin> set s" "\<forall>c\<in>set s. \<not> is_ctl c"
    using path_char_facts by (fastforce simp: list_all_iff)+
  then show "set_path u s = Some (u\<lparr>url_path := s, url_raw_path := []\<rparr>)" "escape EncodePath s = s"
    by (simp_all add: set_path_def unescape_path_plain escape_plain)
  from * show "CHR ''#'' \<notin> set s" "CHR ''?'' \<notin> set s" "\<forall>c\<in>set s. \<not> is_ctl c" by auto
qed

lemma url_parse_origin_path:
  assumes h: "list_all origin_char host" and p: "port_suffix p" and path: "plain_path path"
  shows "url_parse (''https://'' @ host @ p @ path) =
    Some (empty_url\<lparr>url_scheme := ''https'', url_host := host @ p, url_path := path\<rparr>)"
proof -
  define a where "a = host @ p"
  have notin: "CHR ''#'' \<notin> set a" "CHR ''?'' \<notin> set a" "CHR ''/'' \<notin> set a" "CHR ''@'' \<notin> set a"
    using origin_notin [OF h] port_notin [OF p] by (simp_all add: a_def)
  note sp = set_plain_path [OF path]
  have noctl: "\<forall>c\<in>set a. \<not> is_ctl c"
    using h port_suffix_chars [OF p] origin_char_facts(2) port_char_facts(2)
    by (auto simp only: a_def list_all_iff set_append Un_iff)
  have cut: "cut (CHR ''#'') (''https://'' @ a @ path) = (''https://'' @ a @ path, [], False)"
    using notin sp by (intro cut_notin) simp
  have ctl: "\<not> list_ex is_ctl (''https://'' @ a @ path)"
    using noctl sp by (auto simp: list_ex_iff is_ctl_def)
  have sch: "get_scheme (''https://'' @ a @ path) = Some (''https'', ''//'' @ a @ path)"
    by (simp add: get_scheme_def Let_def scheme_char_def is_alnum_def char_class_defs)
  have low: "map lower_char ''https'' = ''https''" by (simp add: is_upper_def)
  have q: "cut (CHR ''?'') (''//'' @ a @ path) = (''//'' @ a @ path, [], False)"
    using notin sp by (intro cut_notin) simp
  have sq: "\<not> suffix ''?'' (''//'' @ a @ path)"
    using notin sp set_mono_suffix [of "''?''" "''//'' @ a @ path"] by auto
  have auth: "parse_authority a = Some (None, a)"
    using notin parse_host_origin [OF h p] last_index_None [of "CHR ''@''" a]
    by (simp add: parse_authority_def a_def)
  have "path = [] \<or> hd path = CHR ''/''" using path by (simp add: plain_path_def)
  then have tw: "takeWhile (\<lambda>c. c \<noteq> CHR ''/'') (a @ path) = a" "dropWhile (\<lambda>c. c \<noteq> CHR ''/'') (a @ path) = path"
    using notin by (cases path; auto simp: takeWhile_append dropWhile_append)+
  have rest: "url_parse_rest u (''//'' @ a @ path) = Some (u\<lparr>url_host := a, url_path := path\<rparr>)"
    if "url_scheme u = ''https''" "url_raw_path u = []" "url_user u = None" for u
    using that by (cases u) (simp add: url_parse_rest_def sp(1) auth tw)
  show ?thesis
    unfolding append_assoc [symmetric] unfolding append_assoc [of "''https://''"] a_def [symmetric]
    unfolding append_assoc url_parse_def cut prod.case sch option.case using ctl low q sq rest
    by (simp add: Let_def empty_url_def)
qed

lemma url_parse_origin:
  assumes h: "list_all origin_char host" and p: "port_suffix p"
  shows "url_parse (''https://'' @ host @ p) = Some (empty_url\<lparr>url_scheme := ''https'', url_host := host @ p\<rparr>)"
  using url_parse_origin_path [OF assms, of "[]"] by (simp add: plain_path_def empty_url_def)

lemma url_split_origin:
  assumes h: "host \<noteq> []" "list_all origin_char host" and p: "port_suffix p"
  shows "url_split_host_port (host @ p) = (host, drop 1 p)"
proof -
  have hd: "\<not> prefix ''['' host" using origin_notin [OF h(2)] by (cases host) auto
  have nc: "CHR '':'' \<notin> set host" using origin_notin [OF h(2)] by simp
  show ?thesis
  proof (cases p)
    case Nil
    then show ?thesis
      using hd nc by (simp add: url_split_host_port_def last_index_None [THEN iffD2] Let_def)
  next
    case (Cons c ds)
    with p have c: "c = CHR '':''" "list_all is_digit ds" by (auto simp: port_suffix_def)
    then have "last_index (CHR '':'') (host @ p) = Some (length host)"
      unfolding Cons using digit_no_sep [OF c(2)] by (simp add: last_index_append_same)
    with Cons c hd show ?thesis
      by (simp add: url_split_host_port_def valid_optional_port_def)
  qed
qed

end
