(* ===== verification/Normalization.thy ===== *)
theory Normalization
  imports GoNet
begin

text \<open>
  Model of \<open>src/normalization.go\<close> and \<open>src/registry.go\<close>: validation and canonical forms of
  local targets, ports, DNS names and relay origins. One definition per Go function, with the
  Go name; the error messages are the constructors of \<open>norm_error\<close>, in source order.

  The lemmas show that the canonical forms are fixed points of their normalisers, that a
  normalised target splits back into a host and a port between 1 and 65535, and that
  \<open>NormalizeRelays\<close> is the order-preserving de-duplication of the normalised inputs.
\<close>

section \<open>Definitions\<close>

datatype norm_error =
    TargetRequired
  | PortNotDecimal string
  | PortOutOfRange string
  | TargetIsURL
  | TargetNotHostPort
  | TargetHostRequired
  | TargetBadIPv6
  | TargetBadHost
  | NoRelayGiven
  | RelayAt nat norm_error
  | RelayURLRequired
  | RelayQueryOrFragment
  | RelayInvalidURL
  | RelayNotHTTPS
  | RelayNoHTTPSHostname
  | RelayUserInformation
  | RelayBadPath
  | RelayPortRequired
  | RelayIPv6Zone
  | RelayHostnameRequired
  | RelayHostnameNotASCII
  | RelayIPv6Literal
  | RelayInvalidIPv6
  | RelayInvalidHostname

definition isASCIIDigits :: "string \<Rightarrow> bool" where
  "isASCIIDigits s \<longleftrightarrow> s \<noteq> [] \<and> list_all is_digit s"

definition normalizePort :: "string \<Rightarrow> string \<Rightarrow> norm_error + string" where
  "normalizePort raw subject =
     (if \<not> isASCIIDigits raw then Inl (PortNotDecimal subject)
      else (case parse_uint 16 raw of
              None \<Rightarrow> Inl (PortOutOfRange subject)
            | Some port \<Rightarrow> if port = 0 then Inl (PortOutOfRange subject) else Inr (format_uint port)))"

text \<open>
  The Go loop ranges over runes; a byte from 0x80 on belongs to a rune that passes every test of
  the loop, as it does here.
\<close>

definition validTargetHost :: "string \<Rightarrow> bool" where
  "validTargetHost host \<longleftrightarrow>
     list_all (\<lambda>c. \<not> (code c \<le> 32 \<or> code c = 127 \<or> c = CHR ''/'' \<or> code c = 92 \<or> c = CHR ''?''
        \<or> c = CHR ''#'' \<or> c = CHR ''@'' \<or> c = CHR ''['' \<or> c = CHR '']'')) host"

definition valid_label_char :: "char \<Rightarrow> bool" where
  "valid_label_char c \<longleftrightarrow> is_lower c \<or> is_upper c \<or> is_digit c \<or> c = CHR ''-''"

definition valid_label :: "string \<Rightarrow> bool" where
  "valid_label label \<longleftrightarrow>
     \<not> (label = [] \<or> length label > 63 \<or> hd label = CHR ''-'' \<or> last label = CHR ''-'')
     \<and> list_all valid_label_char label"

definition validDNSHostname :: "string \<Rightarrow> bool" where
  "validDNSHostname host \<longleftrightarrow>
     \<not> (host = [] \<or> length host > 253) \<and> list_all is_ascii host
     \<and> list_all valid_label (split_on (CHR ''.'') host)"

definition NormalizeTarget :: "string \<Rightarrow> norm_error + string" where
  "NormalizeTarget raw =
     (let target = trim_space raw in
      if target = [] then Inl TargetRequired
      else if isASCIIDigits target then
        (case normalizePort target ''target'' of
           Inl e \<Rightarrow> Inl e | Inr port \<Rightarrow> Inr (join_host_port ''127.0.0.1'' port))
      else if prefix '':'' target \<and> isASCIIDigits (drop 1 target) then
        (case normalizePort (drop 1 target) ''target'' of
           Inl e \<Rightarrow> Inl e | Inr port \<Rightarrow> Inr (join_host_port ''127.0.0.1'' port))
      else if contains target ''://'' then Inl TargetIsURL
      else
        (case split_host_port target of
           None \<Rightarrow> Inl TargetNotHostPort
         | Some (host, rawPort) \<Rightarrow>
             if host = [] then Inl TargetHostRequired
             else (case normalizePort rawPort ''target'' of
                 Inl e \<Rightarrow> Inl e
               | Inr port \<Rightarrow>
                   if prefix ''['' target \<or> CHR '':'' \<in> set host then
                     (case parse_addr host of
                        None \<Rightarrow> Inl TargetBadIPv6
                      | Some address \<Rightarrow>
                          if \<not> is_addr6 address then Inl TargetBadIPv6
                          else Inr (join_host_port (addr_string address) port))
                   else (case parse_addr host of
                       Some address \<Rightarrow> Inr (join_host_port (addr_string address) port)
                     | None \<Rightarrow>
                         if \<not> validTargetHost host then Inl TargetBadHost
                         else Inr (join_host_port host port)))))"

text \<open>The host checks of \<open>normalizeRelay\<close> (the canonical host) and its assembly of the origin.\<close>

definition normalizeRelayHost :: "string \<Rightarrow> norm_error + string" where
  "normalizeRelayHost rawHost =
     (if CHR '':'' \<in> set rawHost \<and> CHR ''%'' \<in> set rawHost then Inl RelayIPv6Zone
      else
        (let host = trim_suffix (to_lower rawHost) ''.'' in
         if host = [] then Inl RelayHostnameRequired
         else if \<not> list_all is_ascii host then Inl RelayHostnameNotASCII
         else (case parse_addr host of
             Some address \<Rightarrow>
               if is_addr6 address then Inl RelayIPv6Literal else Inr (addr_string address)
           | None \<Rightarrow>
               if CHR '':'' \<in> set host then Inl RelayInvalidIPv6
               else if \<not> validDNSHostname host then Inl RelayInvalidHostname
               else Inr host)))"

definition normalizeRelayPort :: "string \<Rightarrow> norm_error + string" where
  "normalizeRelayPort port =
     (if port \<noteq> [] then
        (case normalizePort port ''relay URL'' of
           Inl e \<Rightarrow> Inl e | Inr p \<Rightarrow> Inr (if p = ''443'' then [] else p))
      else Inr [])"

definition normalizeRelayParsed :: "parsed_url \<Rightarrow> norm_error + string" where
  "normalizeRelayParsed parsed =
     (if \<not> equal_fold (url_scheme parsed) ''https'' then Inl RelayNotHTTPS
      else if url_opaque parsed \<noteq> [] \<or> url_host parsed = [] then Inl RelayNoHTTPSHostname
      else if url_user parsed \<noteq> None then Inl RelayUserInformation
      else if url_force_query parsed \<or> url_raw_query parsed \<noteq> [] \<or> url_fragment parsed \<noteq> []
      then Inl RelayQueryOrFragment
      else if url_raw_path parsed \<noteq> [] then Inl RelayBadPath
      else if url_path parsed \<noteq> [] \<and> url_path parsed \<noteq> ''/'' \<and> url_path parsed \<noteq> ''/relay''
      then Inl RelayBadPath
      else if suffix '':'' (url_host parsed) then Inl RelayPortRequired
      else
        (case normalizeRelayHost (url_hostname parsed) of
           Inl e \<Rightarrow> Inl e
         | Inr host \<Rightarrow>
             (case normalizeRelayPort (url_port parsed) of
                Inl e \<Rightarrow> Inl e
              | Inr port \<Rightarrow>
                  (let authority = (if port \<noteq> [] then join_host_port host port
                     else if CHR '':'' \<in> set host then ''['' @ host @ '']'' else host)
                   in Inr (''https://'' @ authority)))))"

definition normalizeRelay :: "string \<Rightarrow> norm_error + string" where
  "normalizeRelay raw =
     (let relay = trim_space raw in
      if relay = [] then Inl RelayURLRequired
      else if CHR ''?'' \<in> set relay \<or> CHR ''#'' \<in> set relay then Inl RelayQueryOrFragment
      else
        (let full = (if contains relay ''://'' then relay else ''https://'' @ relay) in
         case url_parse full of
           None \<Rightarrow> Inl RelayInvalidURL
         | Some parsed \<Rightarrow> normalizeRelayParsed parsed))"

text \<open>The loop of \<open>NormalizeRelays\<close>: index, inputs left, \<open>seen\<close> keys, \<open>result\<close> so far.\<close>

fun NormalizeRelays_loop :: "nat \<Rightarrow> string list \<Rightarrow> string set \<Rightarrow> string list
    \<Rightarrow> norm_error + string list" where
  "NormalizeRelays_loop index [] seen result = Inr result"
| "NormalizeRelays_loop index (input # inputs) seen result =
     (case normalizeRelay input of
        Inl e \<Rightarrow> Inl (RelayAt (index + 1) e)
      | Inr canonical \<Rightarrow>
          if canonical \<in> seen then NormalizeRelays_loop (index + 1) inputs seen result
          else NormalizeRelays_loop (index + 1) inputs (insert canonical seen) (result @ [canonical]))"

definition NormalizeRelays :: "string list \<Rightarrow> norm_error + string list" where
  "NormalizeRelays inputs =
     (if inputs = [] then Inl NoRelayGiven
      else (case NormalizeRelays_loop 0 inputs {} [] of
              Inl e \<Rightarrow> Inl e
            | Inr result \<Rightarrow> if result = [] then Inl NoRelayGiven else Inr result))"

text \<open>\<open>src/registry.go\<close>.\<close>

definition defaultRelays :: "string list" where
  "defaultRelays =
     [''https://gosunuts.xyz'', ''https://kakashit.org'', ''https://korokorok.com'',
      ''https://portal.damn.it.com'', ''https://portal.dawnfullstack.com'',
      ''https://portal.naratteu.dynv6.net'', ''https://portal.rabbitson87.dev'',
      ''https://portal.thumbgo.kr'', ''https://rly.best'', ''https://s-h.day'']"

definition DefaultRelays :: "string list" where
  "DefaultRelays = map (\<lambda>i. defaultRelays ! i) [0..<length defaultRelays]"

section \<open>Ports\<close>

lemma isASCIIDigits_format [simp]: "isASCIIDigits (format_uint n)"
  by (simp add: isASCIIDigits_def)

lemma normalizePort_Inr_iff:
  "normalizePort raw subject = Inr p \<longleftrightarrow>
     isASCIIDigits raw \<and> 1 \<le> dec_value raw \<and> dec_value raw \<le> 65535 \<and> p = format_uint (dec_value raw)"
  by (auto simp: normalizePort_def parse_uint_def isASCIIDigits_def split: option.splits if_splits)

lemma normalizePort_format:
  "1 \<le> n \<Longrightarrow> n \<le> 65535 \<Longrightarrow> normalizePort (format_uint n) subject = Inr (format_uint n)"
  by (simp add: normalizePort_Inr_iff)

section \<open>Targets\<close>

lemma prefix_append_notin: "d \<notin> set p \<Longrightarrow> prefix p (u @ d # v) \<longleftrightarrow> prefix p u"
proof (induction u arbitrary: p)
  case Nil
  then show ?case by (cases p) auto
next
  case (Cons c u)
  then show ?case by (cases p) auto
qed

text \<open>A text cannot match across a byte that it does not contain.\<close>

lemma contains_append_notin:
  "d \<notin> set p \<Longrightarrow> p \<noteq> [] \<Longrightarrow> contains (u @ d # v) p \<longleftrightarrow> contains u p \<or> contains v p"
proof (induction u)
  case Nil
  then show ?case by (cases p) auto
next
  case (Cons c u)
  then show ?case using prefix_append_notin [of d p "c # u" v] by auto
qed

lemma trim_left_no_space: "r \<in> set space_runes \<Longrightarrow> \<not> prefix r (trim_left s)"
proof (induction s rule: trim_left.induct)
  case (1 s)
  show ?case
  proof (cases "find (\<lambda>r. prefix r s) space_runes")
    case None
    then have "trim_left s = s" by (simp add: trim_left.simps [of s])
    with None "1.prems" show ?thesis by (simp add: find_None_iff)
  next
    case (Some r')
    with 1 show ?thesis by (simp add: trim_left.simps [of s])
  qed
qed

lemma trim_right_prefix: "prefix (trim_right s) s"
proof (induction s rule: trim_right.induct)
  case (1 s)
  show ?case
  proof (cases "find (\<lambda>r. suffix r s) space_runes")
    case None
    then show ?thesis by (simp add: trim_right.simps [of s])
  next
    case (Some r')
    with 1 have "prefix (trim_right s) (take (length s - length r') s)"
      by (simp add: trim_right.simps [of s])
    then show ?thesis by (meson prefix_order.trans take_is_prefix)
  qed
qed

lemma trim_space_no_leading: "r \<in> set space_runes \<Longrightarrow> \<not> prefix r (trim_space s)"
  unfolding trim_space_def
  using trim_left_no_space [of r s] trim_right_prefix [of "trim_left s"]
  by (meson prefix_order.trans)

lemma trim_left_id: "(\<And>r. r \<in> set space_runes \<Longrightarrow> \<not> prefix r s) \<Longrightarrow> trim_left s = s"
proof -
  assume "\<And>r. r \<in> set space_runes \<Longrightarrow> \<not> prefix r s"
  then have "find (\<lambda>r. prefix r s) space_runes = None" by (auto simp: find_None_iff)
  then show ?thesis by (simp add: trim_left.simps [of s])
qed

text \<open>Hosts that \<open>NormalizeTarget\<close> leaves alone.\<close>

definition canonical_target_host :: "string \<Rightarrow> bool" where
  "canonical_target_host h \<longleftrightarrow> h \<noteq> [] \<and> no_brackets h \<and> \<not> contains h ''://''
     \<and> (if CHR '':'' \<in> set h then \<exists>a. parse_addr h = Some a \<and> is_addr6 a \<and> addr_string a = h
        else (\<forall>r\<in>set space_runes. \<not> prefix r h)
          \<and> (case parse_addr h of Some a \<Rightarrow> addr_string a = h | None \<Rightarrow> validTargetHost h))"

lemma join_host_port_trim:
  assumes h: "canonical_target_host h"
  shows "trim_space (join_host_port h (format_uint n)) = join_host_port h (format_uint n)"
proof -
  let ?s = "join_host_port h (format_uint n)"
  have "trim_left ?s = ?s"
  proof (cases "CHR '':'' \<in> set h")
    case True
    then show ?thesis by (intro trim_left_graphic) (simp add: join_host_port_def is_graphic_def)
  next
    case False
    show ?thesis
    proof (rule trim_left_id)
      fix r assume r: "r \<in> set space_runes"
      then have "CHR '':'' \<notin> set r" by (auto simp: space_runes_def)
      then show "\<not> prefix r ?s"
        using False r h prefix_append_notin [of "CHR '':''" r h "format_uint n"]
        by (simp add: join_host_port_def canonical_target_host_def)
    qed
  qed
  moreover have "is_graphic (last ?s)"
    using list_all_lastI [OF format_uint_graphic format_uint_ne, of n]
    by (simp add: join_host_port_def)
  ultimately show ?thesis by (simp add: trim_space_def trim_right_graphic)
qed

lemma format_uint_notin:
  "CHR '':'' \<notin> set (format_uint n)" "no_brackets (format_uint n)" "CHR ''/'' \<notin> set (format_uint n)"
  using digit_no_sep [OF format_uint_digits, of n] format_uint_digits [of n]
  by (auto simp: list_all_iff is_digit_def)

lemma NormalizeTarget_canonical:
  assumes h: "canonical_target_host h" and n: "1 \<le> n" "n \<le> 65535"
  shows "NormalizeTarget (join_host_port h (format_uint n)) = Inr (join_host_port h (format_uint n))"
proof -
  let ?s = "join_host_port h (format_uint n)"
  have ne: "h \<noteq> []" "no_brackets h" "\<not> contains h ''://''" using h by (auto simp: canonical_target_host_def)
  have colon: "CHR '':'' \<in> set ?s" by (simp add: join_host_port_def)
  then have nd: "\<not> isASCIIDigits ?s" by (force simp: isASCIIDigits_def list_all_iff is_digit_def)
  have hd: "\<not> prefix '':'' ?s" using ne by (cases h) (auto simp: join_host_port_def)
  have nurl: "\<not> contains ?s ''://''"
  proof (cases "CHR '':'' \<in> set h")
    case True
    have "\<not> contains ('':'' @ format_uint n) ''://''"
      using format_uint_notin(3) [of n] contains_setD [of "'':'' @ format_uint n" "''://''"] by auto
    then show ?thesis
      using True ne contains_append_notin [of "CHR '']''" "''://''" "''['' @ h" "'':'' @ format_uint n"]
        contains_append_notin [of "CHR ''[''" "''://''" "[]" h]
      by (simp add: join_host_port_def)
  next
    case False
    show ?thesis
    proof
      assume "contains ?s ''://''"
      then obtain a b where "h @ CHR '':'' # format_uint n = a @ CHR '':'' # ''//'' @ b"
        using False by (auto simp: contains_sublist join_host_port_def)
      then have "format_uint n = ''//'' @ b"
        using False format_uint_notin(1) [of n] by (auto simp: append_Cons_eq_iff)
      with format_uint_notin(3) [of n] show False by simp
    qed
  qed
  have split: "split_host_port ?s = Some (h, format_uint n)"
    using ne format_uint_notin by (intro split_join_host_port)
  have br: "prefix ''['' ?s \<longleftrightarrow> CHR '':'' \<in> set h"
    using ne by (cases h) (auto simp: join_host_port_def no_brackets_def)
  have "?s \<noteq> []" by (simp add: join_host_port_def)
  then show ?thesis
    unfolding NormalizeTarget_def join_host_port_trim [OF h] Let_def
    using nd hd nurl split br ne normalizePort_format [OF n] h
    by (auto simp: canonical_target_host_def split: option.splits if_splits)
qed


lemma contains_sub: "contains s p \<Longrightarrow> contains (a @ s @ b) p"
  by (simp add: contains_sublist) (metis append.assoc)

lemma take_drop_infix: "\<exists>a b. t = a @ take n (drop m t) @ b"
  by (metis append_take_drop_id)

lemma split_host_port_infix:
  "split_host_port t = Some (h, p) \<Longrightarrow> \<exists>a b. t = a @ h @ b"
  using take_drop_infix [of t] take_drop_infix [of t _ 0]
  by (auto simp: split_host_port_def Let_def split: option.splits if_splits prod.splits)

lemma split_host_port_prefix:
  "split_host_port t = Some (h, p) \<Longrightarrow> \<not> prefix ''['' t \<Longrightarrow> prefix h t"
  by (cases t) (auto simp: split_host_port_def Let_def take_is_prefix
      split: option.splits if_splits prod.splits)

lemma cut_suffix: "cut d s = (a, b, c) \<Longrightarrow> suffix b s"
  by (induction s arbitrary: a) (auto split: if_splits prod.splits intro: suffix_ConsI)

lemma parse_addr6_zone:
  "parse_addr s = Some (Addr6 gs zone) \<Longrightarrow> \<exists>t. s = t @ zone"
proof -
  assume p: "parse_addr s = Some (Addr6 gs zone)"
  obtain a b c where cut: "cut (CHR ''%'') s = (a, b, c)" by (cases "cut (CHR ''%'') s")
  with p have "b = zone"
    by (auto simp: parse_addr_def parse_ipv6_alt split: list.splits if_splits)
  then show ?thesis
    using cut_suffix [OF cut] by (auto simp: suffix_def)
qed

lemma canonical_addr6:
  assumes a: "parse_addr host = Some a" "is_addr6 a" and h: "no_brackets host"
    and u: "\<not> contains host ''://''"
  shows "canonical_target_host (addr_string a)"
proof -
  obtain gs zone where g: "a = Addr6 gs zone" using a(2) by (cases a) (auto simp: is_addr6_def)
  obtain t where t: "host = t @ zone" using parse_addr6_zone a(1) g by blast
  have chars: "c \<in> set (addr6_text gs) \<Longrightarrow> c = CHR '':'' \<or> c = CHR ''.'' \<or> is_hex_digit c" for c
    using set_addr6_text [of gs] by auto
  have notin: "CHR ''/'' \<notin> set (addr6_text gs)" "no_brackets (addr6_text gs)"
    using chars hex_digit_not_sep by (fastforce simp: no_brackets_def)+
  have "length gs = 8" using parse_addr_wf [OF a(1)] g by simp
  then have colon: "CHR '':'' \<in> set (addr6_text gs)" using addr6_text_first_sep [of gs] by auto
  have "\<not> contains (addr6_text gs) ''://''" using notin(1) by (auto dest: contains_setD)
  moreover have "\<not> contains zone ''://''" using u contains_sub [of zone "''://''" t "[]"] t by auto
  ultimately have "\<not> contains (addr_string a) ''://''"
    using contains_append_notin [of "CHR ''%''" "''://''" "addr6_text gs" zone] g
    by (auto simp: addr_string6)
  then show ?thesis
    unfolding canonical_target_host_def
    using g colon notin(2) h t parse_addr_string_parse [OF a(1)] a(2)
    by (auto simp: addr_string6 no_brackets_def)
qed

lemma digit_char_eval [go_eval]:
  "digit_char 0 = CHR ''0''" "digit_char (Suc 0) = CHR ''1''" "digit_char 1 = CHR ''1''"
  "digit_char 2 = CHR ''2''" "digit_char 3 = CHR ''3''" "digit_char 4 = CHR ''4''"
  "digit_char 5 = CHR ''5''" "digit_char 6 = CHR ''6''" "digit_char 7 = CHR ''7''"
  "digit_char 8 = CHR ''8''" "digit_char 9 = CHR ''9''"
  by (simp_all add: digit_char_def code_inj [symmetric] del: code_inj)

lemma canonical_no_colon:
  assumes "host \<noteq> []" "no_brackets host" "\<not> contains host ''://''" "CHR '':'' \<notin> set host"
    "\<forall>r\<in>set space_runes. \<not> prefix r host"
    "case parse_addr host of Some a \<Rightarrow> True | None \<Rightarrow> validTargetHost host"
  shows "canonical_target_host (case parse_addr host of Some a \<Rightarrow> addr_string a | None \<Rightarrow> host)"
proof (cases "parse_addr host")
  case None
  with assms show ?thesis by (simp add: canonical_target_host_def)
next
  case (Some a)
  with parse_addr_no_colon assms(4) obtain os where os: "a = Addr4 os" by blast
  with addr4_parse_same Some have "addr_string a = host" by (simp add: addr_string_def)
  with Some assms show ?thesis by (simp add: canonical_target_host_def)
qed

lemma canonical_loopback: "canonical_target_host ''127.0.0.1''"
proof -
  have s: "''127.0.0.1'' = addr_string (Addr4 [127, 0, 0, 1])"
    by (simp add: addr_string_def string4_def format_uint.simps digit_char_eval)
  have "parse_addr ''127.0.0.1'' = Some (Addr4 [127, 0, 0, 1])"
    unfolding s by (rule parse_addr_string) simp
  then show ?thesis
    by (simp add: canonical_target_host_def no_brackets_def s [symmetric] space_runes_def
        del: One_nat_def)
qed

lemma NormalizeTarget_result:
  assumes "NormalizeTarget raw = Inr r"
  shows "\<exists>h n. canonical_target_host h \<and> 1 \<le> n \<and> n \<le> 65535 \<and> r = join_host_port h (format_uint n)"
proof -
  define t where "t = trim_space raw"
  note eq = assms [unfolded NormalizeTarget_def Let_def, folded t_def]
  show ?thesis
  proof (cases "isASCIIDigits t \<or> (prefix '':'' t \<and> isASCIIDigits (drop 1 t))")
    case True
    with eq canonical_loopback show ?thesis
      by (auto simp: normalizePort_Inr_iff split: if_splits sum.splits)
  next
    case False
    with eq obtain host rawPort port where sp: "split_host_port t = Some (host, rawPort)"
      and h: "host \<noteq> []" and p: "normalizePort rawPort ''target'' = Inr port"
      and u: "\<not> contains t ''://''"
      by (auto split: if_splits option.splits sum.splits)
    from p obtain n where n: "1 \<le> n" "n \<le> 65535" "port = format_uint n"
      by (auto simp: normalizePort_Inr_iff)
    obtain a b where ab: "t = a @ host @ b" using split_host_port_infix [OF sp] by blast
    have uh: "\<not> contains host ''://''" using u contains_sub [of host _ a b] ab by auto
    have nb: "no_brackets host" by (rule split_host_port_no_brackets [OF sp])
    show ?thesis
    proof (cases "prefix ''['' t \<or> CHR '':'' \<in> set host")
      case True
      with False eq sp h p u obtain x where "parse_addr host = Some x" "is_addr6 x"
        "r = join_host_port (addr_string x) port"
        by (auto split: if_splits option.splits)
      with canonical_addr6 nb uh n show ?thesis by blast
    next
      case nc: False
      have "\<forall>r\<in>set space_runes. \<not> prefix r host"
        using split_host_port_prefix [OF sp] nc trim_space_no_leading [of _ raw]
        unfolding t_def [symmetric] by (meson prefix_order.trans)
      moreover have "case parse_addr host of Some a \<Rightarrow> True | None \<Rightarrow> validTargetHost host"
        and "r = join_host_port (case parse_addr host of Some a \<Rightarrow> addr_string a | None \<Rightarrow> host) port"
        using False nc eq sp h p u by (auto split: if_splits option.splits)
      ultimately show ?thesis
        using canonical_no_colon [OF h nb uh] nc n by blast
    qed
  qed
qed


section \<open>Relay origins\<close>

lemma split_on_last: "s \<noteq> [] \<Longrightarrow> last s = d \<Longrightarrow> last (split_on d s) = []"
proof (induction s)
  case (Cons c s)
  show ?case
  proof (cases "s = []")
    case True
    with Cons show ?thesis by simp
  next
    case False
    with Cons have IH: "last (split_on d s) = []" by simp
    show ?thesis
    proof (cases "split_on d s")
      case (Cons p ps)
      have "ps \<noteq> []"
      proof
        assume "ps = []"
        with Cons IH have "split_on d s = [[]]" by simp
        with False show False by (cases s) (auto split: if_splits list.splits)
      qed
      with Cons IH show ?thesis by simp
    qed simp
  qed
qed simp

lemma split_on_cover: "set s \<subseteq> insert d (\<Union> (set ` set (split_on d s)))"
proof (induction s)
  case (Cons c s)
  then show ?case by (cases "split_on d s") auto
qed simp

definition canonical_relay_host :: "string \<Rightarrow> bool" where
  "canonical_relay_host h \<longleftrightarrow> h \<noteq> [] \<and> list_all origin_char h \<and> last h \<noteq> CHR ''.''
     \<and> (case parse_addr h of Some a \<Rightarrow> \<not> is_addr6 a \<and> addr_string a = h | None \<Rightarrow> validDNSHostname h)"

definition canonical_relay_port :: "string \<Rightarrow> bool" where
  "canonical_relay_port p \<longleftrightarrow> p = [] \<or> (\<exists>n. 1 \<le> n \<and> n \<le> 65535 \<and> n \<noteq> 443 \<and> p = '':'' @ format_uint n)"

lemma trim_suffix_id: "s = [] \<or> last s \<noteq> CHR ''.'' \<Longrightarrow> trim_suffix s ''.'' = s"
  by (auto simp: trim_suffix_def suffix_def)

lemma last_label_nonempty:
  assumes "list_all P (split_on (CHR ''.'') h)" "\<not> P []"
  shows "h \<noteq> [] \<and> last h \<noteq> CHR ''.''"
proof -
  have "P (last (split_on (CHR ''.'') h))" by (rule list_all_lastI [OF assms(1)]) simp
  with assms(2) split_on_last [of h "CHR ''.''"] show ?thesis
    by (cases "h = []") auto
qed

lemma normalizeRelayHost_canonical:
  assumes "canonical_relay_host h"
  shows "normalizeRelayHost h = Inr h"
proof -
  have h: "h \<noteq> []" "list_all origin_char h" "last h \<noteq> CHR ''.''"
    using assms by (auto simp: canonical_relay_host_def)
  have a: "list_all is_ascii h" "list_all (\<lambda>c. \<not> is_upper c) h"
    using h(2) origin_char_facts by (auto simp: list_all_iff)
  then have "trim_suffix (to_lower h) ''.'' = h"
    using h by (simp add: to_lower_fixed trim_suffix_id)
  then show ?thesis
    using assms h a origin_notin [OF h(2)]
    by (auto simp: normalizeRelayHost_def canonical_relay_host_def Let_def split: option.splits)
qed

lemma normalizeRelayHost_result:
  assumes "normalizeRelayHost raw = Inr h"
  shows "canonical_relay_host h"
proof -
  define host where "host = trim_suffix (to_lower raw) ''.''"
  note eq = assms [unfolded normalizeRelayHost_def Let_def, folded host_def]
  have up: "list_all (\<lambda>c. \<not> is_upper c) host"
    using to_lower_not_upper [of raw]
    by (auto simp: host_def trim_suffix_def list_all_iff dest: in_set_takeD)
  show ?thesis
  proof (cases "parse_addr host")
    case None
    with eq have v: "h = host" "validDNSHostname host" by (auto split: if_splits)
    then have labels: "list_all valid_label (split_on (CHR ''.'') host)"
      by (simp add: validDNSHostname_def)
    have "origin_char c" if "c \<in> set host" for c
    proof -
      from that split_on_cover [of host "CHR ''.''"] labels
      have "c = CHR ''.'' \<or> valid_label_char c" by (auto simp: list_all_iff valid_label_def)
      with up that show ?thesis
        by (auto simp: origin_char_def valid_label_char_def list_all_iff)
    qed
    with v None last_label_nonempty [OF labels] show ?thesis
      by (simp add: canonical_relay_host_def valid_label_def list_all_iff)
  next
    case (Some a)
    with eq have a: "\<not> is_addr6 a" "h = addr_string a" by (auto split: if_splits)
    then obtain os where os: "a = Addr4 os" by (cases a) (auto simp: is_addr6_def)
    with addr4_parse_same Some have h: "h = host" "string4 os = host"
      using a by (auto simp: addr_string_def)
    have "list_all ipv4_octet (split_on (CHR ''.'') host)"
      using Some os by (auto simp: parse_addr_def parse_ipv6_alt parse_ipv4_fields_def Let_def
          split: list.splits if_splits prod.splits)
    note last_label_nonempty [OF this]
    moreover have "list_all origin_char host"
      using set_join_with [of "''.''" "map format_uint os"] format_uint_digits h(2)
      by (fastforce simp: string4_def list_all_iff origin_char_def)
    ultimately show ?thesis
      using Some a h by (simp add: canonical_relay_host_def ipv4_octet_def)
  qed
qed

lemma normalizeRelayPort_result:
  assumes "normalizeRelayPort raw = Inr port"
  shows "canonical_relay_port (if port = [] then [] else '':'' @ port)"
proof -
  have "port = [] \<or> (\<exists>n. 1 \<le> n \<and> n \<le> 65535 \<and> n \<noteq> 443 \<and> port = format_uint n)"
  proof (cases "port = []")
    case False
    with assms have "normalizePort raw ''relay URL'' = Inr port" "port \<noteq> ''443''"
      by (auto simp: normalizeRelayPort_def split: if_splits sum.splits)
    then obtain n where n: "1 \<le> n" "n \<le> 65535" "port = format_uint n"
      by (auto simp: normalizePort_Inr_iff)
    have "format_uint 443 = ''443''" by (simp add: format_uint.simps digit_char_eval)
    with n \<open>port \<noteq> ''443''\<close> show ?thesis by auto
  qed simp
  then show ?thesis by (auto simp: canonical_relay_port_def)
qed

lemma canonical_relay_port_suffix: "canonical_relay_port p \<Longrightarrow> port_suffix p"
  by (auto simp: canonical_relay_port_def port_suffix_def)

lemma normalizeRelayPort_canonical:
  "canonical_relay_port p \<Longrightarrow> normalizeRelayPort (drop 1 p) = Inr (drop 1 p)"
proof -
  assume "canonical_relay_port p"
  then consider "p = []" | n where "1 \<le> n" "n \<le> 65535" "n \<noteq> 443" "p = '':'' @ format_uint n"
    by (auto simp: canonical_relay_port_def)
  then show ?thesis
  proof cases
    case 2
    have "format_uint n \<noteq> ''443''"
    proof
      assume "format_uint n = ''443''"
      then have "n = dec_value ''443''" by (metis dec_value_format_uint)
      with 2 show False by (simp add: dec_value_def digit_val_def)
    qed
    with 2 show ?thesis by (simp add: normalizeRelayPort_def normalizePort_format)
  qed (simp add: normalizeRelayPort_def)
qed

lemma normalizeRelay_canonical:
  assumes h: "canonical_relay_host h" and p: "canonical_relay_port p"
  shows "normalizeRelay (''https://'' @ h @ p) = Inr (''https://'' @ h @ p)"
proof -
  let ?s = "''https://'' @ h @ p"
  have oc: "h \<noteq> []" "list_all origin_char h" using h by (auto simp: canonical_relay_host_def)
  note ps = canonical_relay_port_suffix [OF p]
  have "list_all is_graphic h" "list_all is_graphic p"
    using oc(2) port_suffix_chars [OF ps] origin_char_facts(1) port_char_facts(1)
    by (auto simp: list_all_iff)
  then have tr: "trim_space ?s = ?s"
    by (intro trim_space_all_graphic) (simp add: is_graphic_def)
  have nq: "CHR ''?'' \<notin> set ?s" "CHR ''#'' \<notin> set ?s"
    using origin_notin [OF oc(2)] port_notin [OF ps] by simp_all
  have ct: "contains ?s ''://''" by simp
  have ns: "\<not> suffix '':'' (h @ p)"
  proof
    assume "suffix '':'' (h @ p)"
    then have l: "last (h @ p) = CHR '':''" by (auto simp: suffix_def)
    show False
    proof (cases "p = []")
      case True
      with l oc origin_notin(8) [OF oc(2)] show False by (metis append_Nil2 last_in_set)
    next
      case False
      with p obtain n where "p = '':'' @ format_uint n" by (auto simp: canonical_relay_port_def)
      with l have "last (format_uint n) = CHR '':''" by simp
      with format_uint_notin(1) [of n] show False by (metis format_uint_ne last_in_set)
    qed
  qed
  define q where "q = drop 1 p"
  have join: "(if q \<noteq> [] then join_host_port h q
      else if CHR '':'' \<in> set h then ''['' @ h @ '']'' else h) = h @ p"
    using p origin_notin(8) [OF oc(2)] by (auto simp: q_def canonical_relay_port_def join_host_port_def)
  have sp: "url_split_host_port (h @ p) = (h, q)" unfolding q_def by (rule url_split_origin [OF oc ps])
  have np: "normalizeRelayPort q = Inr q" unfolding q_def by (rule normalizeRelayPort_canonical [OF p])
  have "normalizeRelayParsed (empty_url\<lparr>url_scheme := ''https'', url_host := h @ p\<rparr>) = Inr ?s"
    unfolding normalizeRelayParsed_def
    using ns oc sp join normalizeRelayHost_canonical [OF h] np
    by (simp add: empty_url_def equal_fold_def url_hostname_def url_port_def Let_def)
  then show ?thesis
    unfolding normalizeRelay_def tr Let_def using nq ct url_parse_origin [OF oc(2) ps] by simp
qed

lemma normalizeRelay_result:
  assumes "normalizeRelay raw = Inr r"
  shows "\<exists>h p. canonical_relay_host h \<and> canonical_relay_port p \<and> r = ''https://'' @ h @ p"
proof -
  from assms obtain parsed where "normalizeRelayParsed parsed = Inr r"
    by (auto simp: normalizeRelay_def Let_def split: if_splits option.splits)
  then obtain host port where hp: "normalizeRelayHost (url_hostname parsed) = Inr host"
    "normalizeRelayPort (url_port parsed) = Inr port"
    and r: "r = ''https://'' @ (if port \<noteq> [] then join_host_port host port
       else if CHR '':'' \<in> set host then ''['' @ host @ '']'' else host)"
    by (auto simp: normalizeRelayParsed_def Let_def split: if_splits sum.splits)
  note h = normalizeRelayHost_result [OF hp(1)]
  then have "CHR '':'' \<notin> set host" using origin_notin(8) by (simp add: canonical_relay_host_def)
  with r have "r = ''https://'' @ host @ (if port = [] then [] else '':'' @ port)"
    by (simp add: join_host_port_def)
  with h normalizeRelayPort_result [OF hp(2)] show ?thesis by blast
qed


section \<open>Lists of relays\<close>

text \<open>Keeping the first occurrence of each element, skipping a set already seen.\<close>

fun dedup_from :: "'a set \<Rightarrow> 'a list \<Rightarrow> 'a list" where
  "dedup_from seen [] = []"
| "dedup_from seen (x # xs) =
     (if x \<in> seen then dedup_from seen xs else x # dedup_from (insert x seen) xs)"

lemma dedup_from_filter: "dedup_from seen xs = filter (\<lambda>x. x \<notin> seen) (dedup_from {} xs)"
proof (induction xs arbitrary: seen)
  case (Cons x xs)
  have IH: "dedup_from (insert x seen) xs = filter (\<lambda>y. y \<notin> insert x seen) (dedup_from {} xs)"
    "dedup_from seen xs = filter (\<lambda>y. y \<notin> seen) (dedup_from {} xs)"
    "dedup_from {x} xs = filter (\<lambda>y. y \<notin> {x}) (dedup_from {} xs)"
    by (rule Cons.IH)+
  show ?case by (auto simp: IH intro: filter_cong)
qed simp

lemma dedup_from_rev: "dedup_from {} xs = rev (remdups (rev xs))"
proof (induction xs rule: rev_induct)
  case (snoc x xs)
  have "dedup_from seen (xs @ [x]) = dedup_from seen xs @ (if x \<in> seen \<union> set xs then [] else [x])" for seen
    by (induction xs arbitrary: seen) auto
  with snoc show ?case by simp
qed simp

lemma dedup_props: "distinct (dedup_from {} xs)" "set (dedup_from {} xs) = set xs"
  by (simp_all add: dedup_from_rev)

lemma dedup_distinct: "distinct xs \<Longrightarrow> dedup_from {} xs = xs"
  by (simp add: dedup_from_rev distinct_remdups_id)

lemma NormalizeRelays_loop_ok:
  "map normalizeRelay inputs = map Inr cs \<Longrightarrow>
   NormalizeRelays_loop i inputs seen result = Inr (result @ dedup_from seen cs)"
  by (induction inputs arbitrary: i seen result cs) auto

lemma NormalizeRelays_loop_Inr:
  "NormalizeRelays_loop i inputs seen result = Inr rs \<Longrightarrow> \<exists>cs. map normalizeRelay inputs = map Inr cs"
proof (induction inputs arbitrary: i seen result)
  case (Cons x xs)
  then obtain c where c: "normalizeRelay x = Inr c" by (auto split: sum.splits)
  with Cons.prems have "\<exists>i seen result. NormalizeRelays_loop i xs seen result = Inr rs"
    by (auto split: if_splits)
  with Cons.IH obtain cs where "map normalizeRelay xs = map Inr cs" by blast
  with c have "map normalizeRelay (x # xs) = map Inr (c # cs)" by simp
  then show ?case by blast
qed simp

lemma NormalizeRelays_Inr_iff:
  "NormalizeRelays inputs = Inr rs \<longleftrightarrow>
     inputs \<noteq> [] \<and> (\<exists>cs. map normalizeRelay inputs = map Inr cs \<and> rs = rev (remdups (rev cs)))"
proof
  assume "NormalizeRelays inputs = Inr rs"
  then have "inputs \<noteq> []" and l: "NormalizeRelays_loop 0 inputs {} [] = Inr rs"
    by (auto simp: NormalizeRelays_def split: if_splits sum.splits)
  moreover from NormalizeRelays_loop_Inr [OF l] obtain cs
    where "map normalizeRelay inputs = map Inr cs" by blast
  ultimately show "inputs \<noteq> [] \<and> (\<exists>cs. map normalizeRelay inputs = map Inr cs \<and> rs = rev (remdups (rev cs)))"
    using NormalizeRelays_loop_ok [of inputs cs 0 "{}" "[]"] l by (auto simp: dedup_from_rev)
next
  assume "inputs \<noteq> [] \<and> (\<exists>cs. map normalizeRelay inputs = map Inr cs \<and> rs = rev (remdups (rev cs)))"
  then obtain cs where c: "inputs \<noteq> []" "map normalizeRelay inputs = map Inr cs" "rs = rev (remdups (rev cs))"
    by blast
  then have "cs \<noteq> []" by auto
  with c show "NormalizeRelays inputs = Inr rs"
    using NormalizeRelays_loop_ok [OF c(2), of 0 "{}" "[]"]
    by (simp add: NormalizeRelays_def dedup_from_rev)
qed

lemma NormalizeRelays_loop_Inl:
  "NormalizeRelays_loop i inputs seen result = Inl err \<longleftrightarrow>
     (\<exists>k e. k < length inputs \<and> normalizeRelay (inputs ! k) = Inl e \<and> err = RelayAt (i + k + 1) e
        \<and> (\<forall>j<k. \<exists>r. normalizeRelay (inputs ! j) = Inr r))"
proof (induction inputs arbitrary: i seen result)
  case (Cons x xs)
  show ?case
  proof (cases "normalizeRelay x")
    case (Inl e)
    have "k = 0" if "\<forall>j<k. \<exists>r. normalizeRelay ((x # xs) ! j) = Inr r" for k
      using that [rule_format, of 0] Inl by (cases k) auto
    with Inl show ?thesis by fastforce
  next
    case (Inr c)
    have "NormalizeRelays_loop i (x # xs) seen result = Inl err \<longleftrightarrow>
        (\<exists>k e. k < length xs \<and> normalizeRelay (xs ! k) = Inl e \<and> err = RelayAt (Suc i + k + 1) e
          \<and> (\<forall>j<k. \<exists>r. normalizeRelay (xs ! j) = Inr r))"
      using Inr Cons.IH by simp
    also have "\<dots> \<longleftrightarrow> (\<exists>k e. k < length (x # xs) \<and> normalizeRelay ((x # xs) ! k) = Inl e
        \<and> err = RelayAt (i + k + 1) e \<and> (\<forall>j<k. \<exists>r. normalizeRelay ((x # xs) ! j) = Inr r))"
      (is "?L \<longleftrightarrow> ?R")
    proof
      assume ?L
      then obtain k e where "k < length xs" "normalizeRelay (xs ! k) = Inl e" "err = RelayAt (Suc i + k + 1) e"
        "\<forall>j<k. \<exists>r. normalizeRelay (xs ! j) = Inr r" by blast
      then show ?R using Inr
        by (intro exI [of _ "Suc k"] exI [of _ e]) (auto simp: nth_Cons split: nat.splits)
    next
      assume ?R
      then obtain k e where k: "k < length (x # xs)" "normalizeRelay ((x # xs) ! k) = Inl e"
        "err = RelayAt (i + k + 1) e" "\<forall>j<k. \<exists>r. normalizeRelay ((x # xs) ! j) = Inr r" by blast
      with Inr obtain m where "k = Suc m" by (cases k) auto
      with k show ?L by (intro exI [of _ m] exI [of _ e]) auto
    qed
    finally show ?thesis .
  qed
qed simp


section \<open>The default registry\<close>

lemmas canonical_host_eval = canonical_relay_host_def origin_char_def char_class_defs parse_addr_def
  parse_ipv4_fields_def Let_def validDNSHostname_def valid_label_def valid_label_char_def ipv4_octet_def

lemma DefaultRelays_eq: "DefaultRelays = defaultRelays"
  unfolding DefaultRelays_def by (rule map_nth)

lemma default_relay_hosts:
  "list_all canonical_relay_host [''gosunuts.xyz'', ''kakashit.org'', ''korokorok.com'',
     ''portal.damn.it.com'', ''portal.dawnfullstack.com'', ''portal.naratteu.dynv6.net'',
     ''portal.rabbitson87.dev'', ''portal.thumbgo.kr'', ''rly.best'', ''s-h.day'']"
  by (simp add: canonical_host_eval)

lemma default_relays_canonical: "list_all (\<lambda>r. normalizeRelay r = Inr r) defaultRelays"
  using default_relay_hosts normalizeRelay_canonical [where p = "[]"]
  by (simp add: defaultRelays_def canonical_relay_port_def)

section \<open>The normaliser interface\<close>

interpretation port: normaliser "\<lambda>raw. normalizePort raw subject"
  by unfold_locales (auto simp: normalizePort_Inr_iff)

interpretation target: normaliser NormalizeTarget
  by unfold_locales (use NormalizeTarget_result NormalizeTarget_canonical in blast)

interpretation relay: normaliser normalizeRelay
  by unfold_locales (use normalizeRelay_result normalizeRelay_canonical in blast)

lemma map_normalizeRelay_dedup:
  "map normalizeRelay cs = map Inr cs \<Longrightarrow> set ds \<subseteq> set cs \<Longrightarrow> map normalizeRelay ds = map Inr ds"
  by (auto simp: map_eq_conv)

interpretation relays: normaliser NormalizeRelays
proof
  fix inputs rs assume "NormalizeRelays inputs = Inr rs"
  then obtain cs where c: "inputs \<noteq> []" "map normalizeRelay inputs = map Inr cs"
    and rs: "rs = rev (remdups (rev cs))"
    by (auto simp: NormalizeRelays_Inr_iff)
  from relay.norm_list_fixed [OF c(2)] have "map normalizeRelay rs = map Inr rs"
    by (rule map_normalizeRelay_dedup) (simp add: rs)
  moreover have "rs \<noteq> []" using c rs by auto
  moreover have "rs = rev (remdups (rev rs))" by (simp add: rs distinct_remdups_id)
  ultimately show "NormalizeRelays rs = Inr rs"
    unfolding NormalizeRelays_Inr_iff by blast
qed

section \<open>Properties\<close>

text \<open>A target that \<open>NormalizeTarget\<close> accepts is in canonical form: normalising it again
  changes nothing, and \<open>net.SplitHostPort\<close> splits it into a non-empty host and the decimal text of
  a port between 1 and 65535.\<close>

theorem NormalizeTarget_canonical_form:
  assumes "NormalizeTarget raw = Inr r"
  shows "NormalizeTarget r = Inr r \<and>
    (\<exists>h n. split_host_port r = Some (h, format_uint n) \<and> h \<noteq> [] \<and> 1 \<le> n \<and> n \<le> 65535)"
proof -
  obtain h n where h: "canonical_target_host h" "1 \<le> n" "n \<le> 65535" "r = join_host_port h (format_uint n)"
    using NormalizeTarget_result [OF assms] by blast
  then have "split_host_port r = Some (h, format_uint n)" "h \<noteq> []"
    using format_uint_notin by (auto simp: canonical_target_host_def intro!: split_join_host_port)
  with h target.norm_fixed [OF assms] show ?thesis by blast
qed

lemma NormalizeTarget_3000: "NormalizeTarget ''3000'' = Inr ''127.0.0.1:3000''"
proof -
  have "trim_space ''3000'' = ''3000''"
    by (intro trim_space_all_graphic) (simp add: is_graphic_def)
  then show ?thesis
    by (simp add: NormalizeTarget_def isASCIIDigits_def is_digit_def normalizePort_def parse_uint_def
        dec_value_def digit_val_def join_host_port_def format_uint.simps digit_char_eval)
qed

theorem NormalizeTarget_canonical_form_witness:
  "NormalizeTarget ''3000'' = Inr ''127.0.0.1:3000'' \<and>
   NormalizeTarget ''127.0.0.1:3000'' = Inr ''127.0.0.1:3000'' \<and>
   (\<exists>h n. split_host_port ''127.0.0.1:3000'' = Some (h, format_uint n) \<and> h \<noteq> [] \<and> 1 \<le> n \<and> n \<le> 65535)"
  using NormalizeTarget_canonical_form [OF NormalizeTarget_3000] NormalizeTarget_3000 by blast

text \<open>C35. A relay URL that \<open>normalizeRelay\<close> accepts becomes a canonical HTTPS origin: it is a fixed
  point of \<open>normalizeRelay\<close> and reads \<open>https://HOST\<close> or \<open>https://HOST:PORT\<close>, where the host is a
  lower-case DNS name or dotted IPv4 address without a trailing dot and the port is a canonical
  decimal number between 1 and 65535 other than the default 443.\<close>

theorem normalizeRelay_canonical_form:
  assumes "normalizeRelay raw = Inr r"
  shows "normalizeRelay r = Inr r \<and>
    (\<exists>h p. r = ''https://'' @ h @ p \<and> h \<noteq> [] \<and> last h \<noteq> CHR ''.''
       \<and> list_all (\<lambda>c. is_lower c \<or> is_digit c \<or> c = CHR ''-'' \<or> c = CHR ''.'') h
       \<and> (p = [] \<or> (\<exists>n. 1 \<le> n \<and> n \<le> 65535 \<and> n \<noteq> 443 \<and> p = '':'' @ format_uint n)))"
proof -
  obtain h p where "canonical_relay_host h" "canonical_relay_port p" "r = ''https://'' @ h @ p"
    using normalizeRelay_result [OF assms] by blast
  with relay.norm_fixed [OF assms] show ?thesis
    unfolding canonical_relay_host_def canonical_relay_port_def origin_char_def by blast
qed

lemma normalizeRelay_rly_best: "normalizeRelay ''https://rly.best'' = Inr ''https://rly.best''"
  using default_relays_canonical by (simp add: defaultRelays_def)

lemma rly_best_origin: "list_all origin_char ''rly.best''" "port_suffix []"
  by (simp_all add: origin_char_def port_suffix_def char_class_defs)

lemma rly_best_url:
  "url_parse ''https://rly.best'' = Some (empty_url\<lparr>url_scheme := ''https'', url_host := ''rly.best''\<rparr>)"
  "url_split_host_port ''rly.best'' = (''rly.best'', [])"
proof -
  show "url_parse ''https://rly.best'' = Some (empty_url\<lparr>url_scheme := ''https'', url_host := ''rly.best''\<rparr>)"
    using url_parse_origin [OF rly_best_origin] by simp
  show "url_split_host_port ''rly.best'' = (''rly.best'', [])"
    using url_split_origin [OF _ rly_best_origin] by simp
qed

theorem normalizeRelay_canonical_form_witness:
  "normalizeRelay ''https://rly.best'' = Inr ''https://rly.best'' \<and>
   (\<exists>h p. ''https://rly.best'' = ''https://'' @ h @ p \<and> h \<noteq> [])"
  using normalizeRelay_canonical_form [OF normalizeRelay_rly_best] by blast

text \<open>\<open>NormalizeRelays\<close> succeeds exactly when there is an input and every input normalises, and
  then returns the normalised inputs without duplicates, each at the place of its first
  occurrence.\<close>

theorem NormalizeRelays_dedup:
  "NormalizeRelays inputs = Inr rs \<longleftrightarrow>
     inputs \<noteq> [] \<and> (\<exists>cs. map normalizeRelay inputs = map Inr cs \<and> rs = rev (remdups (rev cs)))"
  by (rule NormalizeRelays_Inr_iff)

text \<open>On a non-empty input \<open>NormalizeRelays\<close> fails exactly at the first input that does not
  normalise, and reports its one-based position with that input's error.\<close>

theorem NormalizeRelays_first_error:
  assumes "inputs \<noteq> []"
  shows "NormalizeRelays inputs = Inl err \<longleftrightarrow>
    (\<exists>k e. k < length inputs \<and> normalizeRelay (inputs ! k) = Inl e \<and> err = RelayAt (k + 1) e
       \<and> (\<forall>j<k. \<exists>r. normalizeRelay (inputs ! j) = Inr r))"
proof (cases "NormalizeRelays_loop 0 inputs {} []")
  case (Inl e)
  with assms show ?thesis
    using NormalizeRelays_loop_Inl [of 0 inputs "{}" "[]" err] by (simp add: NormalizeRelays_def)
next
  case (Inr rs)
  then obtain cs where "map normalizeRelay inputs = map Inr cs" using NormalizeRelays_loop_Inr by blast
  with assms have "rs \<noteq> []"
    using Inr NormalizeRelays_loop_ok [of inputs cs 0 "{}" "[]"] by (cases cs) auto
  with Inr assms show ?thesis
    using NormalizeRelays_loop_Inl [of 0 inputs "{}" "[]" err] by (simp add: NormalizeRelays_def)
qed

theorem NormalizeRelays_first_error_witness:
  "NormalizeRelays [''https://rly.best'', []] = Inl (RelayAt 2 RelayURLRequired)"
proof -
  have "normalizeRelay [] = Inl RelayURLRequired" by (simp add: normalizeRelay_def)
  then show ?thesis
    using normalizeRelay_rly_best
    by (subst NormalizeRelays_first_error) (auto intro!: exI [of _ 1] simp: nth_Cons split: nat.splits)
qed

text \<open>The built-in registry needs no normalisation: \<open>NormalizeRelays\<close> returns it unchanged, so
  its entries are canonical and pairwise different.\<close>

theorem DefaultRelays_normal: "NormalizeRelays DefaultRelays = Inr DefaultRelays"
proof -
  have "map normalizeRelay defaultRelays = map Inr defaultRelays"
    using default_relays_canonical by (simp add: list_all_iff)
  moreover have "defaultRelays = rev (remdups (rev defaultRelays))" "defaultRelays \<noteq> []"
    by (simp_all add: defaultRelays_def)
  ultimately show ?thesis
    unfolding DefaultRelays_eq NormalizeRelays_Inr_iff by blast
qed

end
