(* ===== verification/RelayErrors.thy ===== *)
theory RelayErrors
  imports Normalization
begin

text \<open>
  Error values and their classification (\<open>src/relay.go\<close>, \<open>src/protocol.go\<close>), the retry
  delays and the lease timings.

  A Go error is a tree: wrapping with \<open>%w\<close>, \<open>errors.Join\<close> and the error types with an
  \<open>Unwrap\<close> method are its inner nodes. \<open>errors.Is\<close> and \<open>errors.As\<close> search the tree in
  pre-order (\<open>err_tree\<close>). A nil error is \<open>None\<close>.

  The lemmas show which errors end a relay, which end only a lease and which are retried, that
  classification is stable, and that the delays and the lease lifetime stay within their bounds.
\<close>

section \<open>Error values\<close>

record APIError =
  StatusCode :: int
  Code :: string
  Message :: string
  RetryAfter :: duration

datatype cert_error = CertificateVerificationError | HostnameError | UnknownAuthorityError
  | CertificateInvalidError

text \<open>
  \<open>NetworkError\<close> stands for the library errors that implement \<open>net.Error\<close> and unwrap to a
  cause (\<open>*url.Error\<close>, \<open>*net.OpError\<close>); \<open>Wrapped\<close> is \<open>fmt.Errorf("text: %w", e)\<close>, and also
  an \<open>*os.PathError\<close>, whose cause \<open>errors.Is\<close> compares with \<open>os.ErrNotExist\<close> and \<open>os.ErrExist\<close>.
  \<open>IdentityUsageError\<close> and \<open>ErrHelp\<close> belong to the command line tools.
\<close>

datatype go_error =
    ErrorText string
  | Wrapped string go_error
  | Joined "go_error list"
  | APIErr APIError
  | TerminalRelayError go_error
  | ErrLeaseRefresh
  | MalformedRelayResponseError go_error
  | ErrControlResponseTooLarge
  | ErrReverseResponseHeadTooLarge
  | ReverseUpgradeError string "64 word" go_error
  | TenantSignerError go_error "64 word"
  | QuicBackhaulRejection string
  | ErrDatagramNotReady
  | ErrUDPFlowCapacity
  | ContextCanceled
  | ContextDeadlineExceeded
  | EOF
  | UnexpectedEOF
  | NetErrClosed
  | ErrNoRelays
  | CertificateError cert_error
  | NetworkError go_error
  | NormError norm_error
  | ErrNotExist
  | ErrExist
  | ErrShortWrite
  | ErrHelp
  | ErrServerClosed
  | IdentityUsageError go_error

fun err_tree :: "go_error \<Rightarrow> go_error list" where
  "err_tree (Wrapped s e) = Wrapped s e # err_tree e"
| "err_tree (Joined es) = Joined es # concat (map err_tree es)"
| "err_tree (TerminalRelayError e) = TerminalRelayError e # err_tree e"
| "err_tree (MalformedRelayResponseError e) = MalformedRelayResponseError e # err_tree e"
| "err_tree (ReverseUpgradeError c g e) = ReverseUpgradeError c g e # err_tree e"
| "err_tree (TenantSignerError e g) = TenantSignerError e g # err_tree e"
| "err_tree (NetworkError e) = NetworkError e # err_tree e"
| "err_tree (IdentityUsageError e) = IdentityUsageError e # err_tree e"
| "err_tree e = [e]"

definition errors_Is :: "go_error \<Rightarrow> go_error \<Rightarrow> bool" where
  "errors_Is e target \<longleftrightarrow> target \<in> set (err_tree e)"

text \<open>\<open>errors.As\<close> with a selector for the wanted type: the first match of the search.\<close>

fun find_map :: "('a \<Rightarrow> 'b option) \<Rightarrow> 'a list \<Rightarrow> 'b option" where
  "find_map f [] = None"
| "find_map f (x # xs) = (case f x of Some y \<Rightarrow> Some y | None \<Rightarrow> find_map f xs)"

definition errors_As :: "(go_error \<Rightarrow> 'b option) \<Rightarrow> go_error \<Rightarrow> 'b option" where
  "errors_As sel e = find_map sel (err_tree e)"

fun as_api :: "go_error \<Rightarrow> APIError option" where
  "as_api (APIErr a) = Some a" | "as_api _ = None"

fun as_terminal :: "go_error \<Rightarrow> go_error option" where
  "as_terminal (TerminalRelayError e) = Some e" | "as_terminal _ = None"

fun as_malformed :: "go_error \<Rightarrow> go_error option" where
  "as_malformed (MalformedRelayResponseError e) = Some e" | "as_malformed _ = None"

fun as_upgrade :: "go_error \<Rightarrow> (string \<times> 64 word) option" where
  "as_upgrade (ReverseUpgradeError c g _) = Some (c, g)" | "as_upgrade _ = None"

fun as_signer :: "go_error \<Rightarrow> 64 word option" where
  "as_signer (TenantSignerError _ g) = Some g" | "as_signer _ = None"

fun as_rejection :: "go_error \<Rightarrow> string option" where
  "as_rejection (QuicBackhaulRejection c) = Some c" | "as_rejection _ = None"

fun as_certificate :: "go_error \<Rightarrow> cert_error option" where
  "as_certificate (CertificateError c) = Some c" | "as_certificate _ = None"

text \<open>\<open>net.Error\<close> is an interface; \<open>context.DeadlineExceeded\<close> implements it too.\<close>

fun as_net :: "go_error \<Rightarrow> unit option" where
  "as_net (NetworkError _) = Some ()" | "as_net ContextDeadlineExceeded = Some ()" | "as_net _ = None"

text \<open>\<open>APIError.Error\<close>.\<close>

definition APIError_Error :: "APIError option \<Rightarrow> string" where
  "APIError_Error e = (case e of None \<Rightarrow> []
     | Some a \<Rightarrow>
        (let c = trim_space (Code a); message = trim_space (Message a) in
         if c \<noteq> [] then c @ '': '' @ message
         else if message \<noteq> [] then message
         else if StatusCode a > 0 then ''api request failed with status '' @ format_uint (nat (StatusCode a))
         else ''api request failed''))"

section \<open>Classification\<close>

definition terminalAPIErrorCodes :: "string list" where
  "terminalAPIErrorCodes = [''feature_unavailable'', ''hostname_conflict'', ''http11_only'',
     ''tcp_port_disabled'', ''transport_mismatch'', ''udp_disabled'']"

definition isTerminalAPIErrorCode :: "string \<Rightarrow> bool" where
  "isTerminalAPIErrorCode raw \<longleftrightarrow> to_lower (trim_space raw) \<in> set terminalAPIErrorCodes"

definition isRateLimitedAPIError :: "APIError \<Rightarrow> bool" where
  "isRateLimitedAPIError e \<longleftrightarrow>
     StatusCode e = 429 \<or> equal_fold (trim_space (Code e)) ''rate_limited''"

definition isTerminalRelayFailure :: "go_error \<Rightarrow> bool" where
  "isTerminalRelayFailure e \<longleftrightarrow> errors_As as_terminal e \<noteq> None"

definition terminalRelay :: "go_error \<Rightarrow> go_error" where
  "terminalRelay e = (if isTerminalRelayFailure e then e else TerminalRelayError e)"

definition unwrapTerminalRelayError :: "go_error \<Rightarrow> go_error" where
  "unwrapTerminalRelayError e = (case errors_As as_terminal e of Some t \<Rightarrow> t | None \<Rightarrow> e)"

definition isLostLeaseError :: "go_error \<Rightarrow> bool" where
  "isLostLeaseError e = (case errors_As as_api e of
      None \<Rightarrow> False
    | Some a \<Rightarrow> (let c = to_lower (trim_space (Code a)) in
        c = ''lease_not_found'' \<or> c = ''unauthorized''))"

text \<open>\<open>isCertificateValidationError\<close> tries the four certificate error types in turn.\<close>

definition isCertificateValidationError :: "go_error \<Rightarrow> bool" where
  "isCertificateValidationError e \<longleftrightarrow>
     errors_Is e (CertificateError CertificateVerificationError) \<or> errors_Is e (CertificateError HostnameError)
     \<or> errors_Is e (CertificateError UnknownAuthorityError) \<or> errors_Is e (CertificateError CertificateInvalidError)"

definition classifyRelayError :: "go_error option \<Rightarrow> bool \<Rightarrow> go_error option" where
  "classifyRelayError err allowLeaseRefresh =
     (case err of
        None \<Rightarrow> None
      | Some e \<Rightarrow>
          if isTerminalRelayFailure e \<or> errors_Is e ErrLeaseRefresh then Some e
          else if allowLeaseRefresh \<and> isLostLeaseError e then Some ErrLeaseRefresh
          else if errors_As as_malformed e \<noteq> None then Some (terminalRelay e)
          else if isCertificateValidationError e then Some (terminalRelay e)
          else (case errors_As as_api e of
              Some a \<Rightarrow>
                if isTerminalAPIErrorCode (Code a) then Some (terminalRelay e)
                else if isRateLimitedAPIError a \<or> StatusCode a \<ge> 500 then Some e
                else Some (terminalRelay e)
            | None \<Rightarrow>
                if errors_Is e EOF \<or> errors_Is e UnexpectedEOF \<or> errors_Is e ContextCanceled
                   \<or> errors_Is e ContextDeadlineExceeded then Some e
                else if errors_As as_net e \<noteq> None then Some e
                else Some (terminalRelay e)))"

section \<open>Delays and timings\<close>

text \<open>
  \<open>parseRetryAfter\<close>: the \<open>Retry-After\<close> header of a response (\<open>None\<close> for a nil response,
  the empty text for an absent header). \<open>http.ParseTime\<close> is the argument \<open>parse_time\<close>: its date
  formats do not matter, only that it returns an instant or an error. \<open>now\<close> is the reading of the
  clock inside \<open>time.Until\<close>.
\<close>

definition parseRetryAfter :: "(string \<Rightarrow> instant option) \<Rightarrow> instant \<Rightarrow> string option \<Rightarrow> duration" where
  "parseRetryAfter parse_time now response =
     (case response of
        None \<Rightarrow> 0
      | Some header \<Rightarrow>
          (let raw = trim_space header in
           if raw = [] then 0
           else (case parse_uint 31 raw of
               Some seconds \<Rightarrow> int seconds * second
             | None \<Rightarrow>
                 (case parse_time raw of
                    Some at \<Rightarrow> if at - now > 0 then at - now else 0
                  | None \<Rightarrow> 0))))"

definition maxRelayRetryDelay :: duration where
  "maxRelayRetryDelay = 5 * minute"

definition relayRetryDelay :: "duration \<Rightarrow> go_error \<Rightarrow> duration" where
  "relayRetryDelay base err =
     (case errors_As as_api err of
        None \<Rightarrow> base
      | Some a \<Rightarrow>
          if RetryAfter a \<le> base then base
          else if RetryAfter a > maxRelayRetryDelay then maxRelayRetryDelay
          else RetryAfter a)"

record relayTimings =
  leaseTTL :: duration
  renewBefore :: duration
  retryWait :: duration
  dialTimeout :: duration
  handshakeTimeout :: duration
  requestTimeout :: duration
  idleTimeout :: duration
  shutdownTimeout :: duration
  discoveryPoll :: duration

definition defaultRelayTimings :: relayTimings where
  "defaultRelayTimings = \<lparr>leaseTTL = 2 * minute, renewBefore = 30 * second, retryWait = 3 * second,
     dialTimeout = 15 * second, handshakeTimeout = 30 * second, requestTimeout = 30 * second,
     idleTimeout = 60 * second, shutdownTimeout = 5 * second, discoveryPoll = 30 * second\<rparr>"

definition positive_or :: "duration \<Rightarrow> duration \<Rightarrow> duration" where
  "positive_or x d = (if x \<le> 0 then d else x)"

definition withDefaults :: "relayTimings \<Rightarrow> relayTimings" where
  "withDefaults t = (let d = defaultRelayTimings in
     t\<lparr>leaseTTL := positive_or (leaseTTL t) (leaseTTL d),
       renewBefore := positive_or (renewBefore t) (renewBefore d),
       retryWait := positive_or (retryWait t) (retryWait d),
       dialTimeout := positive_or (dialTimeout t) (dialTimeout d),
       handshakeTimeout := positive_or (handshakeTimeout t) (handshakeTimeout d),
       requestTimeout := positive_or (requestTimeout t) (requestTimeout d),
       idleTimeout := positive_or (idleTimeout t) (idleTimeout d),
       shutdownTimeout := positive_or (shutdownTimeout t) (shutdownTimeout d),
       discoveryPoll := positive_or (discoveryPoll t) (discoveryPoll d)\<rparr>)"

text \<open>Wrap-around of 64-bit signed addition, and Go's division towards zero.\<close>

definition wrap64 :: "int \<Rightarrow> int" where
  "wrap64 x = (x + 2 ^ 63) mod 2 ^ 64 - 2 ^ 63"

definition go_div :: "int \<Rightarrow> int \<Rightarrow> int" where
  "go_div a b = sgn a * sgn b * (\<bar>a\<bar> div \<bar>b\<bar>)"

definition ttlSeconds :: "relayTimings \<Rightarrow> int" where
  "ttlSeconds t = (let seconds = go_div (wrap64 (leaseTTL t + second - 1)) second
     in if seconds < 1 then 1 else seconds)"

text \<open>
  \<open>waitForRelayRetry\<close>: whether the caller should go on. \<open>done_first\<close> tells whether the context
  is cancelled before the timer fires.
\<close>

definition waitForRelayRetry :: "bool \<Rightarrow> bool \<Rightarrow> duration \<Rightarrow> bool" where
  "waitForRelayRetry cancelled done_first delay =
     (if delay \<le> 0 then \<not> cancelled else \<not> done_first)"


section \<open>Lemmas on error trees\<close>

lemma find_map_None_iff: "find_map f xs = None \<longleftrightarrow> (\<forall>x\<in>set xs. f x = None)"
  by (induction xs) (auto split: option.splits)

lemma find_map_Some: "find_map f xs = Some y \<Longrightarrow> \<exists>x\<in>set xs. f x = Some y"
  by (induction xs) (auto split: option.splits)

lemma err_tree_self [simp]: "e \<in> set (err_tree e)"
  by (cases e) auto

lemma err_tree_ne [simp]: "err_tree e \<noteq> []"
  by (cases e) auto

lemma as_terminal_Some: "as_terminal e = Some t \<longleftrightarrow> e = TerminalRelayError t"
  by (cases e) auto

lemma terminal_iff: "isTerminalRelayFailure e \<longleftrightarrow> (\<exists>t. TerminalRelayError t \<in> set (err_tree e))"
proof -
  have "isTerminalRelayFailure e \<longleftrightarrow> (\<exists>x\<in>set (err_tree e). as_terminal x \<noteq> None)"
    by (auto simp: isTerminalRelayFailure_def errors_As_def find_map_None_iff)
  then show ?thesis by (auto simp: as_terminal_Some)
qed

lemma terminal_TerminalRelayError [simp]: "isTerminalRelayFailure (TerminalRelayError e)"
  by (auto simp: terminal_iff)

lemma terminalRelay_terminal [simp]: "isTerminalRelayFailure (terminalRelay e)"
  by (simp add: terminalRelay_def)

lemma terminalRelay_idem [simp]: "terminalRelay (terminalRelay e) = terminalRelay e"
  by (simp add: terminalRelay_def)

lemma unwrap_terminalRelay:
  "\<not> isTerminalRelayFailure e \<Longrightarrow> unwrapTerminalRelayError (terminalRelay e) = e"
  by (simp add: terminalRelay_def unwrapTerminalRelayError_def errors_As_def)

lemma classify_cases:
  "classifyRelayError (Some e) b \<in> {Some e, Some ErrLeaseRefresh, Some (terminalRelay e)}"
  by (simp add: classifyRelayError_def split: option.split)

lemma lease_refresh_fixed: "classifyRelayError (Some ErrLeaseRefresh) b = Some ErrLeaseRefresh"
  by (simp add: classifyRelayError_def errors_Is_def)

lemma terminal_fixed: "isTerminalRelayFailure e \<Longrightarrow> classifyRelayError (Some e) b = Some e"
  by (simp add: classifyRelayError_def)

section \<open>Properties of the classification\<close>

text \<open>What the supervisor does with a classified error.\<close>

datatype verdict = NoError | Terminal | Refresh | Retry

definition verdict_of :: "go_error option \<Rightarrow> verdict" where
  "verdict_of err = (case err of None \<Rightarrow> NoError
     | Some e \<Rightarrow> if isTerminalRelayFailure e then Terminal
         else if errors_Is e ErrLeaseRefresh then Refresh else Retry)"

lemma err_tree_wrap: "err_tree (Wrapped s e) = Wrapped s e # err_tree e"
  by simp

lemma errors_As_wrap [simp]:
  "errors_As as_terminal (Wrapped s e) = errors_As as_terminal e"
  "errors_As as_api (Wrapped s e) = errors_As as_api e"
  "errors_As as_malformed (Wrapped s e) = errors_As as_malformed e"
  "errors_As as_net (Wrapped s e) = errors_As as_net e"
  "errors_As as_signer (Wrapped s e) = errors_As as_signer e"
  "errors_As as_upgrade (Wrapped s e) = errors_As as_upgrade e"
  "errors_As as_rejection (Wrapped s e) = errors_As as_rejection e"
  by (simp_all add: errors_As_def)

lemma errors_Is_wrap: "(\<And>s e. target \<noteq> Wrapped s e) \<Longrightarrow> errors_Is (Wrapped s e) target = errors_Is e target"
  by (auto simp: errors_Is_def)

lemma isTerminal_wrap [simp]: "isTerminalRelayFailure (Wrapped s e) = isTerminalRelayFailure e"
  by (simp add: isTerminalRelayFailure_def)

lemma errors_Is_terminalRelay:
  "target \<noteq> TerminalRelayError e \<Longrightarrow> errors_Is (terminalRelay e) target = errors_Is e target"
  by (simp add: terminalRelay_def errors_Is_def)

lemma verdict_terminalRelay [simp]: "verdict_of (Some (terminalRelay e)) = Terminal"
  by (simp add: verdict_of_def)

lemma isLostLease_wrap [simp]: "isLostLeaseError (Wrapped s e) = isLostLeaseError e"
  by (simp add: isLostLeaseError_def)

lemma isCertificate_wrap [simp]:
  "isCertificateValidationError (Wrapped s e) = isCertificateValidationError e"
  by (simp add: isCertificateValidationError_def errors_Is_wrap)

text \<open>Classification is stable: classifying an already classified error changes nothing, so the
  supervisor loops may classify an error at several levels.\<close>

theorem classifyRelayError_idempotent:
  "classifyRelayError (classifyRelayError err b) b = classifyRelayError err b"
proof (cases err)
  case (Some e)
  show ?thesis
    using classify_cases [of e b] by (auto simp: Some lease_refresh_fixed terminal_fixed)
qed (simp add: classifyRelayError_def)

text \<open>Adding context to an error with \<open>%w\<close> never changes what the supervisor does with it.\<close>

theorem classifyRelayError_wrap:
  "verdict_of (classifyRelayError (Some (Wrapped s e)) b) = verdict_of (classifyRelayError (Some e) b)"
  by (simp add: classifyRelayError_def verdict_of_def errors_Is_wrap split: option.splits)

lemma verdict_api:
  "verdict_of (classifyRelayError (Some (APIErr a)) b) =
     (if b \<and> isLostLeaseError (APIErr a) then Refresh
      else if isTerminalAPIErrorCode (Code a) then Terminal
      else if isRateLimitedAPIError a \<or> StatusCode a \<ge> 500 then Retry
      else Terminal)"
proof -
  have "\<not> isTerminalRelayFailure (APIErr a)" "\<not> errors_Is (APIErr a) ErrLeaseRefresh"
    by (simp_all add: terminal_iff errors_Is_def)
  moreover have "\<not> isTerminalRelayFailure ErrLeaseRefresh" "errors_Is ErrLeaseRefresh ErrLeaseRefresh"
    by (simp_all add: terminal_iff errors_Is_def)
  ultimately show ?thesis
    by (simp add: classifyRelayError_def verdict_of_def errors_As_def isCertificateValidationError_def
        errors_Is_def)
qed

lemma wrapped_verdict:
  "verdict_of (classifyRelayError (Some (foldr Wrapped ss e)) b) = verdict_of (classifyRelayError (Some e) b)"
  by (induction ss) (simp_all add: classifyRelayError_wrap)


text \<open>A code that the contract lists as terminal is never retried or refreshed, whatever the
  status and the caller, and the relay is reported with the original error.\<close>

theorem terminal_code_always_terminal:
  assumes "isTerminalAPIErrorCode (Code a)"
  shows "classifyRelayError (Some (APIErr a)) b = Some (TerminalRelayError (APIErr a)) \<and>
    unwrapTerminalRelayError (TerminalRelayError (APIErr a)) = APIErr a"
proof -
  have "\<not> isLostLeaseError (APIErr a)"
    using assms by (auto simp: isLostLeaseError_def errors_As_def isTerminalAPIErrorCode_def
        terminalAPIErrorCodes_def Let_def)
  moreover have "terminalRelay (APIErr a) = TerminalRelayError (APIErr a)"
    by (simp add: terminalRelay_def terminal_iff)
  ultimately show ?thesis
    using assms by (simp add: classifyRelayError_def errors_As_def isCertificateValidationError_def
        errors_Is_def terminal_iff unwrapTerminalRelayError_def)
qed

lemma udp_disabled_terminal: "isTerminalAPIErrorCode ''udp_disabled''"
proof -
  have "list_all is_graphic ''udp_disabled''" "list_all is_ascii ''udp_disabled''"
    "list_all (\<lambda>c. \<not> is_upper c) ''udp_disabled''"
    by (simp_all add: is_graphic_def is_ascii_def is_upper_def)
  then show ?thesis
    by (simp only: isTerminalAPIErrorCode_def trim_space_all_graphic to_lower_fixed)
      (simp add: terminalAPIErrorCodes_def)
qed

theorem terminal_code_always_terminal_witness:
  "classifyRelayError (Some (APIErr \<lparr>StatusCode = 503, Code = ''udp_disabled'', Message = [], RetryAfter = 0\<rparr>)) True
     = Some (TerminalRelayError (APIErr \<lparr>StatusCode = 503, Code = ''udp_disabled'', Message = [], RetryAfter = 0\<rparr>))"
  using terminal_code_always_terminal
    [of "\<lparr>StatusCode = 503, Code = ''udp_disabled'', Message = [], RetryAfter = 0\<rparr>" True]
  by (simp add: udp_disabled_terminal)

text \<open>An unknown API error code with a client-error status is not retried: with the code
  \<open>conflict\<close> at status 409 the relay fails for good.\<close>

lemma other_client_error_terminal:
  "verdict_of (classifyRelayError
     (Some (APIErr \<lparr>StatusCode = 409, Code = ''conflict'', Message = [], RetryAfter = 0\<rparr>)) True) = Terminal"
proof -
  have "list_all is_graphic ''conflict''" "list_all is_ascii ''conflict''"
    "list_all (\<lambda>c. \<not> is_upper c) ''conflict''"
    by (simp_all add: is_graphic_def is_ascii_def is_upper_def)
  then have "trim_space ''conflict'' = ''conflict''" "to_lower ''conflict'' = ''conflict''"
    by (simp_all only: trim_space_all_graphic to_lower_fixed)
  then have "\<not> isLostLeaseError (APIErr \<lparr>StatusCode = 409, Code = ''conflict'', Message = [], RetryAfter = 0\<rparr>)"
    "\<not> isRateLimitedAPIError \<lparr>StatusCode = 409, Code = ''conflict'', Message = [], RetryAfter = 0\<rparr>"
    by (simp_all add: isLostLeaseError_def errors_As_def isRateLimitedAPIError_def equal_fold_def is_upper_def)
  then show ?thesis by (simp add: verdict_api)
qed

section \<open>Properties of the delays\<close>

text \<open>The retry delay never undercuts the configured base delay unless that base exceeds the
  five-minute bound, never exceeds both, and equals the base when the relay advertised nothing.\<close>

theorem relayRetryDelay_bounds:
  "min base maxRelayRetryDelay \<le> relayRetryDelay base err \<and>
   relayRetryDelay base err \<le> max base maxRelayRetryDelay \<and>
   (errors_As as_api err = None \<longrightarrow> relayRetryDelay base err = base)"
  by (auto simp: relayRetryDelay_def split: option.splits)

theorem relayRetryDelay_bounds_witness:
  "relayRetryDelay (3 * second) EOF = 3 * second \<and> relayRetryDelay (3 * second)
     (APIErr \<lparr>StatusCode = 429, Code = [], Message = [], RetryAfter = 3600 * second\<rparr>) \<le> 5 * minute"
  using relayRetryDelay_bounds [of "3 * second" EOF] relayRetryDelay_bounds [of "3 * second"
    "APIErr \<lparr>StatusCode = 429, Code = [], Message = [], RetryAfter = 3600 * second\<rparr>"]
  by (simp add: errors_As_def maxRelayRetryDelay_def)

text \<open>A \<open>Retry-After\<close> delay is never negative, and the delta-seconds form is at most
  \<open>2^31 - 1\<close> seconds, so that its conversion to 64-bit nanoseconds cannot overflow.\<close>

theorem parseRetryAfter_bounds:
  "0 \<le> parseRetryAfter parse_time now response \<and>
   (\<forall>header n. response = Some header \<longrightarrow> parse_uint 31 (trim_space header) = Some n \<longrightarrow>
      parseRetryAfter parse_time now response = int n * second \<and> int n * second < 2 ^ 63)"
proof -
  have nonempty: "parse_uint 31 [] = None" by (simp add: parse_uint_def)
  have small: "int n * second < 2 ^ 63" if "parse_uint 31 s = Some n" for s n
    using parse_uint_bound [OF that] by simp
  then show ?thesis
    using nonempty by (auto simp: parseRetryAfter_def Let_def split: option.splits)
qed

theorem parseRetryAfter_bounds_witness:
  "parseRetryAfter (\<lambda>_. None) 0 (Some ''120'') = 120 * second"
proof -
  have t: "trim_space ''120'' = ''120''" by (intro trim_space_all_graphic) (simp add: is_graphic_def)
  have "parse_uint 31 (trim_space ''120'') = Some 120"
    unfolding t by (simp add: parse_uint_def is_digit_def dec_value_def digit_val_def)
  then show ?thesis using parseRetryAfter_bounds [of "\<lambda>_. None" 0 "Some ''120''"] by simp
qed

lemma positive_or_pos: "0 < d \<Longrightarrow> 0 < positive_or x d"
  by (simp add: positive_or_def)

lemma positive_or_id: "0 < x \<Longrightarrow> positive_or x d = x"
  by (simp add: positive_or_def)

lemmas timing_defs = withDefaults_def defaultRelayTimings_def Let_def

definition all_positive :: "relayTimings \<Rightarrow> bool" where
  "all_positive t \<longleftrightarrow> 0 < leaseTTL t \<and> 0 < renewBefore t \<and> 0 < retryWait t \<and> 0 < dialTimeout t
     \<and> 0 < handshakeTimeout t \<and> 0 < requestTimeout t \<and> 0 < idleTimeout t \<and> 0 < shutdownTimeout t
     \<and> 0 < discoveryPoll t"

text \<open>\<open>withDefaults\<close> makes every timing positive and leaves positive timings alone.\<close>

theorem withDefaults_positive:
  "all_positive (withDefaults t) \<and> (all_positive t \<longrightarrow> withDefaults t = t)"
  by (simp add: timing_defs all_positive_def positive_or_pos positive_or_id)

theorem withDefaults_positive_witness:
  "all_positive (withDefaults defaultRelayTimings) \<and> withDefaults defaultRelayTimings = defaultRelayTimings"
proof -
  have "all_positive defaultRelayTimings" by (simp add: all_positive_def defaultRelayTimings_def)
  then show ?thesis using withDefaults_positive [of defaultRelayTimings] by simp
qed

lemma wrap64_id: "- (2 ^ 63) \<le> x \<Longrightarrow> x < 2 ^ 63 \<Longrightarrow> wrap64 x = x"
  by (simp add: wrap64_def)

text \<open>The lease lifetime requested from a relay is the configured one rounded up to whole
  seconds, and at least one second.\<close>

theorem ttlSeconds_ceiling:
  assumes "0 < leaseTTL t" "leaseTTL t + second \<le> 2 ^ 63"
  shows "1 \<le> ttlSeconds t \<and> (ttlSeconds t - 1) * second < leaseTTL t \<and> leaseTTL t \<le> ttlSeconds t * second"
proof -
  define q where "q = (leaseTTL t + second - 1) div second"
  have "wrap64 (leaseTTL t + second - 1) = leaseTTL t + second - 1"
    using assms by (intro wrap64_id) simp_all
  then have "go_div (wrap64 (leaseTTL t + second - 1)) second = q"
    using assms by (simp add: go_div_def q_def)
  moreover have "q * second \<le> leaseTTL t + second - 1" "leaseTTL t + second - 1 < (q + 1) * second"
    unfolding q_def by (simp_all add: div_mult_mod_eq minus_mod_eq_div_mult [symmetric] algebra_simps)
  moreover have "1 \<le> q" using assms by (simp add: q_def)
  ultimately show ?thesis by (simp add: ttlSeconds_def algebra_simps)
qed

theorem ttlSeconds_ceiling_witness: "ttlSeconds defaultRelayTimings = 120"
proof -
  have "leaseTTL defaultRelayTimings = 120 * second" by (simp add: defaultRelayTimings_def)
  then show ?thesis using ttlSeconds_ceiling [of defaultRelayTimings] by simp
qed

end
