(* ===== verification/Datagram.thy ===== *)
theory Datagram
  imports RelayErrors
begin

text \<open>
  Datagram frames and the QUIC backhaul handshake (\<open>src/datagram.go\<close>).

  A datagram on the wire is the flow identifier as an unsigned varint followed by the payload. The
  varint routines of Go's \<open>encoding/binary\<close> are modelled on 64-bit words, with their overflow
  checks; a write outside the five-byte prefix buffer would panic, which is the value \<open>None\<close>.
  The QUIC library is a parameter of \<open>dialQUICBackhaul\<close>: the outcomes of its calls are arguments
  and the calls made are recorded in order.

  The lemmas show that framing is a round trip that never panics, that every accepted frame obeys the
  size bound, and that a failed handshake closes the connection exactly once.
\<close>

unbundle bit_operations_syntax

section \<open>Constants and data\<close>

definition maxUDPPayloadSize :: nat where "maxUDPPayloadSize = 65507"
definition datagramQueuePerRelay :: nat where "datagramQueuePerRelay = 256"
definition quicBackhaulALPN :: string where "quicBackhaulALPN = ''portal-tunnel''"
definition quicBackhaulControlTimeout :: duration where "quicBackhaulControlTimeout = 10 * second"
definition quicBackhaulControlBodyLimit :: nat where "quicBackhaulControlBodyLimit = 4096"
definition quicBackhaulKeepAlive :: duration where "quicBackhaulKeepAlive = 15 * second"
definition quicBackhaulIdleTimeout :: duration where "quicBackhaulIdleTimeout = 60 * second"
definition defaultUDPFlowIdleTimeout :: duration where "defaultUDPFlowIdleTimeout = 5 * minute"
definition defaultUDPFlowCleanupInterval :: duration where "defaultUDPFlowCleanupInterval = 15 * second"
definition defaultUDPProxyMaxFlows :: int where "defaultUDPProxyMaxFlows = 1024"

record DatagramFrame =
  FlowID :: "32 word"
  Payload :: "byte list"
  RelayURL :: string
  UDPAddr :: string

section \<open>Varints\<close>

text \<open>\<open>binary.PutUvarint\<close>: seven bits per byte, least significant group first, the high bit set on
  every byte but the last.\<close>

function put_uvarint :: "64 word \<Rightarrow> byte list" where
  "put_uvarint x = (if x \<ge> 0x80 then (ucast x OR 0x80) # put_uvarint (drop_bit 7 x) else [ucast x])"
  by auto

text \<open>The bytes written into a buffer of the given size; \<open>None\<close> is the index-out-of-range panic.\<close>

definition PutUvarint :: "nat \<Rightarrow> 64 word \<Rightarrow> byte list option" where
  "PutUvarint cap x = (let bytes = put_uvarint x in if length bytes \<le> cap then Some bytes else None)"

definition MaxVarintLen32 :: nat where "MaxVarintLen32 = 5"
definition MaxVarintLen64 :: nat where "MaxVarintLen64 = 10"

text \<open>\<open>binary.Uvarint\<close>: the value and the number of bytes read, zero for a truncated input and
  negative for a value wider than 64 bits.\<close>

fun uvarint_loop :: "nat \<Rightarrow> 64 word \<Rightarrow> nat \<Rightarrow> byte list \<Rightarrow> 64 word \<times> int" where
  "uvarint_loop i x s [] = (0, 0)"
| "uvarint_loop i x s (b # bs) =
     (if i = MaxVarintLen64 then (0, - int (i + 1))
      else if b < 0x80 then
        (if i = MaxVarintLen64 - 1 \<and> b > 1 then (0, - int (i + 1))
         else (x OR push_bit s (ucast b), int (i + 1)))
      else uvarint_loop (i + 1) (x OR push_bit s (ucast (b AND 0x7f))) (s + 7) bs)"

definition Uvarint :: "byte list \<Rightarrow> 64 word \<times> int" where
  "Uvarint buf = uvarint_loop 0 0 0 buf"

section \<open>Framing\<close>

definition payload_too_large :: go_error where
  "payload_too_large = ErrorText (''UDP payload exceeds '' @ format_uint maxUDPPayloadSize @ '' bytes'')"

definition encodeDatagram :: "32 word \<Rightarrow> byte list \<Rightarrow> (go_error + byte list) option" where
  "encodeDatagram flowID payload =
     (if length payload > maxUDPPayloadSize then Some (Inl payload_too_large)
      else (case PutUvarint MaxVarintLen32 (ucast flowID) of
          None \<Rightarrow> None
        | Some pre \<Rightarrow> Some (Inr (pre @ payload))))"

definition decodeDatagram :: "byte list \<Rightarrow> go_error + DatagramFrame" where
  "decodeDatagram data =
     (let (flowID, n) = Uvarint data in
      if n \<le> 0 \<or> flowID > ucast (- 1 :: 32 word) then Inl (ErrorText ''invalid datagram flow ID'')
      else (let payload = drop (nat n) data in
        if length payload > maxUDPPayloadSize then Inl payload_too_large
        else Inr \<lparr>FlowID = ucast flowID, Payload = payload, RelayURL = [], UDPAddr = []\<rparr>))"

section \<open>Lemmas on varints\<close>

lemma drop_bit_unat: "unat (drop_bit 7 (x :: 64 word)) = unat x div 128"
  unfolding drop_bit_eq_div by (simp add: unat_div)

termination put_uvarint
  by (relation "measure unat") (simp_all add: drop_bit_unat word_le_nat_alt)

declare put_uvarint.simps [simp del]

lemma put_uvarint_small: "x < 0x80 \<Longrightarrow> put_uvarint x = [ucast x]"
  by (simp add: put_uvarint.simps not_less [symmetric])

lemma put_uvarint_big: "x \<ge> 0x80 \<Longrightarrow> put_uvarint x = (ucast x OR 0x80) # put_uvarint (drop_bit 7 x)"
  by (simp add: put_uvarint.simps)

lemma mask7: "(0x7f :: byte) = mask 7" "(0x7f :: 64 word) = mask 7"
  by (simp_all add: mask_eq_decr_exp)

lemma marker_eq: "(0x80 :: byte) = push_bit 7 1"
  by simp

lemma low_group: "ucast (((ucast (x :: 64 word) :: byte) OR 0x80) AND 0x7f) = x AND 0x7f"
  unfolding mask7 by (subst marker_eq, rule bit_word_eqI, auto simp only: bit_simps) simp_all

lemma word_or_ge: "(y :: byte) \<le> x OR y"
  by (simp add: word_le_def uint_or or.commute [of "uint x"] or_greater_eq)

lemma marker_bit: "\<not> ((ucast (x :: 64 word) :: byte) OR 0x80) < 0x80"
  using word_or_ge [of "0x80" "ucast x"] by (simp add: not_less)

lemma unat_byte_of: "unat (ucast (x :: 64 word) :: byte) = unat x mod 256"
  by (simp add: unsigned_ucast_eq take_bit_eq_mod)

lemma unat_widen: "unat (ucast (b :: byte) :: 64 word) = unat b"
  "unat (ucast (f :: 32 word) :: 64 word) = unat f"
  using unsigned_less [of b, where ?'a = nat] unsigned_less [of f, where ?'a = nat]
  by (simp_all add: unsigned_ucast_eq take_bit_nat_eq_self_iff)

lemma small_byte_less: "(x :: 64 word) < 0x80 \<Longrightarrow> (ucast x :: byte) < 0x80"
  by (simp add: unat_byte_of word_less_nat_alt)

lemma small_byte: "x < 0x80 \<Longrightarrow> ucast (ucast (x :: 64 word) :: byte) = x"
  by (simp only: word_unat_eq_iff unat_widen unat_byte_of) (simp add: word_less_nat_alt)

lemma split_groups:
  "push_bit s (x AND 0x7f) OR push_bit (s + 7) (drop_bit 7 x) = push_bit s (x :: 64 word)"
  unfolding mask7
proof (rule bit_word_eqI)
  fix n :: nat
  assume "n < LENGTH(64)"
  moreover have "7 + (n - (s + 7)) = n - s" if "s + 7 \<le> n" using that by simp
  ultimately show "bit (push_bit s (x AND mask 7) OR push_bit (s + 7) (drop_bit 7 x)) n = bit (push_bit s x) n"
    by (cases "s + 7 \<le> n") (auto simp: bit_simps)
qed

lemma uvarint_put:
  assumes "unat y < 128 ^ k" "i + k \<le> 9" "0 < k"
  shows "\<exists>n. n \<le> k \<and> length (put_uvarint y) = n \<and>
    uvarint_loop i x s (put_uvarint y @ rest) = (x OR push_bit s y, int (i + n))"
  using assms
proof (induction k arbitrary: y i x s)
  case (Suc k)
  show ?case
  proof (cases "y < 0x80")
    case True
    then show ?thesis using Suc.prems
      by (simp add: put_uvarint_small small_byte small_byte_less MaxVarintLen64_def)
  next
    case False
    then have y: "0x80 \<le> y" by simp
    have d: "unat (drop_bit 7 y) < 128 ^ k" using Suc.prems(1) by (simp add: drop_bit_unat less_mult_imp_div_less mult.commute)
    have "k \<noteq> 0" using y Suc.prems(1) by (cases k) (simp_all add: word_le_nat_alt)
    then obtain n where n: "n \<le> k" "length (put_uvarint (drop_bit 7 y)) = n"
      "uvarint_loop (i + 1) (x OR push_bit s (y AND 0x7f)) (s + 7) (put_uvarint (drop_bit 7 y) @ rest)
        = ((x OR push_bit s (y AND 0x7f)) OR push_bit (s + 7) (drop_bit 7 y), int (i + 1 + n))"
      using Suc.IH [OF d, of "i + 1" "x OR push_bit s (y AND 0x7f)" "s + 7"] Suc.prems by auto
    have "uvarint_loop i x s (put_uvarint y @ rest) =
        uvarint_loop (i + 1) (x OR push_bit s (y AND 0x7f)) (s + 7) (put_uvarint (drop_bit 7 y) @ rest)"
      using Suc.prems marker_bit [of y] by (simp add: put_uvarint_big [OF y] low_group MaxVarintLen64_def)
    then have "uvarint_loop i x s (put_uvarint y @ rest) = (x OR push_bit s y, int (i + Suc n))"
      by (simp only: n(3) or.assoc split_groups) simp
    then show ?thesis using n(1,2) by (intro exI [of _ "Suc n"]) (simp add: put_uvarint_big [OF y])
  qed
qed simp

lemma flow_prefix:
  fixes f :: "32 word"
  shows "length (put_uvarint (ucast f)) \<le> 5"
    "Uvarint (put_uvarint (ucast f) @ rest) = (ucast f, int (length (put_uvarint (ucast f))))"
    "0 < length (put_uvarint (ucast f))"
proof -
  have "unat (ucast f :: 64 word) < 128 ^ 5"
    using unsigned_less [of f, where ?'a = nat] by (simp add: unat_widen)
  from uvarint_put [OF this, of 0 0 0 rest]
  show "length (put_uvarint (ucast f)) \<le> 5"
    "Uvarint (put_uvarint (ucast f) @ rest) = (ucast f, int (length (put_uvarint (ucast f))))"
    by (auto simp: Uvarint_def)
  show "0 < length (put_uvarint (ucast f))" by (subst put_uvarint.simps) simp
qed

lemma flow_fits: "\<not> ucast (- 1 :: 32 word) < (ucast (f :: 32 word) :: 64 word)"
proof -
  have "unat (ucast (- 1 :: 32 word) :: 64 word) = 2 ^ 32 - 1"
    by (simp add: unat_widen unsigned_minus_1_eq_mask mask_eq_exp_minus_1)
  then show ?thesis
    using unsigned_less [of f, where ?'a = nat] by (simp add: word_less_nat_alt unat_widen)
qed

lemma ucast_flow: "ucast (ucast (f :: 32 word) :: 64 word) = f"
  by (rule bit_word_eqI) (simp add: bit_simps)

lemma encode_ok:
  "length p \<le> maxUDPPayloadSize \<Longrightarrow> encodeDatagram f p = Some (Inr (put_uvarint (ucast f) @ p))"
  by (simp add: encodeDatagram_def PutUvarint_def MaxVarintLen32_def flow_prefix)

lemma decode_encoded:
  assumes "length p \<le> maxUDPPayloadSize"
  shows "decodeDatagram (put_uvarint (ucast f) @ p) =
    Inr \<lparr>FlowID = f, Payload = p, RelayURL = [], UDPAddr = []\<rparr>"
  using assms flow_fits [of f] flow_prefix(3) [of f]
  by (simp add: decodeDatagram_def flow_prefix(2) ucast_flow)

lemma uvarint_loop_count: "uvarint_loop i x s bs = (v, n) \<Longrightarrow> n \<le> int (i + length bs)"
  by (induction i x s bs rule: uvarint_loop.induct) (fastforce split: if_splits)+

section \<open>Properties of the framing\<close>

text \<open>Encoding a datagram never panics: the varint of a 32-bit flow identifier fits the prefix
  buffer, so the outcome is the size error exactly for payloads above 65507 bytes and otherwise a
  frame at most five bytes longer than the payload.\<close>

theorem encodeDatagram_total:
  "encodeDatagram f p \<noteq> None \<and>
   (encodeDatagram f p = Some (Inl payload_too_large) \<longleftrightarrow> length p > 65507) \<and>
   (\<forall>e. encodeDatagram f p = Some (Inl e) \<longrightarrow> e = payload_too_large) \<and>
   (\<forall>w. encodeDatagram f p = Some (Inr w) \<longrightarrow> length p < length w \<and> length w \<le> length p + 5)"
proof (cases "length p \<le> maxUDPPayloadSize")
  case True
  then show ?thesis using flow_prefix(1,3) [of f] by (simp add: encode_ok maxUDPPayloadSize_def)
qed (simp add: encodeDatagram_def maxUDPPayloadSize_def)

theorem encodeDatagram_total_witness:
  "\<exists>w. encodeDatagram 300 [1, 2] = Some (Inr w) \<and> 2 < length w \<and> length w \<le> 7"
proof -
  have "encodeDatagram 300 [1, 2] = Some (Inr (put_uvarint (ucast (300 :: 32 word)) @ [1, 2]))"
    by (rule encode_ok) (simp add: maxUDPPayloadSize_def)
  then show ?thesis using encodeDatagram_total [of 300 "[1, 2]"] by simp
qed

text \<open>C36. Framing is a round trip: decoding an encoded datagram gives back its flow identifier and
  its payload, byte for byte.\<close>

theorem datagram_roundtrip:
  assumes "encodeDatagram f p = Some (Inr w)"
  shows "decodeDatagram w = Inr \<lparr>FlowID = f, Payload = p, RelayURL = [], UDPAddr = []\<rparr>"
proof -
  have "length p \<le> maxUDPPayloadSize"
    using assms by (rule_tac ccontr) (simp add: encodeDatagram_def)
  then show ?thesis using assms decode_encoded encode_ok by auto
qed

theorem datagram_roundtrip_witness:
  "decodeDatagram [0xac, 0x02, 7] = Inr \<lparr>FlowID = 300, Payload = [7], RelayURL = [], UDPAddr = []\<rparr>"
proof -
  have "put_uvarint 300 = [0xac, 0x02]"
    by (simp add: put_uvarint.simps [of 300] put_uvarint.simps [of 2] drop_bit_eq_div)
  then have "encodeDatagram 300 [7] = Some (Inr [0xac, 0x02, 7])"
    by (simp add: encode_ok maxUDPPayloadSize_def)
  then show ?thesis by (rule datagram_roundtrip)
qed

text \<open>What the decoder accepts is bounded: the payload is a suffix of the input of at most
  65507 bytes, after a prefix of at least one byte, and no relay is attributed yet.\<close>

theorem decodeDatagram_sound:
  assumes "decodeDatagram w = Inr d"
  shows "(\<exists>pre. w = pre @ Payload d \<and> pre \<noteq> []) \<and> length (Payload d) \<le> 65507 \<and>
    RelayURL d = [] \<and> UDPAddr d = []"
proof -
  obtain v n where u: "Uvarint w = (v, n)" by fastforce
  then have n: "n \<le> int (length w)" using uvarint_loop_count [of 0 0 0 w] by (simp add: Uvarint_def)
  from assms u have d: "0 < n" "Payload d = drop (nat n) w" "length (Payload d) \<le> 65507"
    "RelayURL d = []" "UDPAddr d = []"
    by (auto simp: decodeDatagram_def maxUDPPayloadSize_def split: if_splits)
  have "w = take (nat n) w @ Payload d" "take (nat n) w \<noteq> []"
    using d(1) n unfolding d(2) by (auto simp: take_eq_Nil)
  then show ?thesis using d by blast
qed

theorem decodeDatagram_sound_witness:
  "\<exists>d. decodeDatagram (put_uvarint (ucast (5 :: 32 word)) @ [9]) = Inr d \<and> length (Payload d) \<le> 65507"
  using decodeDatagram_sound decode_encoded [of "[9]" 5] by (simp add: maxUDPPayloadSize_def)

interpretation dgram: codec "\<lambda>(f, p). length p \<le> maxUDPPayloadSize" "\<lambda>(f, p). encodeDatagram f p"
    "\<lambda>r. case r of Some (Inr w) \<Rightarrow>
        (case decodeDatagram w of Inr d \<Rightarrow> Some (FlowID d, Payload d) | Inl _ \<Rightarrow> None)
      | _ \<Rightarrow> None"
  by unfold_locales (auto simp: encode_ok decode_encoded)

text \<open>Frames are unambiguous: two datagrams with payloads within the bound have the same encoding
  only if they are the same datagram.\<close>

theorem encodeDatagram_injective:
  assumes "length p \<le> 65507" "length q \<le> 65507" "encodeDatagram f p = encodeDatagram g q"
  shows "f = g \<and> p = q"
  using dgram.enc_inj [of "(f, p)" "(g, q)"] assms by (simp add: maxUDPPayloadSize_def)

theorem encodeDatagram_injective_witness:
  "encodeDatagram 1 [] \<noteq> encodeDatagram 2 []"
  using encodeDatagram_injective [of "[]" "[]" 1 2] by auto

section \<open>The QUIC backhaul handshake\<close>

record quicBackhaulControlMessage = AccessToken :: string

record quicBackhaulControlResponse =
  OK :: bool
  Error :: string

definition quicBackhaulRejection_Error :: "string \<Rightarrow> string" where
  "quicBackhaulRejection_Error c = (let c' = trim_space c in
     ''QUIC backhaul rejected: '' @ (if c' = [] then ''rejected'' else c'))"

text \<open>The fields of \<open>tls.Config\<close> that the client sets; certificate pools are opaque.\<close>

record 'pool tls_config =
  MinVersion :: "16 word"
  NextProtos :: "string list"
  RootCAs :: "'pool option"
  ServerName :: string
  InsecureSkipVerify :: bool

definition VersionTLS12 :: "16 word" where "VersionTLS12 = 0x0303"
definition VersionTLS13 :: "16 word" where "VersionTLS13 = 0x0304"

definition zero_tls_config :: "'pool tls_config" where
  "zero_tls_config = \<lparr>MinVersion = 0, NextProtos = [], RootCAs = None, ServerName = [],
     InsecureSkipVerify = False\<rparr>"

definition quicClientTLSConfig :: "'pool tls_config option \<Rightarrow> 'pool tls_config" where
  "quicClientTLSConfig base =
     (let config = (case base of None \<Rightarrow> zero_tls_config | Some b \<Rightarrow> b);
          config = config\<lparr>NextProtos := [quicBackhaulALPN]\<rparr>
      in if MinVersion config < VersionTLS13 then config\<lparr>MinVersion := VersionTLS13\<rparr> else config)"

record quic_config =
  EnableDatagrams :: bool
  KeepAlivePeriod :: duration
  MaxIdleTimeout :: duration
  MaxIncomingStreams :: int

definition quicClientConfig :: quic_config where
  "quicClientConfig = \<lparr>EnableDatagrams = True, KeepAlivePeriod = quicBackhaulKeepAlive,
     MaxIdleTimeout = quicBackhaulIdleTimeout, MaxIncomingStreams = 16\<rparr>"

text \<open>The calls made on the QUIC library, in order, with the arguments the source passes.\<close>

datatype 'pool quic_call =
    DialAddr string "'pool tls_config" quic_config
  | OpenStreamSync
  | SetDeadline "duration option"
  | EncodeControl quicBackhaulControlMessage
  | DecodeControl nat
  | StreamClose
  | CloseWithError nat string

text \<open>The outcomes of those calls: the library and the peer decide them.\<close>

record quic_peer =
  dial_outcome :: "go_error option"
  open_outcome :: "go_error option"
  write_outcome :: "go_error option"
  read_outcome :: "go_error + quicBackhaulControlResponse"

definition dialQUICBackhaul ::
  "bool \<Rightarrow> string \<Rightarrow> 'pool tls_config option \<Rightarrow> string \<Rightarrow> quic_peer \<Rightarrow>
     go_error option \<times> 'pool quic_call list" where
  "dialQUICBackhaul ctx_nil address baseTLS accessToken peer =
    (if ctx_nil then (Some (ErrorText ''QUIC backhaul context is nil''), [])
     else if trim_space accessToken = [] then
       (Some (ErrorText ''QUIC backhaul access token is required''), [])
     else if split_host_port address = None then
       (Some (Wrapped ''invalid QUIC backhaul address'' (NetworkError (ErrorText ''address''))), [])
     else let dial = DialAddr address (quicClientTLSConfig baseTLS) quicClientConfig in
     (case dial_outcome peer of
        Some e \<Rightarrow> (Some (Wrapped ''dial QUIC backhaul'' e), [dial])
      | None \<Rightarrow>
     (case open_outcome peer of
        Some e \<Rightarrow> (Some (Wrapped ''open QUIC backhaul control stream'' e),
          [dial, OpenStreamSync, CloseWithError 1 ''control stream open failed''])
      | None \<Rightarrow>
        let sent = [dial, OpenStreamSync, SetDeadline (Some quicBackhaulControlTimeout),
              EncodeControl \<lparr>AccessToken = accessToken\<rparr>] in
     (case write_outcome peer of
        Some e \<Rightarrow> (Some (Wrapped ''write QUIC backhaul control message'' e),
          sent @ [CloseWithError 1 ''control write failed''])
      | None \<Rightarrow>
        let received = sent @ [DecodeControl quicBackhaulControlBodyLimit] in
     (case read_outcome peer of
        Inl e \<Rightarrow> (Some (Wrapped ''read QUIC backhaul control response'' e),
          received @ [CloseWithError 1 ''control response read failed''])
      | Inr response \<Rightarrow>
        let closed = received @ [SetDeadline None, StreamClose] in
        if \<not> OK response then
          (Some (QuicBackhaulRejection (Error response)),
           closed @ [CloseWithError 1 (quicBackhaulRejection_Error (Error response))])
        else (None, closed))))))"

fun is_conn_close :: "'pool quic_call \<Rightarrow> bool" where
  "is_conn_close (CloseWithError _ _) = True" | "is_conn_close _ = False"

fun is_dial :: "'pool quic_call \<Rightarrow> bool" where
  "is_dial (DialAddr _ _ _) = True" | "is_dial _ = False"

text \<open>A datagram connection is never leaked and never used unauthorised: the connection handed to
  the caller is open and was accepted by the relay after the token was sent, and after every failure
  that follows a successful dial it has been closed exactly once, as the last call.\<close>

theorem dialQUICBackhaul_connection_lifetime:
  "case dialQUICBackhaul ctx_nil address base token peer of
     (None, calls) \<Rightarrow> filter is_conn_close calls = [] \<and> length (filter is_dial calls) = 1 \<and>
        EncodeControl \<lparr>AccessToken = token\<rparr> \<in> set calls \<and> (\<exists>r. read_outcome peer = Inr r \<and> OK r)
   | (Some e, calls) \<Rightarrow>
        if filter is_dial calls \<noteq> [] \<and> dial_outcome peer = None
        then length (filter is_conn_close calls) = 1 \<and> is_conn_close (last calls)
        else filter is_conn_close calls = []"
  unfolding dialQUICBackhaul_def Let_def by (simp split: option.split sum.split)

text \<open>The QUIC connection always negotiates the tunnel protocol over TLS 1.3 or later and keeps
  the certificate roots and the server name of the control connection.\<close>

theorem quicClientTLSConfig_hardened:
  "MinVersion (quicClientTLSConfig base) \<ge> VersionTLS13 \<and>
   NextProtos (quicClientTLSConfig base) = [quicBackhaulALPN] \<and>
   (\<forall>b. base = Some b \<longrightarrow> RootCAs (quicClientTLSConfig base) = RootCAs b \<and>
      ServerName (quicClientTLSConfig base) = ServerName b \<and>
      InsecureSkipVerify (quicClientTLSConfig base) = InsecureSkipVerify b \<and>
      MinVersion (quicClientTLSConfig base) = max (MinVersion b) VersionTLS13)"
  by (cases base) (auto simp: quicClientTLSConfig_def Let_def max_def)

theorem quicClientTLSConfig_hardened_witness:
  "MinVersion (quicClientTLSConfig (Some (zero_tls_config :: unit tls_config))) = VersionTLS13"
  using quicClientTLSConfig_hardened [of "Some (zero_tls_config :: unit tls_config)"]
  by (simp add: zero_tls_config_def VersionTLS13_def)

end
