(* ===== verification/Identity.thy ===== *)
theory Identity
  imports RelayErrors
begin

text \<open>
  Identities (\<open>src/identity.go\<close>): names, private keys, Ethereum addresses with their EIP-55
  checksum, the persisted form and message signing.

  The cryptography (secp256k1, Keccak-256) is third-party code: it is an argument of the operations,
  a record of functions, and \<open>crypto_laws\<close> lists what its documentation promises. The JSON
  text of an identity file is handled by \<open>encoding/json\<close>, an argument too.

  The lemmas show that names and addresses are canonical, that a checksummed address is accepted
  unchanged, that a persisted identity is read back exactly, and that every identity a caller can
  obtain has its public fields derived from its private key.
\<close>

section \<open>The cryptographic library\<close>

record 'key crypto =
  PrivKeyFromBytes :: "byte list \<Rightarrow> 'key"
  Serialize :: "'key \<Rightarrow> byte list"
  SerializeCompressed :: "'key \<Rightarrow> byte list"
  SerializeUncompressed :: "'key \<Rightarrow> byte list"
  SetByteSlice_overflow :: "byte list \<Rightarrow> bool"
  SetByteSlice_IsZero :: "byte list \<Rightarrow> bool"
  SignCompact :: "'key \<Rightarrow> byte list \<Rightarrow> byte list"
  LegacyKeccak256 :: "byte list \<Rightarrow> byte list"

text \<open>The serialised scalar of a key is 32 bytes, in range and not zero; public keys take 33 and 65
  bytes, digests 32 and compact signatures 65; serialising a parsed key gives back the bytes.\<close>

definition valid_scalar :: "'key crypto \<Rightarrow> byte list \<Rightarrow> bool" where
  "valid_scalar c bs \<longleftrightarrow> length bs = 32 \<and> \<not> SetByteSlice_overflow c bs \<and> \<not> SetByteSlice_IsZero c bs"

definition crypto_laws :: "'key crypto \<Rightarrow> bool" where
  "crypto_laws c \<longleftrightarrow>
     (\<forall>bs. valid_scalar c bs \<longrightarrow> Serialize c (PrivKeyFromBytes c bs) = bs) \<and>
     (\<forall>k. length (SerializeCompressed c k) = 33) \<and>
     (\<forall>k. length (SerializeUncompressed c k) = 65) \<and>
     (\<forall>m. length (LegacyKeccak256 c m) = 32) \<and>
     (\<forall>k m. length (SignCompact c k m) = 65)"

section \<open>Names and fixed-size hexadecimal values\<close>

definition bytes_of :: "string \<Rightarrow> byte list" where
  "bytes_of s = map (\<lambda>ch. of_nat (code ch)) s"

definition identity_name_char :: "char \<Rightarrow> bool" where
  "identity_name_char ch \<longleftrightarrow> is_lower ch \<or> is_digit ch \<or> ch = CHR ''-''"

definition normalizeIdentityName :: "string \<Rightarrow> go_error + string" where
  "normalizeIdentityName raw =
     (let nm = to_lower (trim_space raw) in
      if length nm = 0 then Inl (ErrorText ''identity name is required'')
      else if length nm > 63 then
        Inl (ErrorText ''identity name must be at most 63 ASCII characters'')
      else if hd nm = CHR ''-'' \<or> last nm = CHR ''-'' then
        Inl (ErrorText ''identity name must not begin or end with a hyphen'')
      else if \<not> list_all identity_name_char nm then
        Inl (ErrorText ''identity name must be a single ASCII DNS label containing only letters, digits, and hyphens'')
      else Inr nm)"

text \<open>The optional \<open>0x\<close> or \<open>0X\<close> in front of hexadecimal text.\<close>

fun strip_0x :: "string \<Rightarrow> string" where
  "strip_0x (a # b # s) = (if a = CHR ''0'' \<and> (b = CHR ''x'' \<or> b = CHR ''X'') then s else a # b # s)"
| "strip_0x s = s"

definition hex_error :: go_error where
  "hex_error = ErrorText ''encoding/hex: invalid byte''"

definition normalizeFixedHex :: "string \<Rightarrow> nat \<Rightarrow> string \<Rightarrow> go_error + string" where
  "normalizeFixedHex raw n field =
     (let normalized = strip_0x (trim_space raw) in
      if length normalized \<noteq> n * 2 then
        Inl (ErrorText (field @ '' must encode exactly '' @ format_uint n @ '' bytes''))
      else (case hex_decode normalized of
          None \<Rightarrow> Inl (Wrapped (field @ '' is not valid hexadecimal'') hex_error)
        | Some _ \<Rightarrow> Inr (to_lower normalized)))"

definition parsePrivateKey :: "'key crypto \<Rightarrow> string \<Rightarrow> go_error + 'key" where
  "parsePrivateKey c raw =
     (let normalized = strip_0x (trim_space raw) in
      if length normalized \<noteq> 64 then
        Inl (ErrorText ''identity private_key must encode exactly 32 bytes'')
      else (case hex_decode normalized of
          None \<Rightarrow> Inl (Wrapped ''identity private_key is not valid hexadecimal'' hex_error)
        | Some serialized \<Rightarrow>
            if SetByteSlice_overflow c serialized \<or> SetByteSlice_IsZero c serialized then
              Inl (ErrorText ''identity private_key must be in the secp256k1 scalar range'')
            else Inr (PrivKeyFromBytes c serialized)))"

section \<open>Ethereum addresses\<close>

text \<open>One step of the loop of \<open>checksumEthereumAddress\<close>: the nibble of the digest at the position
  of a letter decides its case. A digest has 32 bytes, so the index is in range.\<close>

definition checksum_nibble :: "byte list \<Rightarrow> nat \<Rightarrow> nat" where
  "checksum_nibble checksum i =
     (let b = unat (checksum ! (i div 2)) in if i mod 2 = 0 then b div 16 else b mod 16)"

definition checksum_char :: "byte list \<Rightarrow> nat \<Rightarrow> char \<Rightarrow> char" where
  "checksum_char checksum i ch =
     (if code ch < code CHR ''a'' \<or> code ch > code CHR ''f'' then ch
      else if checksum_nibble checksum i \<ge> 8 then upper_char ch else ch)"

definition checksumEthereumAddress :: "'key crypto \<Rightarrow> string \<Rightarrow> string" where
  "checksumEthereumAddress c lower =
     (let checksum = LegacyKeccak256 c (bytes_of lower)
      in ''0x'' @ map (\<lambda>(i, ch). checksum_char checksum i ch) (enumerate 0 lower))"

definition normalizeEthereumAddress :: "'key crypto \<Rightarrow> string \<Rightarrow> go_error + string" where
  "normalizeEthereumAddress c raw =
     (let normalized = strip_0x (trim_space raw) in
      case normalizeFixedHex raw 20 ''Ethereum address'' of
        Inl e \<Rightarrow> Inl e
      | Inr lower \<Rightarrow>
          (let canonical = checksumEthereumAddress c lower in
           if normalized \<noteq> lower \<and> normalized \<noteq> to_upper lower \<and> normalized \<noteq> drop 2 canonical
           then Inl (ErrorText ''Ethereum address has an invalid EIP-55 checksum'')
           else Inr canonical))"

definition ethereumAddress :: "'key crypto \<Rightarrow> 'key \<Rightarrow> string" where
  "ethereumAddress c k =
     (let digest = LegacyKeccak256 c (drop 1 (SerializeUncompressed c k))
      in checksumEthereumAddress c (hex_encode (drop (length digest - 20) digest)))"

section \<open>Identities\<close>

record 'key Identity =
  id_name :: string
  id_address :: string
  id_publicKey :: string
  id_privateKey :: string
  id_key :: "'key option"

definition zero_Identity :: "'key Identity" where
  "zero_Identity = \<lparr>id_name = [], id_address = [], id_publicKey = [], id_privateKey = [], id_key = None\<rparr>"

definition identityFromKey :: "'key crypto \<Rightarrow> string \<Rightarrow> 'key \<Rightarrow> 'key Identity" where
  "identityFromKey c nm k =
     \<lparr>id_name = nm, id_address = ethereumAddress c k,
      id_publicKey = hex_encode (SerializeCompressed c k),
      id_privateKey = hex_encode (Serialize c k), id_key = Some k\<rparr>"

text \<open>\<open>GenerateIdentity\<close>; the outcome of \<open>GeneratePrivateKey\<close> is an argument.\<close>

definition GenerateIdentity :: "'key crypto \<Rightarrow> go_error + 'key \<Rightarrow> string \<Rightarrow> go_error + 'key Identity" where
  "GenerateIdentity c generated nm =
     (case normalizeIdentityName nm of
        Inl e \<Rightarrow> Inl e
      | Inr normalizedName \<Rightarrow>
          (case generated of
             Inl e \<Rightarrow> Inl (Wrapped ''generate secp256k1 private key'' e)
           | Inr k \<Rightarrow> Inr (identityFromKey c normalizedName k)))"

definition IdentityFromPrivateKey :: "'key crypto \<Rightarrow> string \<Rightarrow> string \<Rightarrow> go_error + 'key Identity" where
  "IdentityFromPrivateKey c nm privateKeyHex =
     (case normalizeIdentityName nm of
        Inl e \<Rightarrow> Inl e
      | Inr normalizedName \<Rightarrow>
          (case parsePrivateKey c privateKeyHex of
             Inl e \<Rightarrow> Inl e
           | Inr k \<Rightarrow> Inr (identityFromKey c normalizedName k)))"

text \<open>The fields of an identity document that the code reads; an absent field is empty.\<close>

record storedIdentity =
  st_name :: string
  st_address :: string
  st_public_key :: string
  st_private_key :: string
  st_mnemonic :: string

definition MarshalJSON :: "(storedIdentity \<Rightarrow> string) \<Rightarrow> 'key Identity \<Rightarrow> go_error + string" where
  "MarshalJSON json_marshal i =
     (if id_key i = None \<or> id_name i = [] \<or> id_address i = [] \<or> id_publicKey i = [] \<or> id_privateKey i = []
      then Inl (ErrorText ''cannot marshal an uninitialized identity'')
      else Inr (json_marshal \<lparr>st_name = id_name i, st_address = id_address i,
        st_public_key = id_publicKey i, st_private_key = id_privateKey i, st_mnemonic = []\<rparr>))"

text \<open>The checks of \<open>UnmarshalJSON\<close> on a parsed document.\<close>

definition checkStored :: "'key crypto \<Rightarrow> storedIdentity \<Rightarrow> go_error + 'key Identity" where
  "checkStored c stored =
     (if trim_space (st_private_key stored) = [] then
        (if trim_space (st_mnemonic stored) \<noteq> []
         then Inl (ErrorText ''unsupported identity format: mnemonic without private_key'')
         else Inl (ErrorText ''identity private_key is required''))
      else (case IdentityFromPrivateKey c (st_name stored) (st_private_key stored) of
        Inl e \<Rightarrow> Inl e
      | Inr candidate \<Rightarrow>
          (case (if st_public_key stored = [] then Inr (id_publicKey candidate)
                 else normalizeFixedHex (st_public_key stored) 33 ''identity public_key'') of
             Inl e \<Rightarrow> Inl e
           | Inr publicKey \<Rightarrow>
               if publicKey \<noteq> id_publicKey candidate
               then Inl (ErrorText ''identity public_key does not match private_key'')
               else
          (case (if st_address stored = [] then Inr (to_lower (trim_prefix (id_address candidate) ''0x''))
                 else normalizeFixedHex (st_address stored) 20 ''identity address'') of
             Inl e \<Rightarrow> Inl e
           | Inr addr \<Rightarrow>
               if addr \<noteq> to_lower (trim_prefix (id_address candidate) ''0x'')
               then Inl (ErrorText ''identity address does not match private_key'')
               else Inr candidate))))"

text \<open>\<open>UnmarshalJSON\<close> on a receiver (\<open>None\<close> is the nil pointer): the error and the receiver
  afterwards.\<close>

definition UnmarshalJSON :: "'key crypto \<Rightarrow> (string \<Rightarrow> go_error + storedIdentity) \<Rightarrow>
    'key Identity option \<Rightarrow> string \<Rightarrow> go_error option \<times> 'key Identity option" where
  "UnmarshalJSON c json_unmarshal receiver text =
     (case receiver of
        None \<Rightarrow> (Some (ErrorText ''cannot unmarshal identity into a nil receiver''), None)
      | Some i \<Rightarrow>
          (case json_unmarshal text of
             Inl e \<Rightarrow> (Some (Wrapped ''parse identity JSON'' e), Some i)
           | Inr stored \<Rightarrow>
               (case checkStored c stored of
                  Inl e \<Rightarrow> (Some e, Some i)
                | Inr candidate \<Rightarrow> (None, Some candidate))))"

text \<open>\<open>ParseIdentity\<close>: \<open>json.Unmarshal\<close> checks the syntax of the whole document (\<open>json_check\<close>)
  before it calls the method.\<close>

definition ParseIdentity :: "'key crypto \<Rightarrow> (string \<Rightarrow> go_error option) \<Rightarrow>
    (string \<Rightarrow> go_error + storedIdentity) \<Rightarrow> string \<Rightarrow> go_error + 'key Identity" where
  "ParseIdentity c json_check json_unmarshal text =
     (case json_check text of
        Some e \<Rightarrow> Inl e
      | None \<Rightarrow>
          (case UnmarshalJSON c json_unmarshal (Some zero_Identity) text of
             (Some e, _) \<Rightarrow> Inl e
           | (None, Some i) \<Rightarrow> Inr i
           | (None, None) \<Rightarrow> Inr zero_Identity))"

definition signEthereumPersonalMessage :: "'key crypto \<Rightarrow> 'key Identity \<Rightarrow> string \<Rightarrow> go_error + string" where
  "signEthereumPersonalMessage c i message =
     (case id_key i of
        None \<Rightarrow> Inl (ErrorText ''cannot sign with an uninitialized identity'')
      | Some k \<Rightarrow>
          (let pre = CHR 0x19 # ''Ethereum Signed Message:'' @ CHR 0x0A # format_uint (length message);
               digest = LegacyKeccak256 c (bytes_of pre @ bytes_of message);
               compact = SignCompact c k digest
           in Inr (''0x'' @ hex_encode (take 64 (drop 1 compact) @ [hd compact]))))"

section \<open>Lemmas on names and hexadecimal text\<close>

lemma identity_name_char_props:
  "identity_name_char ch \<Longrightarrow> is_graphic ch \<and> is_ascii ch \<and> \<not> is_upper ch"
  by (auto simp: identity_name_char_def char_class_defs)

lemma name_chars_fixed:
  assumes "list_all identity_name_char nm"
  shows "trim_space nm = nm" "to_lower nm = nm"
proof -
  have "list_all is_graphic nm" "list_all is_ascii nm" "list_all (\<lambda>ch. \<not> is_upper ch) nm"
    using assms identity_name_char_props by (auto simp: list_all_iff)
  then show "trim_space nm = nm" "to_lower nm = nm"
    by (simp_all add: trim_space_all_graphic to_lower_fixed)
qed

definition valid_identity_name :: "string \<Rightarrow> bool" where
  "valid_identity_name nm \<longleftrightarrow> nm \<noteq> [] \<and> length nm \<le> 63 \<and> hd nm \<noteq> CHR ''-'' \<and> last nm \<noteq> CHR ''-'' \<and>
     list_all identity_name_char nm"

lemma normalizeIdentityName_valid: "normalizeIdentityName raw = Inr nm \<Longrightarrow> valid_identity_name nm"
  by (auto simp: normalizeIdentityName_def valid_identity_name_def Let_def split: if_splits)

lemma valid_name_fixed: "valid_identity_name nm \<Longrightarrow> normalizeIdentityName nm = Inr nm"
  by (simp add: normalizeIdentityName_def valid_identity_name_def name_chars_fixed Let_def not_less)

interpretation idname: normaliser normalizeIdentityName
  by unfold_locales (simp add: normalizeIdentityName_valid valid_name_fixed)

lemma hex_text:
  assumes "list_all is_hex_digit s"
  shows "list_all is_graphic s" "list_all is_ascii s"
  using assms is_hex_digit_graphic is_graphic_ascii by (auto simp: list_all_iff)

lemma hex_lower: "list_all is_hex_digit s \<Longrightarrow> to_lower s = map lower_char s"
  by (simp add: to_lower_ascii hex_text)

lemma not_hex_x: "\<not> is_hex_digit CHR ''x''" "\<not> is_hex_digit CHR ''X''"
  by (simp_all add: char_class_defs)

lemma strip_0x_hex: "list_all is_hex_digit s \<Longrightarrow> strip_0x s = s"
  using not_hex_x by (cases s rule: strip_0x.cases) auto

lemma trim_hex: "list_all is_hex_digit s \<Longrightarrow> trim_space s = s"
  by (simp add: trim_space_all_graphic hex_text)

lemma trim_0x_hex: "list_all is_hex_digit s \<Longrightarrow> trim_space (CHR ''0'' # CHR ''x'' # s) = CHR ''0'' # CHR ''x'' # s"
  by (simp add: trim_space_all_graphic hex_text is_graphic_def)

lemma hex_decode_ok:
  "list_all is_hex_digit s \<Longrightarrow> length s = n * 2 \<Longrightarrow> \<exists>bs. hex_decode s = Some bs"
  by (simp add: hex_decode_Some_iff)

lemma fixedHex_Inr:
  "normalizeFixedHex raw n field = Inr h \<longleftrightarrow>
     (let s = strip_0x (trim_space raw) in length s = n * 2 \<and> list_all is_hex_digit s \<and> h = map lower_char s)"
proof -
  define s where "s = strip_0x (trim_space raw)"
  have "(\<exists>bs. hex_decode s = Some bs) \<longleftrightarrow> list_all is_hex_digit s" if "length s = n * 2"
    using that by (simp add: hex_decode_Some_iff)
  then show ?thesis
    by (auto simp: normalizeFixedHex_def Let_def hex_lower simp flip: s_def split: option.splits)
qed

text \<open>An accepted identity name is a lower-case DNS label of 1 to 63 characters without a hyphen at
  either end, and exactly these labels are left alone.\<close>

theorem normalizeIdentityName_canonical_form:
  "(\<exists>raw. normalizeIdentityName raw = Inr nm) \<longleftrightarrow>
     nm \<noteq> [] \<and> length nm \<le> 63 \<and> hd nm \<noteq> CHR ''-'' \<and> last nm \<noteq> CHR ''-'' \<and>
     (\<forall>i < length nm. is_lower (nm ! i) \<or> is_digit (nm ! i) \<or> nm ! i = CHR ''-'')"
proof -
  have "(\<exists>raw. normalizeIdentityName raw = Inr nm) \<longleftrightarrow> valid_identity_name nm"
    using idname.canonical_iff normalizeIdentityName_valid valid_name_fixed by blast
  then show ?thesis by (simp add: valid_identity_name_def list_all_length identity_name_char_def)
qed

theorem normalizeIdentityName_canonical_form_witness:
  "\<exists>raw. normalizeIdentityName raw = Inr ''a-1''"
  using normalizeIdentityName_canonical_form [of "''a-1''"]
  by (simp add: All_less_Suc2 numeral_3_eq_3 is_lower_def is_digit_def)

section \<open>Lemmas on addresses\<close>

definition checksum_body :: "'key crypto \<Rightarrow> string \<Rightarrow> string" where
  "checksum_body c lower =
     map (\<lambda>(i, ch). checksum_char (LegacyKeccak256 c (bytes_of lower)) i ch) (enumerate 0 lower)"

lemma checksum_eq: "checksumEthereumAddress c lower = CHR ''0'' # CHR ''x'' # checksum_body c lower"
  by (simp add: checksumEthereumAddress_def checksum_body_def)

lemma lower_checksum_char: "lower_char (checksum_char d i ch) = lower_char ch"
  by (simp add: checksum_char_def)

lemma hex_checksum_char: "is_hex_digit (checksum_char d i ch) \<longleftrightarrow> is_hex_digit ch"
  by (simp add: checksum_char_def)

lemma length_checksum_body [simp]: "length (checksum_body c lower) = length lower"
  by (simp add: checksum_body_def)

lemma checksum_body_nth:
  "i < length lower \<Longrightarrow>
   checksum_body c lower ! i = checksum_char (LegacyKeccak256 c (bytes_of lower)) i (lower ! i)"
  by (simp add: checksum_body_def nth_enumerate_eq)

lemma lower_checksum_body: "map lower_char (checksum_body c lower) = map lower_char lower"
  by (rule nth_equalityI) (simp_all add: checksum_body_nth lower_checksum_char)

lemma hex_checksum_body: "list_all is_hex_digit (checksum_body c lower) = list_all is_hex_digit lower"
  by (simp add: list_all_length checksum_body_nth hex_checksum_char)

text \<open>Lower-case hexadecimal text of an address.\<close>

definition address_text :: "string \<Rightarrow> bool" where
  "address_text lower \<longleftrightarrow> length lower = 40 \<and> list_all is_hex_digit lower \<and> list_all (\<lambda>ch. \<not> is_upper ch) lower"

lemma address_text_lower: "address_text lower \<Longrightarrow> map lower_char lower = lower"
  by (simp add: address_text_def list_all_iff map_idI)

lemma checksum_index_in_range:
  "crypto_laws c \<Longrightarrow> address_text lower \<Longrightarrow> i < length lower \<Longrightarrow>
   i div 2 < length (LegacyKeccak256 c (bytes_of lower))"
  by (simp add: crypto_laws_def address_text_def)

lemma fixedHex_address: "normalizeFixedHex raw 20 field = Inr h \<Longrightarrow> address_text h"
proof -
  have "list_all (\<lambda>ch. \<not> is_upper ch) (map lower_char s)" for s by (simp add: list_all_iff)
  then show "normalizeFixedHex raw 20 field = Inr h \<Longrightarrow> address_text h"
    by (auto simp: fixedHex_Inr address_text_def Let_def list_all_iff)
qed

text \<open>The text \<open>s\<close>, with or without a prefix, stands for the address \<open>lower\<close>.\<close>

lemma fixedHex_spelling:
  assumes "address_text lower" "map lower_char s = lower"
  shows "strip_0x (trim_space s) = s" "normalizeFixedHex s 20 field = Inr lower"
    "strip_0x (trim_space (CHR ''0'' # CHR ''x'' # s)) = s"
    "normalizeFixedHex (CHR ''0'' # CHR ''x'' # s) 20 field = Inr lower"
proof -
  have "list_all is_hex_digit s" "length s = 40"
    using assms by (auto simp: address_text_def list_all_iff)
  then show "strip_0x (trim_space s) = s" "normalizeFixedHex s 20 field = Inr lower"
    "strip_0x (trim_space (CHR ''0'' # CHR ''x'' # s)) = s"
    "normalizeFixedHex (CHR ''0'' # CHR ''x'' # s) 20 field = Inr lower"
    using assms(2) by (simp_all add: fixedHex_Inr trim_hex strip_0x_hex trim_0x_hex)
qed

lemma checksum_accepted:
  assumes "address_text lower"
  shows "normalizeEthereumAddress c (checksumEthereumAddress c lower) = Inr (checksumEthereumAddress c lower)"
proof -
  have "map lower_char (checksum_body c lower) = lower"
    using assms by (simp add: lower_checksum_body address_text_lower)
  from fixedHex_spelling [OF assms this] show ?thesis
    by (simp add: normalizeEthereumAddress_def checksum_eq)
qed

lemma normalizeEthereumAddress_form:
  assumes "normalizeEthereumAddress c raw = Inr a"
  obtains lower where "address_text lower" "a = checksumEthereumAddress c lower"
    "normalizeFixedHex raw 20 ''Ethereum address'' = Inr lower"
    "strip_0x (trim_space raw) \<in> {lower, to_upper lower, drop 2 a}"
  using assms fixedHex_address [of raw]
  by (auto simp: normalizeEthereumAddress_def Let_def split: sum.splits if_splits)

interpretation ethaddr: normaliser "normalizeEthereumAddress c" for c
  by unfold_locales (metis normalizeEthereumAddress_form checksum_accepted)

text \<open>An Ethereum address is accepted in three spellings only, all lower case, all upper case or
  with the EIP-55 checksum, each with or without \<open>0x\<close>; all of them give the checksummed address.\<close>

theorem normalizeEthereumAddress_spellings:
  assumes "length lower = 40" "list_all is_hex_digit lower" "list_all (\<lambda>ch. \<not> is_upper ch) lower"
    "map lower_char s = lower"
  shows "normalizeEthereumAddress c s =
      (if s \<in> {lower, to_upper lower, drop 2 (checksumEthereumAddress c lower)}
       then Inr (checksumEthereumAddress c lower)
       else Inl (ErrorText ''Ethereum address has an invalid EIP-55 checksum'')) \<and>
    normalizeEthereumAddress c (''0x'' @ s) = normalizeEthereumAddress c s"
proof -
  have "address_text lower" using assms by (simp add: address_text_def)
  from fixedHex_spelling [OF this assms(4)] show ?thesis
    by (simp add: normalizeEthereumAddress_def)
qed

text \<open>A normalised address is a fixed point of the normalisation: \<open>0x\<close> and 40 hexadecimal digits
  that spell the input's digits in the checksummed case.\<close>

theorem normalizeEthereumAddress_canonical:
  assumes "normalizeEthereumAddress c raw = Inr a"
  shows "normalizeEthereumAddress c a = Inr a \<and> length a = 42 \<and> take 2 a = ''0x'' \<and>
    list_all is_hex_digit (drop 2 a) \<and>
    map lower_char (drop 2 a) = map lower_char (strip_0x (trim_space raw))"
proof -
  from assms obtain lower where l: "address_text lower" "a = checksumEthereumAddress c lower"
    "normalizeFixedHex raw 20 ''Ethereum address'' = Inr lower"
    by (rule normalizeEthereumAddress_form)
  then have "map lower_char (strip_0x (trim_space raw)) = lower" by (simp add: fixedHex_Inr Let_def)
  moreover have "length lower = 40" "list_all is_hex_digit lower"
    using l(1) by (simp_all add: address_text_def)
  ultimately show ?thesis
    using ethaddr.norm_fixed [OF assms] l(1) unfolding l(2)
    by (simp add: checksum_eq lower_checksum_body address_text_lower hex_checksum_body)
qed

text \<open>A concrete library for the witnesses: a key is its bytes, and digests, public keys and
  signatures are constant.\<close>

definition sample_crypto :: "byte list crypto" where
  "sample_crypto = \<lparr>PrivKeyFromBytes = id, Serialize = id, SerializeCompressed = \<lambda>_. replicate 33 2,
     SerializeUncompressed = \<lambda>_. replicate 65 4, SetByteSlice_overflow = \<lambda>_. False,
     SetByteSlice_IsZero = list_all (\<lambda>b. b = 0), SignCompact = \<lambda>_ _. replicate 65 27,
     LegacyKeccak256 = \<lambda>_. replicate 32 0x9f\<rparr>"

lemma sample_laws: "crypto_laws sample_crypto"
  by (simp add: crypto_laws_def sample_crypto_def)

lemma zeros_address: "address_text (replicate 40 CHR ''0'')"
  by (simp add: address_text_def list_all_iff char_class_defs)

theorem normalizeEthereumAddress_spellings_witness:
  "normalizeEthereumAddress sample_crypto (replicate 40 CHR ''0'') =
     Inr (checksumEthereumAddress sample_crypto (replicate 40 CHR ''0''))"
  using normalizeEthereumAddress_spellings [of "replicate 40 CHR ''0''" "replicate 40 CHR ''0''" sample_crypto]
    zeros_address address_text_lower [OF zeros_address] by (simp add: address_text_def)

theorem normalizeEthereumAddress_canonical_witness:
  "length (checksumEthereumAddress sample_crypto (replicate 40 CHR ''0'')) = 42"
  using normalizeEthereumAddress_canonical [OF checksum_accepted [OF zeros_address, of sample_crypto]]
  by simp

section \<open>Properties of identities\<close>

text \<open>A well-formed identity: a canonical name and every other field derived from a valid key.\<close>

definition wf_identity :: "'key crypto \<Rightarrow> 'key Identity \<Rightarrow> bool" where
  "wf_identity c i \<longleftrightarrow> (\<exists>bs. valid_scalar c bs \<and> valid_identity_name (id_name i) \<and>
     i = identityFromKey c (id_name i) (PrivKeyFromBytes c bs))"

lemma parsePrivateKey_Inr:
  assumes "parsePrivateKey c raw = Inr k"
  obtains bs where "valid_scalar c bs" "k = PrivKeyFromBytes c bs"
  using assms by (auto simp: parsePrivateKey_def valid_scalar_def Let_def dest: hex_decode_length
      split: if_splits option.splits)

lemma parsePrivateKey_encoded:
  "valid_scalar c bs \<Longrightarrow> parsePrivateKey c (hex_encode bs) = Inr (PrivKeyFromBytes c bs)"
  by (simp add: parsePrivateKey_def valid_scalar_def trim_hex strip_0x_hex hex_encode_digits)

lemma IdentityFromPrivateKey_wf:
  assumes "IdentityFromPrivateKey c nm raw = Inr i"
  shows "wf_identity c i"
proof -
  from assms obtain n k where *: "normalizeIdentityName nm = Inr n" "parsePrivateKey c raw = Inr k"
    "i = identityFromKey c n k"
    by (auto simp: IdentityFromPrivateKey_def split: sum.splits)
  moreover from *(2) obtain bs where "valid_scalar c bs" "k = PrivKeyFromBytes c bs"
    by (rule parsePrivateKey_Inr)
  ultimately show ?thesis
    using normalizeIdentityName_valid by (auto simp: wf_identity_def identityFromKey_def)
qed

lemma checkStored_candidate:
  "checkStored c st = Inr i \<Longrightarrow> IdentityFromPrivateKey c (st_name st) (st_private_key st) = Inr i"
  by (auto simp: checkStored_def split: if_splits sum.splits)

lemma digest_address_text:
  assumes "crypto_laws c"
  shows "address_text (hex_encode (drop (length (LegacyKeccak256 c m) - 20) (LegacyKeccak256 c m)))"
  using assms by (simp add: crypto_laws_def address_text_def hex_encode_digits)

lemma ethereumAddress_text:
  assumes "crypto_laws c"
  obtains lower where "address_text lower" "ethereumAddress c k = checksumEthereumAddress c lower"
  using digest_address_text [OF assms] by (auto simp: ethereumAddress_def Let_def)

lemma fixedHex_encoded:
  assumes "length bs = n"
  shows "normalizeFixedHex (hex_encode bs) n field = Inr (hex_encode bs)"
  using assms hex_encode_digits [of bs]
  by (simp add: fixedHex_Inr trim_hex strip_0x_hex Let_def list_all_iff map_idI)

lemma fixedHex_own_address:
  assumes "crypto_laws c"
  shows "normalizeFixedHex (ethereumAddress c k) 20 field =
    Inr (to_lower (trim_prefix (ethereumAddress c k) ''0x''))"
proof -
  obtain lower where l: "address_text lower" "ethereumAddress c k = checksumEthereumAddress c lower"
    using assms by (rule ethereumAddress_text)
  have m: "map lower_char (checksum_body c lower) = lower"
    using l(1) by (simp add: lower_checksum_body address_text_lower)
  have "list_all is_hex_digit (checksum_body c lower)"
    using l(1) by (simp add: hex_checksum_body address_text_def)
  then have "to_lower (trim_prefix (ethereumAddress c k) ''0x'') = lower"
    by (simp add: l(2) checksum_eq trim_prefix_def hex_lower m)
  then show ?thesis using fixedHex_spelling(4) [OF l(1) m] by (simp add: l(2) checksum_eq)
qed

lemma wf_identity_fields:
  assumes "crypto_laws c" "wf_identity c i"
  obtains bs where "valid_scalar c bs" "valid_identity_name (id_name i)"
    "i = identityFromKey c (id_name i) (PrivKeyFromBytes c bs)" "id_privateKey i = hex_encode bs"
proof -
  obtain bs where b: "valid_scalar c bs" "valid_identity_name (id_name i)"
    "i = identityFromKey c (id_name i) (PrivKeyFromBytes c bs)"
    using assms(2) unfolding wf_identity_def by blast
  have "Serialize c (PrivKeyFromBytes c bs) = bs" using assms(1) b(1) by (simp add: crypto_laws_def)
  then have "id_privateKey i = hex_encode bs" by (subst b(3)) (simp add: identityFromKey_def)
  with b show ?thesis by (rule that)
qed

lemma checkStored_own:
  assumes "crypto_laws c" "wf_identity c i"
  shows "checkStored c \<lparr>st_name = id_name i, st_address = id_address i, st_public_key = id_publicKey i,
    st_private_key = id_privateKey i, st_mnemonic = m\<rparr> = Inr i"
proof -
  obtain bs where b: "valid_scalar c bs" "valid_identity_name (id_name i)"
    "i = identityFromKey c (id_name i) (PrivKeyFromBytes c bs)" "id_privateKey i = hex_encode bs"
    using assms by (rule wf_identity_fields)
  have cand: "IdentityFromPrivateKey c (id_name i) (id_privateKey i) = Inr i"
    using b by (simp add: IdentityFromPrivateKey_def valid_name_fixed parsePrivateKey_encoded)
  have priv: "trim_space (id_privateKey i) \<noteq> []"
    using b by (auto simp: trim_hex hex_encode_digits valid_scalar_def dest: arg_cong [where f = length])
  have pub: "normalizeFixedHex (id_publicKey i) 33 field = Inr (id_publicKey i)" for field
    using assms(1) by (subst (1 2) b(3)) (simp add: identityFromKey_def fixedHex_encoded crypto_laws_def)
  have addr: "normalizeFixedHex (id_address i) 20 field = Inr (to_lower (trim_prefix (id_address i) ''0x''))"
    for field
    by (subst (1 2) b(3)) (simp add: identityFromKey_def fixedHex_own_address [OF assms(1)])
  show ?thesis by (simp add: checkStored_def priv cand pub addr)
qed

lemma wf_identity_initialised:
  assumes "crypto_laws c" "wf_identity c i"
  shows "id_key i \<noteq> None" "id_name i \<noteq> []" "id_address i \<noteq> []" "id_publicKey i \<noteq> []" "id_privateKey i \<noteq> []"
proof -
  obtain bs where b: "valid_scalar c bs" "valid_identity_name (id_name i)"
    "i = identityFromKey c (id_name i) (PrivKeyFromBytes c bs)" "id_privateKey i = hex_encode bs"
    using assms by (rule wf_identity_fields)
  let ?k = "PrivKeyFromBytes c bs"
  have f: "id_key i = Some ?k" "id_address i = ethereumAddress c ?k"
    "id_publicKey i = hex_encode (SerializeCompressed c ?k)"
    by (subst b(3), simp add: identityFromKey_def)+
  show "id_key i \<noteq> None" "id_name i \<noteq> []" using f b(2) by (simp_all add: valid_identity_name_def)
  show "id_address i \<noteq> []" by (simp add: f ethereumAddress_def checksum_eq Let_def)
  have "length (SerializeCompressed c ?k) = 33" "length bs = 32"
    using assms(1) b(1) by (simp_all add: crypto_laws_def valid_scalar_def)
  then show "id_publicKey i \<noteq> []" "id_privateKey i \<noteq> []"
    using f b(4) length_hex_encode by (metis list.size(3) mult_eq_0_iff zero_neq_numeral)+
qed

text \<open>Reading a document never yields a half-valid identity: on every error the receiver is
  unchanged, and on success it becomes a well-formed identity made from the document's private key,
  whose public key and address agree with those of the document when it has them.\<close>

theorem UnmarshalJSON_atomic:
  "case UnmarshalJSON c ju (Some i) text of
     (Some e, r) \<Rightarrow> r = Some i
   | (None, r) \<Rightarrow> (\<exists>j st. r = Some j \<and> ju text = Inr st \<and> wf_identity c j \<and>
       IdentityFromPrivateKey c (st_name st) (st_private_key st) = Inr j \<and>
       (st_public_key st = [] \<or> normalizeFixedHex (st_public_key st) 33 ''identity public_key'' = Inr (id_publicKey j)) \<and>
       (st_address st = [] \<or> normalizeFixedHex (st_address st) 20 ''identity address''
          = Inr (to_lower (trim_prefix (id_address j) ''0x''))))"
proof -
  have "wf_identity c j \<and> IdentityFromPrivateKey c (st_name st) (st_private_key st) = Inr j \<and>
      (st_public_key st = [] \<or> normalizeFixedHex (st_public_key st) 33 ''identity public_key'' = Inr (id_publicKey j)) \<and>
      (st_address st = [] \<or> normalizeFixedHex (st_address st) 20 ''identity address''
          = Inr (to_lower (trim_prefix (id_address j) ''0x'')))"
    if "checkStored c st = Inr j" for st j
    using that checkStored_candidate [OF that] IdentityFromPrivateKey_wf [OF checkStored_candidate [OF that]]
    by (simp add: checkStored_def split: if_splits sum.splits)
  then show ?thesis by (simp add: UnmarshalJSON_def split: sum.split)
qed

text \<open>A persisted identity is read back exactly: marshalling a well-formed identity succeeds, and
  parsing the document gives the same identity, private key included.\<close>

theorem identity_persistence_roundtrip:
  assumes "crypto_laws c" "wf_identity c i"
    and json_ok: "\<And>st. json_check (json_marshal st) = None"
    and json_roundtrip: "\<And>st. json_unmarshal (json_marshal st) = Inr st"
  shows "\<exists>text. MarshalJSON json_marshal i = Inr text \<and> ParseIdentity c json_check json_unmarshal text = Inr i"
proof -
  let ?st = "\<lparr>st_name = id_name i, st_address = id_address i, st_public_key = id_publicKey i,
    st_private_key = id_privateKey i, st_mnemonic = []\<rparr>"
  have "MarshalJSON json_marshal i = Inr (json_marshal ?st)"
    using wf_identity_initialised [OF assms(1,2)] by (simp add: MarshalJSON_def)
  moreover have "ParseIdentity c json_check json_unmarshal (json_marshal ?st) = Inr i"
    by (simp add: ParseIdentity_def UnmarshalJSON_def json_ok json_roundtrip checkStored_own [OF assms(1,2)])
  ultimately show ?thesis by blast
qed

text \<open>A document format for the witness: the fields in unary-terminated text.\<close>

fun unary_fields :: "string list \<Rightarrow> string" where
  "unary_fields [] = []"
| "unary_fields (f # fs) = replicate (length f) CHR ''1'' @ CHR ''0'' # f @ unary_fields fs"

fun unary_parse :: "nat \<Rightarrow> string \<Rightarrow> string list" where
  "unary_parse 0 s = []"
| "unary_parse (Suc n) s =
     (let k = length (takeWhile (\<lambda>ch. ch = CHR ''1'') s); r = drop (Suc k) s in take k r # unary_parse n (drop k r))"

lemma unary_roundtrip: "unary_parse (length fs) (unary_fields fs) = fs"
proof (induction fs)
  case (Cons f fs)
  have "takeWhile (\<lambda>ch. ch = CHR ''1'') (unary_fields (f # fs)) = replicate (length f) CHR ''1''"
    by (simp add: takeWhile_append)
  then show ?case using Cons by (simp add: Let_def)
qed simp

definition sample_marshal :: "storedIdentity \<Rightarrow> string" where
  "sample_marshal st = unary_fields [st_name st, st_address st, st_public_key st, st_private_key st, st_mnemonic st]"

definition sample_unmarshal :: "string \<Rightarrow> go_error + storedIdentity" where
  "sample_unmarshal s = (case unary_parse 5 s of
     [a, b, c, d, e] \<Rightarrow> Inr \<lparr>st_name = a, st_address = b, st_public_key = c, st_private_key = d, st_mnemonic = e\<rparr>
   | _ \<Rightarrow> Inl UnexpectedEOF)"

lemma sample_json: "sample_unmarshal (sample_marshal st) = Inr st"
proof -
  let ?fs = "[st_name st, st_address st, st_public_key st, st_private_key st, st_mnemonic st]"
  have "length ?fs = 5" by simp
  then have "unary_parse 5 (sample_marshal st) = ?fs"
    using unary_roundtrip [of ?fs] by (simp only: sample_marshal_def)
  then show ?thesis by (simp add: sample_unmarshal_def)
qed

lemma sample_scalar: "valid_scalar sample_crypto (replicate 32 1)"
  by (simp add: valid_scalar_def sample_crypto_def list_all_iff)

lemma sample_name: "valid_identity_name ''app''"
  by (simp add: valid_identity_name_def identity_name_char_def is_lower_def)

lemma sample_wf: "wf_identity sample_crypto (identityFromKey sample_crypto ''app'' (PrivKeyFromBytes sample_crypto (replicate 32 1)))"
  unfolding wf_identity_def
  by (rule exI [of _ "replicate 32 1"]) (simp add: identityFromKey_def sample_scalar sample_name)

theorem identity_persistence_roundtrip_witness:
  "\<exists>text. ParseIdentity sample_crypto (\<lambda>_. None) sample_unmarshal text =
     Inr (identityFromKey sample_crypto ''app'' (PrivKeyFromBytes sample_crypto (replicate 32 1)))"
  using identity_persistence_roundtrip [OF sample_laws sample_wf, of "\<lambda>_. None" sample_marshal sample_unmarshal]
    sample_json by blast

text \<open>A signature of a personal message is \<open>0x\<close> and 65 bytes in lower-case hexadecimal: the 64
  bytes of the compact signature followed by its recovery byte, over the digest of the length-prefixed
  message; an uninitialised identity cannot sign.\<close>

theorem signEthereumPersonalMessage_form:
  assumes "crypto_laws c"
  shows "case id_key i of
     None \<Rightarrow> (\<exists>e. signEthereumPersonalMessage c i message = Inl e)
   | Some k \<Rightarrow> (\<exists>s r v. signEthereumPersonalMessage c i message = Inr (''0x'' @ hex_encode (r @ [v])) \<and>
       SignCompact c k (LegacyKeccak256 c s) = v # r \<and> length r = 64 \<and>
       s = bytes_of (CHR 0x19 # ''Ethereum Signed Message:'' @ CHR 0x0A # format_uint (length message) @ message))"
proof (cases "id_key i")
  case (Some k)
  define s where "s = bytes_of (CHR 0x19 # ''Ethereum Signed Message:'' @ CHR 0x0A # format_uint (length message) @ message)"
  have len: "length (SignCompact c k (LegacyKeccak256 c s)) = 65" using assms by (simp add: crypto_laws_def)
  then obtain v r where vr: "SignCompact c k (LegacyKeccak256 c s) = v # r"
    by (cases "SignCompact c k (LegacyKeccak256 c s)") simp_all
  with len have r: "length r = 64" by simp
  have "s = bytes_of (CHR 0x19 # ''Ethereum Signed Message:'' @ CHR 0x0A # format_uint (length message)) @ bytes_of message"
    by (simp add: s_def bytes_of_def)
  then have "signEthereumPersonalMessage c i message = Inr (''0x'' @ hex_encode (r @ [v]))"
    using vr r by (simp add: signEthereumPersonalMessage_def Some)
  then show ?thesis using vr r s_def Some by auto
qed (simp add: signEthereumPersonalMessage_def)

theorem signEthereumPersonalMessage_form_witness:
  "\<exists>r v. signEthereumPersonalMessage sample_crypto
      (identityFromKey sample_crypto ''app'' (PrivKeyFromBytes sample_crypto (replicate 32 1))) ''hi''
      = Inr (''0x'' @ hex_encode (r @ [v])) \<and> length r = 64"
  using signEthereumPersonalMessage_form [OF sample_laws,
    of "identityFromKey sample_crypto ''app'' (PrivKeyFromBytes sample_crypto (replicate 32 1))" "''hi''"]
  by (auto simp: identityFromKey_def)

interpretation hexcodec: codec "\<lambda>_. True" hex_encode hex_decode
  by unfold_locales simp

end
