(* ===== verification/ControlApi.thy ===== *)
theory ControlApi
  imports Datagram Identity
begin

text \<open>
  The state of a relay supervisor and its control connection (\<open>src/relay.go\<close>, message types of
  \<open>src/protocol.go\<close>): construction, relay API calls, bounded reads, header tokens and the
  validation of reverse endpoints.

  The HTTP client, \<open>encoding/json\<close> and the wall clock belong to the environment: a record of
  functions and readings that the operations take as an argument. The calls an operation makes on
  other components are appended to \<open>sv_trace\<close>, a history field that the code does not have.

  The lemmas show how an HTTP exchange becomes a result or a classified error, that response bodies
  and response heads are bounded, and what an accepted reverse endpoint guarantees.
\<close>

section \<open>Messages\<close>

definition ProtocolVersion :: string where "ProtocolVersion = ''10''"
definition pathDomain :: string where "pathDomain = ''/sdk/domain''"
definition pathRegisterChallenge :: string where "pathRegisterChallenge = ''/sdk/register/challenge''"
definition pathRegister :: string where "pathRegister = ''/sdk/register''"
definition pathRenew :: string where "pathRenew = ''/sdk/renew''"
definition pathUnregister :: string where "pathUnregister = ''/sdk/unregister''"
definition pathConnect :: string where "pathConnect = ''/sdk/connect''"

definition maxControlResponseBytes :: nat where "maxControlResponseBytes = 1048576"
definition maxReverseResponseHeadBytes :: int where "maxReverseResponseHeadBytes = 1048576"

record apiEnvelope =
  ev_Data :: string
  ev_Error :: "(string \<times> string) option"
  ev_OK :: bool

record identityRef =
  ref_Name :: string
  ref_Address :: string

record challengeResponse =
  ch_ChallengeID :: string
  ch_ExpiresAt :: instant
  ch_SIWEMessage :: string

record reverseEndpoint =
  re_URL :: string
  re_Capability :: string
  re_ExpiresAt :: instant
  re_Overlay :: bool

definition zero_reverseEndpoint :: reverseEndpoint where
  "zero_reverseEndpoint = \<lparr>re_URL = [], re_Capability = [], re_ExpiresAt = 0, re_Overlay = False\<rparr>"

record registerResponse =
  rg_Identity :: identityRef
  rg_ExpiresAt :: instant
  rg_AccessToken :: string
  rg_ReverseEndpoint :: reverseEndpoint
  rg_SNIPort :: int
  rg_UDPAddr :: string
  rg_UDPEnabled :: bool

record renewResponse =
  rn_ExpiresAt :: instant
  rn_AccessToken :: string
  rn_ReverseEndpoint :: reverseEndpoint

text \<open>The bodies of the control requests: \<open>challengeRequest\<close> (identity, lifetime, UDP),
  \<open>registerRequest\<close> (challenge identifier, message, signature), \<open>renewRequest\<close> and
  \<open>unregisterRequest\<close>.\<close>

datatype api_body =
    ChallengeRequest identityRef int bool
  | RegisterRequest string string string
  | RenewRequest string int
  | UnregisterRequest string

datatype http_method = MethodGet | MethodPost

datatype http_request = HttpRequest http_method string "api_body option"

text \<open>A response: the status, the \<open>Retry-After\<close> header (empty when absent), the bytes of the body
  and the error that ends it (\<open>None\<close> is the regular end of file).\<close>

record http_response =
  rsp_status :: int
  rsp_retry_after :: string
  rsp_body :: string
  rsp_body_error :: "go_error option"

section \<open>State\<close>

text \<open>A tenant TLS terminator: handles of the library's server and remote signer, and the signing
  failures recorded per connection binding.\<close>

record tenantTLS =
  tn_server :: nat
  tn_signer :: nat
  tn_errs :: "byte list \<Rightarrow> go_error option"

record relayLease =
  token :: string
  expiresAt :: instant
  publicURL :: string
  udpAddr :: string
  sniPort :: int
  reverse :: reverseEndpoint
  tenant :: "tenantTLS option"
  generation :: "64 word"
  renewing :: bool
  tokenUncertain :: bool

definition zero_lease :: relayLease where
  "zero_lease = \<lparr>token = [], expiresAt = 0, publicURL = [], udpAddr = [], sniPort = 0,
     reverse = zero_reverseEndpoint, tenant = None, generation = 0, renewing = False,
     tokenUncertain = False\<rparr>"

datatype effect =
    Request http_request
  | InstallConn nat
  | CloseConn nat string
  | SendOn nat "byte list"
  | OpenSigner nat
  | CloseSigner nat
  | CloseIdleConnections

record ('k, 'p) relaySupervisor =
  sv_relayURL :: string
  authority :: string
  hostname :: string
  relayPort :: string
  dialAddress :: string
  publicHostname :: string
  identity :: "'k Identity"
  timings :: relayTimings
  udpEnabled :: bool
  controlTLS :: "'p tls_config option"
  certificateChain :: string
  controlClient :: bool
  lease :: relayLease
  nextLeaseGeneration :: "64 word"
  datagramConn :: "nat option"
  sv_trace :: "effect list"

definition record_effect :: "effect \<Rightarrow> ('k, 'p) relaySupervisor \<Rightarrow> ('k, 'p) relaySupervisor" where
  "record_effect e s = s\<lparr>sv_trace := sv_trace s @ [e]\<rparr>"

text \<open>\<open>newRelaySupervisor\<close>. The fields it does not set have their zero values.\<close>

definition newRelaySupervisor ::
  "string \<Rightarrow> 'k Identity \<Rightarrow> relayTimings \<Rightarrow> go_error + ('k, 'p) relaySupervisor" where
  "newRelaySupervisor url ident tm =
     (case url_parse url of
        None \<Rightarrow> Inl (Wrapped ''parse relay URL'' (ErrorText ''invalid URL''))
      | Some parsed \<Rightarrow>
          if url_host parsed = [] \<or> url_hostname parsed = [] then
            Inl (ErrorText ''relay URL has no hostname'')
          else
            (let port = (if url_port parsed = [] then ''443'' else url_port parsed) in
             Inr \<lparr>sv_relayURL = url, authority = url_host parsed, hostname = url_hostname parsed,
               relayPort = url_port parsed, dialAddress = join_host_port (url_hostname parsed) port,
               publicHostname = [], identity = ident, timings = withDefaults tm, udpEnabled = False,
               controlTLS = None, certificateChain = [], controlClient = False, lease = zero_lease,
               nextLeaseGeneration = 0, datagramConn = None, sv_trace = []\<rparr>))"

section \<open>Control API calls\<close>

text \<open>The environment of one API call: the HTTP client's answer, the JSON library and the clock.\<close>

record relay_env =
  http_Do :: "http_request \<Rightarrow> go_error + http_response"
  json_Marshal :: "api_body \<Rightarrow> go_error + string"
  json_Envelope :: "string \<Rightarrow> go_error + apiEnvelope"
  json_Domain :: "string \<Rightarrow> go_error + string"
  json_Challenge :: "string \<Rightarrow> go_error + challengeResponse"
  json_Register :: "string \<Rightarrow> go_error + registerResponse"
  json_Renew :: "string \<Rightarrow> go_error + renewResponse"
  http_ParseTime :: "string \<Rightarrow> instant option"
  time_Now :: instant

text \<open>\<open>readBoundedControlBody\<close>: reading stops one byte after the limit, so an error further on is
  not seen.\<close>

definition readBoundedControlBody :: "string \<Rightarrow> go_error option \<Rightarrow> go_error + string" where
  "readBoundedControlBody body err =
     (if length body > maxControlResponseBytes
      then Inl (Wrapped ''exceeds limit'' ErrControlResponseTooLarge)
      else (case err of
          Some e \<Rightarrow> Inl (Wrapped ''read relay response'' e)
        | None \<Rightarrow> Inr body))"

definition api_error :: "relay_env \<Rightarrow> http_response \<Rightarrow> string \<Rightarrow> string \<Rightarrow> go_error" where
  "api_error env r c m = APIErr \<lparr>StatusCode = rsp_status r, Code = c, Message = m,
     RetryAfter = parseRetryAfter (http_ParseTime env) (time_Now env) (Some (rsp_retry_after r))\<rparr>"

definition success_status :: "int \<Rightarrow> bool" where
  "success_status n \<longleftrightarrow> 200 \<le> n \<and> n < 300"

text \<open>The part of \<open>doAPI\<close> after the response has arrived; \<open>output\<close> is the decoder of the expected
  data, or \<open>None\<close> when the caller wants no data.\<close>

definition api_result :: "relay_env \<Rightarrow> (string \<Rightarrow> go_error + 'o) option \<Rightarrow> http_response \<Rightarrow> go_error + 'o option" where
  "api_result env output r =
     (case readBoundedControlBody (rsp_body r) (rsp_body_error r) of
        Inl e \<Rightarrow>
          if success_status (rsp_status r) then
            (if errors_Is e ErrControlResponseTooLarge then Inl (MalformedRelayResponseError e) else Inl e)
          else Inl (api_error env r [] [])
      | Inr payload \<Rightarrow>
          if \<not> success_status (rsp_status r) then
            (case json_Envelope env payload of
               Inr ev \<Rightarrow>
                 (case ev_Error ev of
                    Some (c, m) \<Rightarrow> Inl (if ev_OK ev then api_error env r [] [] else api_error env r c m)
                  | None \<Rightarrow> Inl (api_error env r [] []))
             | Inl _ \<Rightarrow> Inl (api_error env r [] []))
          else
            (case json_Envelope env payload of
               Inl e \<Rightarrow> Inl (MalformedRelayResponseError (Wrapped ''decode successful relay response'' e))
             | Inr ev \<Rightarrow>
                 if \<not> ev_OK ev then
                   (case ev_Error ev of
                      Some (c, m) \<Rightarrow> Inl (api_error env r c m)
                    | None \<Rightarrow> Inl (api_error env r [] []))
                 else
                   (case output of
                      None \<Rightarrow> Inr None
                    | Some decode \<Rightarrow>
                        if ev_Data ev = [] \<or> trim_space (ev_Data ev) = ''null'' then
                          Inl (MalformedRelayResponseError (ErrorText ''successful relay response has no data''))
                        else (case decode (ev_Data ev) of
                            Inl e \<Rightarrow> Inl (MalformedRelayResponseError (Wrapped ''decode successful relay data'' e))
                          | Inr v \<Rightarrow> Inr (Some v)))))"

definition doAPI :: "relay_env \<Rightarrow> http_method \<Rightarrow> string \<Rightarrow> api_body option \<Rightarrow> (string \<Rightarrow> go_error + 'o) option \<Rightarrow>
    ('k, 'p) relaySupervisor \<Rightarrow> ('k, 'p) relaySupervisor \<times> (go_error + 'o option)" where
  "doAPI env m path body output s =
     (if \<not> controlClient s then (s, Inl (ErrorText ''relay control client is not initialized''))
      else
        (case (case body of None \<Rightarrow> None
               | Some b \<Rightarrow> (case json_Marshal env b of Inl e \<Rightarrow> Some e | Inr _ \<Rightarrow> None)) of
           Some e \<Rightarrow> (s, Inl (Wrapped ''encode relay request'' e))
         | None \<Rightarrow>
             if url_parse (sv_relayURL s @ path) = None then
               (s, Inl (Wrapped ''build relay request'' (ErrorText ''invalid URL'')))
             else
               (let request = HttpRequest m (sv_relayURL s @ path) body;
                    s' = record_effect (Request request) s
                in case http_Do env request of
                     Inl e \<Rightarrow> (s', Inl (Wrapped ''relay request'' e))
                   | Inr r \<Rightarrow> (s', api_result env output r))))"

text \<open>\<open>decodeHTTPAPIError\<close>: the error of a refused upgrade.\<close>

definition decodeHTTPAPIError :: "relay_env \<Rightarrow> http_response \<Rightarrow> go_error" where
  "decodeHTTPAPIError env r =
     (case readBoundedControlBody (rsp_body r) (rsp_body_error r) of
        Inl _ \<Rightarrow> api_error env r [] []
      | Inr payload \<Rightarrow>
          (case json_Envelope env payload of
             Inr ev \<Rightarrow>
               (case ev_Error ev of
                  Some (c, m) \<Rightarrow> if ev_OK ev then api_error env r [] [] else api_error env r c m
                | None \<Rightarrow> api_error env r [] [])
           | Inl _ \<Rightarrow> api_error env r [] []))"

definition unregisterToken :: "relay_env \<Rightarrow> string \<Rightarrow> ('k, 'p) relaySupervisor \<Rightarrow>
    ('k, 'p) relaySupervisor \<times> go_error option" where
  "unregisterToken env tok s =
     (if tok = [] \<or> \<not> controlClient s then (s, None)
      else (case doAPI env MethodPost pathUnregister (Some (UnregisterRequest tok))
                  (None :: (string \<Rightarrow> go_error + unit) option) s of
          (s', Inl e) \<Rightarrow> (s', Some e)
        | (s', Inr _) \<Rightarrow> (s', None)))"

section \<open>Response heads and headers\<close>

text \<open>\<open>reverseResponseHeadReader.Read\<close> on top of a reader: \<open>available\<close> is what the underlying
  reader can deliver now, at most the size of the buffer \<open>p\<close>. The result is the bytes read or the error,
  and the bytes still allowed.\<close>

record headReader =
  hr_remaining :: int
  hr_bounded :: bool

definition head_read :: "headReader \<Rightarrow> nat \<Rightarrow> (nat \<Rightarrow> string \<times> go_error option) \<Rightarrow>
    headReader \<times> (string \<times> go_error option)" where
  "head_read r p underlying =
     (if \<not> hr_bounded r then (r, underlying p)
      else if hr_remaining r = 0 then (r, ([], Some ErrReverseResponseHeadTooLarge))
      else
        (let p' = (if int p > hr_remaining r then nat (hr_remaining r) else p);
             (bytes, err) = underlying p'
         in (r\<lparr>hr_remaining := hr_remaining r - int (length bytes)\<rparr>, (bytes, err))))"

definition disableBound :: "headReader \<Rightarrow> headReader" where
  "disableBound r = r\<lparr>hr_bounded := False\<rparr>"

text \<open>\<open>headerHasToken\<close> on the values of the named header.\<close>

definition headerHasToken :: "string list \<Rightarrow> string \<Rightarrow> bool" where
  "headerHasToken values tok \<longleftrightarrow>
     list_ex (\<lambda>v. list_ex (\<lambda>part. equal_fold (trim_space part) tok) (split_on (CHR '','') v)) values"

section \<open>Reverse endpoints and public URLs\<close>

definition isLocalRelayHostname :: "string \<Rightarrow> bool" where
  "isLocalRelayHostname host =
     (if equal_fold (trim_suffix host ''.'') ''localhost'' then True
      else parse_ip_loopback host)"

definition derivedPublicURL :: "('k, 'p) relaySupervisor \<Rightarrow> string" where
  "derivedPublicURL s =
     (if relayPort s \<noteq> [] \<and> relayPort s \<noteq> ''443''
      then ''https://'' @ join_host_port (publicHostname s) (relayPort s)
      else ''https://'' @ publicHostname s)"

definition validateReverseEndpoint :: "instant \<Rightarrow> ('k, 'p) relaySupervisor \<Rightarrow> reverseEndpoint \<Rightarrow> instant \<Rightarrow>
    go_error + reverseEndpoint" where
  "validateReverseEndpoint now s raw leaseExpiresAt =
     (let endpoint = raw\<lparr>re_URL := trim_space (re_URL raw), re_Capability := trim_space (re_Capability raw)\<rparr> in
      if re_URL endpoint = [] \<or> re_Capability endpoint = [] then
        Inl (ErrorText ''relay returned an incomplete reverse endpoint'')
      else (case url_parse (re_URL endpoint) of
          None \<Rightarrow> Inl (ErrorText ''relay returned an invalid reverse endpoint URL'')
        | Some parsed \<Rightarrow>
            if url_host parsed = [] \<or> \<not> equal_fold (url_scheme parsed) ''https'' then
              Inl (ErrorText ''relay returned an invalid reverse endpoint URL'')
            else if url_user parsed \<noteq> None \<or> url_raw_query parsed \<noteq> [] \<or> url_force_query parsed
                \<or> url_fragment parsed \<noteq> [] \<or> escaped_path parsed \<noteq> pathConnect then
              Inl (ErrorText ''relay returned an invalid reverse endpoint target'')
            else if re_Overlay endpoint then
              Inl (ErrorText ''relay returned an overlay reverse endpoint but overlay is unsupported'')
            else if \<not> equal_fold (url_host parsed) (authority s) then
              Inl (ErrorText (''relay reverse endpoint '' @ re_URL endpoint @ '' does not match the relay URL; align the public URL of the relay with the address clients dial''))
            else if \<not> now < re_ExpiresAt endpoint \<or> leaseExpiresAt < re_ExpiresAt endpoint then
              Inl (ErrorText ''relay returned an invalid reverse endpoint expiry'')
            else Inr (endpoint\<lparr>re_URL := url_string parsed\<rparr>)))"

section \<open>Properties of API calls\<close>

lemma doAPI_ready:
  assumes "controlClient s" "url_parse (sv_relayURL s @ path) \<noteq> None"
    "\<And>b. body = Some b \<Longrightarrow> \<exists>t. json_Marshal env b = Inr t"
  shows "doAPI env m path body output s =
    (record_effect (Request (HttpRequest m (sv_relayURL s @ path) body)) s,
     case http_Do env (HttpRequest m (sv_relayURL s @ path) body) of
       Inl e \<Rightarrow> Inl (Wrapped ''relay request'' e) | Inr r \<Rightarrow> api_result env output r)"
  using assms by (cases body) (auto simp: doAPI_def Let_def split: sum.split)

lemma doAPI_state:
  "fst (doAPI env m path body output s) = s \<or>
   fst (doAPI env m path body output s) = record_effect (Request (HttpRequest m (sv_relayURL s @ path) body)) s"
  by (simp add: doAPI_def Let_def split: option.split sum.split)

lemma record_effect_fields [simp]:
  "sv_relayURL (record_effect e s) = sv_relayURL s" "lease (record_effect e s) = lease s"
  "controlClient (record_effect e s) = controlClient s" "datagramConn (record_effect e s) = datagramConn s"
  "nextLeaseGeneration (record_effect e s) = nextLeaseGeneration s" "identity (record_effect e s) = identity s"
  "timings (record_effect e s) = timings s" "udpEnabled (record_effect e s) = udpEnabled s"
  "authority (record_effect e s) = authority s" "hostname (record_effect e s) = hostname s"
  "publicHostname (record_effect e s) = publicHostname s" "relayPort (record_effect e s) = relayPort s"
  "controlTLS (record_effect e s) = controlTLS s" "certificateChain (record_effect e s) = certificateChain s"
  "sv_trace (record_effect e s) = sv_trace s @ [e]"
  by (simp_all add: record_effect_def)

lemma verdict_malformed:
  assumes "\<not> errors_Is e ErrLeaseRefresh" "errors_As as_api e = None"
  shows "verdict_of (classifyRelayError (Some (MalformedRelayResponseError e)) b) = Terminal"
proof (cases "isTerminalRelayFailure (MalformedRelayResponseError e)")
  case True
  then show ?thesis by (simp add: terminal_fixed verdict_of_def)
next
  case False
  have "errors_As as_malformed (MalformedRelayResponseError e) \<noteq> None" by (simp add: errors_As_def)
  moreover have "\<not> isLostLeaseError (MalformedRelayResponseError e)"
    using assms(2) by (simp add: isLostLeaseError_def errors_As_def)
  moreover have "\<not> errors_Is (MalformedRelayResponseError e) ErrLeaseRefresh"
    using assms(1) by (simp add: errors_Is_def)
  ultimately show ?thesis using False by (simp add: classifyRelayError_def)
qed

lemma readBounded_Inr: "readBoundedControlBody body err = Inr t \<longleftrightarrow>
    err = None \<and> t = body \<and> length body \<le> maxControlResponseBytes"
  by (auto simp: readBoundedControlBody_def split: option.split)

text \<open>An API call succeeds only on a complete response of at most 1 MiB with a 2xx status and an
  envelope marked ok; when the caller expects data, the data is present and is what the decoder made
  of it.\<close>

theorem api_result_success:
  "api_result env output r = Inr v \<longleftrightarrow>
     success_status (rsp_status r) \<and> rsp_body_error r = None \<and> length (rsp_body r) \<le> 1048576 \<and>
     (\<exists>ev. json_Envelope env (rsp_body r) = Inr ev \<and> ev_OK ev \<and>
       (case output of None \<Rightarrow> v = None
        | Some decode \<Rightarrow> ev_Data ev \<noteq> [] \<and> trim_space (ev_Data ev) \<noteq> ''null'' \<and>
            (\<exists>d. decode (ev_Data ev) = Inr d \<and> v = Some d)))"
proof (cases "readBoundedControlBody (rsp_body r) (rsp_body_error r)")
  case (Inl e)
  then have "\<not> (rsp_body_error r = None \<and> length (rsp_body r) \<le> 1048576)"
    using readBounded_Inr [of "rsp_body r" "rsp_body_error r" "rsp_body r"]
    by (simp add: maxControlResponseBytes_def)
  with Inl show ?thesis by (auto simp: api_result_def)
next
  case (Inr t)
  then have b: "rsp_body_error r = None" "t = rsp_body r" "length (rsp_body r) \<le> 1048576"
    by (simp_all add: readBounded_Inr maxControlResponseBytes_def)
  have "readBoundedControlBody (rsp_body r) (rsp_body_error r) = Inr (rsp_body r)" using Inr b by simp
  then show ?thesis
    unfolding api_result_def using b
    by (cases "json_Envelope env (rsp_body r)") (auto split: option.splits sum.splits prod.splits)
qed

text \<open>A response with an error status always becomes an API error with that status and the
  advertised delay, whatever its body is: the code of the envelope when the body is readable, and no
  code otherwise.\<close>

theorem api_result_error_status:
  assumes "\<not> success_status (rsp_status r)"
  shows "\<exists>a. api_result env output r = Inl (APIErr a) \<and> StatusCode a = rsp_status r \<and>
    RetryAfter a = parseRetryAfter (http_ParseTime env) (time_Now env) (Some (rsp_retry_after r)) \<and>
    (Code a \<noteq> [] \<longrightarrow> (\<exists>ev m. json_Envelope env (rsp_body r) = Inr ev \<and> \<not> ev_OK ev \<and> ev_Error ev = Some (Code a, m)))"
proof (cases "readBoundedControlBody (rsp_body r) (rsp_body_error r)")
  case (Inr t)
  then have "t = rsp_body r" by (simp add: readBounded_Inr)
  with assms Inr show ?thesis
    by (auto simp: api_result_def api_error_def split: option.split sum.split)
qed (simp add: assms api_result_def api_error_def)

definition offline_env :: relay_env where
  "offline_env = \<lparr>http_Do = \<lambda>_. Inl (NetworkError EOF), json_Marshal = \<lambda>_. Inr [], json_Envelope = \<lambda>_. Inl EOF,
     json_Domain = \<lambda>_. Inl EOF, json_Challenge = \<lambda>_. Inl EOF, json_Register = \<lambda>_. Inl EOF,
     json_Renew = \<lambda>_. Inl EOF, http_ParseTime = \<lambda>_. None, time_Now = 0\<rparr>"

theorem api_result_error_status_witness:
  "\<exists>a. api_result offline_env (None :: (string \<Rightarrow> go_error + unit) option)
      \<lparr>rsp_status = 503, rsp_retry_after = [], rsp_body = [], rsp_body_error = None\<rparr> = Inl (APIErr a) \<and> StatusCode a = 503"
  using api_result_error_status
    [of "\<lparr>rsp_status = 503, rsp_retry_after = [], rsp_body = [], rsp_body_error = None\<rparr>"
        offline_env
        "None :: (string \<Rightarrow> go_error + unit) option"]
  by (auto simp: success_status_def)

text \<open>On a 2xx status, a complete but unusable body (too large, not an envelope, or without the
  expected data) ends the relay, whereas a body whose transfer was cut short by a regular transport
  error is retried.\<close>

theorem api_result_bad_body:
  assumes "success_status (rsp_status r)"
  shows "(length (rsp_body r) > 1048576 \<longrightarrow>
      (\<exists>e. api_result env output r = Inl e \<and> verdict_of (classifyRelayError (Some e) b) = Terminal)) \<and>
    (length (rsp_body r) \<le> 1048576 \<and> rsp_body_error r = Some UnexpectedEOF \<longrightarrow>
      (\<exists>e. api_result env output r = Inl e \<and> verdict_of (classifyRelayError (Some e) b) = Retry)) \<and>
    (length (rsp_body r) \<le> 1048576 \<and> rsp_body_error r = None \<and> json_Envelope env (rsp_body r) = Inl (ErrorText m) \<longrightarrow>
      (\<exists>e. api_result env output r = Inl e \<and> verdict_of (classifyRelayError (Some e) b) = Terminal))"
proof -
  have "verdict_of (classifyRelayError (Some (Wrapped x UnexpectedEOF)) b) = Retry" for x
    by (simp add: classifyRelayError_def verdict_of_def errors_As_def terminal_iff isLostLeaseError_def
        isCertificateValidationError_def errors_Is_def)
  with assms show ?thesis
    by (auto simp: api_result_def readBoundedControlBody_def maxControlResponseBytes_def errors_Is_def
        errors_As_def intro!: verdict_malformed)
qed

theorem api_result_bad_body_witness:
  "\<exists>e. api_result offline_env (None :: (string \<Rightarrow> go_error + unit) option)
      \<lparr>rsp_status = 200, rsp_retry_after = [], rsp_body = [], rsp_body_error = Some UnexpectedEOF\<rparr> = Inl e
      \<and> verdict_of (classifyRelayError (Some e) True) = Retry"
  using api_result_bad_body
    [of "\<lparr>rsp_status = 200, rsp_retry_after = [], rsp_body = [], rsp_body_error = Some UnexpectedEOF\<rparr>"
        offline_env
        "None :: (string \<Rightarrow> go_error + unit) option" True]
  by (simp add: success_status_def)

section \<open>Properties of reverse endpoints\<close>

lemma validate_Inr:
  assumes "validateReverseEndpoint now s raw lx = Inr e"
  obtains u where "url_parse (trim_space (re_URL raw)) = Some u" "equal_fold (url_scheme u) ''https''"
    "url_host u \<noteq> []" "equal_fold (url_host u) (authority s)" "url_user u = None" "url_raw_query u = []"
    "url_fragment u = []" "escaped_path u = pathConnect"
    "e = \<lparr>re_URL = url_string u, re_Capability = trim_space (re_Capability raw),
       re_ExpiresAt = re_ExpiresAt raw, re_Overlay = False\<rparr>"
    "trim_space (re_Capability raw) \<noteq> []" "now < re_ExpiresAt raw" "re_ExpiresAt raw \<le> lx"
  using assms
  by (cases raw) (auto simp: validateReverseEndpoint_def Let_def not_less split: option.splits if_splits)

lemma url_parse_scheme_lower: "url_parse raw = Some u \<Longrightarrow> list_all (\<lambda>c. \<not> is_upper c) (url_scheme u)"
  by (auto simp: url_parse_def url_parse_rest_def set_path_def empty_url_def Let_def list_all_iff
      split: prod.splits option.splits if_splits)

lemma url_parse_scheme_ascii: "url_parse raw = Some u \<Longrightarrow> list_all is_ascii (url_scheme u)"
proof -
  have "list_all is_ascii sch" if "get_scheme b = Some (sch, r)" for b sch r
  proof -
    have "scheme_char c \<Longrightarrow> is_ascii c" for c
      by (auto simp: scheme_char_def is_alnum_def char_class_defs)
    with that show ?thesis
      by (auto simp: get_scheme_def Let_def list_all_iff split: if_splits dest!: set_takeWhileD)
  qed
  moreover have "list_all is_ascii (map lower_char t)" if "list_all is_ascii t" for t
    using that by (simp add: list_all_iff)
  ultimately show "url_parse raw = Some u \<Longrightarrow> list_all is_ascii (url_scheme u)"
    by (auto simp: url_parse_def url_parse_rest_def set_path_def empty_url_def Let_def
        split: prod.splits option.splits if_splits)
qed

lemma scheme_https:
  assumes "url_parse raw = Some u" "equal_fold (url_scheme u) ''https''"
  shows "url_scheme u = ''https''"
proof -
  have "list_all is_ascii ''https''" "map lower_char ''https'' = ''https''"
    by (simp_all add: is_ascii_def is_upper_def)
  moreover note url_parse_scheme_ascii [OF assms(1)] url_parse_scheme_lower [OF assms(1)]
  ultimately have "map lower_char (url_scheme u) = ''https''"
    using assms(2) by (simp only: equal_fold_ascii)
  moreover have "map lower_char (url_scheme u) = url_scheme u"
    using url_parse_scheme_lower [OF assms(1)] by (simp add: list_all_iff map_idI)
  ultimately show ?thesis by simp
qed

text \<open>C23. An accepted reverse endpoint is the connect path of the relay's own HTTPS origin, it carries
  a capability, and it expires after the present and not after the lease it belongs to.\<close>

theorem validateReverseEndpoint_sound:
  assumes "validateReverseEndpoint now s raw lx = Inr e"
  shows "(\<exists>h. equal_fold h (authority s) \<and> h \<noteq> [] \<and> re_URL e = ''https://'' @ escape EncodeHost h @ ''/sdk/connect'') \<and>
    re_Capability e = trim_space (re_Capability raw) \<and> re_Capability e \<noteq> [] \<and> \<not> re_Overlay e \<and>
    now < re_ExpiresAt e \<and> re_ExpiresAt e \<le> lx"
proof -
  from assms obtain u where u: "url_parse (trim_space (re_URL raw)) = Some u" "equal_fold (url_scheme u) ''https''"
    "url_host u \<noteq> []" "equal_fold (url_host u) (authority s)" "escaped_path u = pathConnect"
    "e = \<lparr>re_URL = url_string u, re_Capability = trim_space (re_Capability raw),
       re_ExpiresAt = re_ExpiresAt raw, re_Overlay = False\<rparr>"
    "trim_space (re_Capability raw) \<noteq> []" "now < re_ExpiresAt raw" "re_ExpiresAt raw \<le> lx"
    by (rule validate_Inr)
  have "re_URL e = ''https://'' @ escape EncodeHost (url_host u) @ ''/sdk/connect''"
    using u scheme_https [OF u(1,2)] by (simp add: url_string_def pathConnect_def)
  then show ?thesis using u by auto
qed

lemma connect_path: "plain_path ''/sdk/connect''"
  by (simp add: plain_path_def path_char_def char_class_defs)

lemma equal_fold_refl [simp]: "equal_fold x x"
  by (simp add: equal_fold_def)

lemma connect_url:
  assumes "list_all origin_char h" "port_suffix p"
  defines "u \<equiv> empty_url\<lparr>url_scheme := ''https'', url_host := h @ p, url_path := ''/sdk/connect''\<rparr>"
  shows "url_parse (''https://'' @ h @ p @ ''/sdk/connect'') = Some u" "escaped_path u = pathConnect"
    "url_string u = ''https://'' @ h @ p @ ''/sdk/connect''"
    "trim_space (''https://'' @ h @ p @ ''/sdk/connect'') = ''https://'' @ h @ p @ ''/sdk/connect''"
proof -
  show "url_parse (''https://'' @ h @ p @ ''/sdk/connect'') = Some u"
    unfolding u_def by (rule url_parse_origin_path [OF assms(1,2) connect_path])
  show p: "escaped_path u = pathConnect"
    unfolding escaped_path_def by (simp add: u_def empty_url_def pathConnect_def should_escape_def is_alnum_def char_class_defs)
  have "list_all (\<lambda>c. \<not> should_escape EncodeHost c) (h @ p)"
    using assms(1) port_suffix_chars [OF assms(2)] origin_char_facts(3) port_char_facts(3)
    by (auto simp only: list_all_iff set_append Un_iff)
  from escape_plain [OF this] show "url_string u = ''https://'' @ h @ p @ ''/sdk/connect''"
    by (simp add: url_string_def p pathConnect_def) (simp add: u_def)
  show "trim_space (''https://'' @ h @ p @ ''/sdk/connect'') = ''https://'' @ h @ p @ ''/sdk/connect''"
    by (rule trim_space_graphic) (simp_all add: is_graphic_def)
qed

lemma endpoint_accepted:
  assumes "list_all origin_char h" "h \<noteq> []" "port_suffix p" "authority s = h @ p"
    and "c \<noteq> []" "list_all is_graphic c" "now < x" "x \<le> lx"
    and e: "e = \<lparr>re_URL = ''https://'' @ h @ p @ ''/sdk/connect'', re_Capability = c, re_ExpiresAt = x, re_Overlay = False\<rparr>"
  shows "validateReverseEndpoint now s e lx = Inr e"
proof -
  define u where "u = empty_url\<lparr>url_scheme := ''https'', url_host := h @ p, url_path := ''/sdk/connect''\<rparr>"
  note cu = connect_url [OF assms(1,3), folded u_def]
  have "url_user u = None" "url_raw_query u = []" "\<not> url_force_query u" "url_fragment u = []"
    "url_host u = h @ p" "url_scheme u = ''https''"
    by (simp_all add: u_def empty_url_def)
  moreover have "\<not> lx < x" using assms by simp
  moreover have "re_URL e = ''https://'' @ h @ p @ ''/sdk/connect''" "re_Capability e = c" "re_ExpiresAt e = x" "\<not> re_Overlay e"
    by (simp_all add: e)
  moreover have "trim_space c = c" by (rule trim_space_all_graphic [OF assms(6)])
  ultimately show ?thesis
    using assms(2,4,5,7) cu
    unfolding validateReverseEndpoint_def by (simp add: Let_def e)
qed

text \<open>The endpoint that a conforming relay issues is accepted unchanged: the connect path of the
  relay's own origin with a printable capability and an expiry between now and the end of the lease.\<close>

theorem validateReverseEndpoint_complete:
  assumes "list_all origin_char h" "h \<noteq> []" "port_suffix p" "authority s = h @ p"
    and "c \<noteq> []" "list_all is_graphic c" "now < x" "x \<le> lx"
    and e: "e = \<lparr>re_URL = ''https://'' @ h @ p @ ''/sdk/connect'', re_Capability = c, re_ExpiresAt = x, re_Overlay = False\<rparr>"
  shows "validateReverseEndpoint now s e lx = Inr e"
  using assms by (rule endpoint_accepted)

theorem validateReverseEndpoint_complete_witness:
  "\<exists>e. validateReverseEndpoint 0 (undefined\<lparr>authority := ''rly.best''\<rparr> :: (unit, unit) relaySupervisor) e 100 = Inr e"
proof -
  have "list_all origin_char ''rly.best''" "port_suffix []" "list_all is_graphic ''c''"
    by (simp_all add: origin_char_def port_suffix_def char_class_defs)
  then show ?thesis
    using validateReverseEndpoint_complete [of "''rly.best''" "[]"
      "undefined\<lparr>authority := ''rly.best''\<rparr> :: (unit, unit) relaySupervisor" "''c''" 0 50 100] by auto
qed

theorem validateReverseEndpoint_sound_witness:
  "\<exists>e. validateReverseEndpoint 0 (undefined\<lparr>authority := ''rly.best''\<rparr> :: (unit, unit) relaySupervisor)
     \<lparr>re_URL = ''https://rly.best/sdk/connect'', re_Capability = ''c'', re_ExpiresAt = 50, re_Overlay = False\<rparr> 100 = Inr e
     \<and> re_ExpiresAt e \<le> 100"
proof -
  let ?s = "undefined\<lparr>authority := ''rly.best''\<rparr> :: (unit, unit) relaySupervisor"
  let ?e = "\<lparr>re_URL = ''https://rly.best/sdk/connect'', re_Capability = ''c'', re_ExpiresAt = 50, re_Overlay = False\<rparr>"
  have "list_all origin_char ''rly.best''" "port_suffix []" "list_all is_graphic ''c''"
    by (simp_all add: origin_char_def port_suffix_def char_class_defs)
  then have "validateReverseEndpoint 0 ?s ?e 100 = Inr ?e"
    by (intro endpoint_accepted [of "''rly.best''" "[]" _ "''c''"]) simp_all
  from validateReverseEndpoint_sound [OF this] this show ?thesis by blast
qed

section \<open>Properties of the supervisor's addresses\<close>

lemma format_uint_443: "format_uint n = ''443'' \<longleftrightarrow> n = 443"
proof -
  have "dec_value ''443'' = 443" by (simp add: dec_value_def digit_val_def)
  moreover have "format_uint 443 = ''443''" by (simp add: format_uint.simps digit_char_eval)
  ultimately show ?thesis using format_uint_props by metis
qed

lemma default_timings_ok: "all_positive (withDefaults t)"
  by (simp add: timing_defs all_positive_def positive_or_pos)

text \<open>A supervisor can be built for every normalised relay; it talks to the relay's own authority,
  dials port 443 unless the relay names a port, and publishes the service under the identity's name as
  a subdomain of the relay, with the relay's port.\<close>

theorem newRelaySupervisor_normalised:
  assumes "normalizeRelay raw = Inr r" "valid_identity_name nm"
  shows "\<exists>h p s. newRelaySupervisor r ident tm = Inr (s :: ('k, 'p) relaySupervisor) \<and> r = ''https://'' @ h @ p \<and>
    authority s = h @ p \<and> hostname s = h \<and>
    dialAddress s = h @ (if p = [] then '':443'' else p) \<and> all_positive (timings s) \<and> lease s = zero_lease \<and>
    derivedPublicURL (s\<lparr>publicHostname := nm @ ''.'' @ hostname s\<rparr>) = ''https://'' @ nm @ ''.'' @ h @ p"
proof -
  obtain h p where hp: "canonical_relay_host h" "canonical_relay_port p" "r = ''https://'' @ h @ p"
    using normalizeRelay_result [OF assms(1)] by blast
  have h: "h \<noteq> []" "list_all origin_char h" using hp(1) by (simp_all add: canonical_relay_host_def)
  have p: "port_suffix p"
    using hp(2) format_uint_digits by (auto simp: canonical_relay_port_def port_suffix_def)
  from hp(2) have "p = [] \<or> (\<exists>n. n \<noteq> 443 \<and> p = CHR '':'' # format_uint n)"
    by (auto simp: canonical_relay_port_def)
  then have p443: "p \<noteq> CHR '':'' # ''443''"
    by (elim disjE exE conjE) (simp_all only: list.inject list.distinct format_uint_443 simp_thms)
  have colon: "CHR '':'' \<notin> set h" "CHR '':'' \<notin> set nm"
    using origin_notin(8) [OF h(2)] assms(2)
    by (auto simp: valid_identity_name_def list_all_iff identity_name_char_def is_lower_def is_digit_def)
  let ?u = "empty_url\<lparr>url_scheme := ''https'', url_host := h @ p\<rparr>"
  have u: "url_parse r = Some ?u" "url_hostname ?u = h" "url_port ?u = drop 1 p" "url_host ?u = h @ p"
    using url_parse_origin [OF h(2) p] url_split_origin [OF h p] hp(3)
    by (simp_all add: url_hostname_def url_port_def)
  define s :: "('k, 'p) relaySupervisor" where "s = \<lparr>sv_relayURL = r, authority = h @ p, hostname = h,
      relayPort = drop 1 p, dialAddress = join_host_port h (if drop 1 p = [] then ''443'' else drop 1 p),
      publicHostname = [], identity = ident, timings = withDefaults tm, udpEnabled = False,
      controlTLS = None, certificateChain = [], controlClient = False, lease = zero_lease,
      nextLeaseGeneration = 0, datagramConn = None, sv_trace = []\<rparr>"
  have "newRelaySupervisor r ident tm = Inr s"
    using h(1) by (simp add: newRelaySupervisor_def u Let_def s_def)
  moreover have f: "authority s = h @ p" "hostname s = h" "all_positive (timings s)" "lease s = zero_lease"
    by (simp_all add: s_def default_timings_ok)
  from p consider "p = []" | ds where "p = CHR '':'' # ds" "ds \<noteq> []" by (auto simp: port_suffix_def)
  then have "dialAddress s = h @ (if p = [] then '':443'' else p)"
    "derivedPublicURL (s\<lparr>publicHostname := nm @ ''.'' @ hostname s\<rparr>) = ''https://'' @ nm @ ''.'' @ h @ p"
    by (cases, use colon p443 in \<open>simp_all add: s_def join_host_port_def derivedPublicURL_def\<close>)+
  ultimately show ?thesis using hp(3) f by blast
qed

theorem newRelaySupervisor_normalised_witness:
  "\<exists>s :: (unit, unit) relaySupervisor. newRelaySupervisor ''https://rly.best'' zero_Identity defaultRelayTimings = Inr s"
  using newRelaySupervisor_normalised [OF normalizeRelay_rly_best sample_name] by blast

section \<open>Properties of response heads\<close>

text \<open>A sequence of reads through the bounded reader: the bytes delivered in total.\<close>

fun head_reads :: "headReader \<Rightarrow> (nat \<times> (nat \<Rightarrow> string \<times> go_error option)) list \<Rightarrow> headReader \<times> nat" where
  "head_reads r [] = (r, 0)"
| "head_reads r ((p, u) # rest) =
     (let (r', (bytes, err)) = head_read r p u; (r'', n) = head_reads r' rest in (r'', length bytes + n))"

text \<open>The head of an upgrade response is bounded: as long as the underlying reader respects the
  size of the buffers it is given, the bounded reader never delivers more than the allowance in total,
  its counter never becomes negative, and once the allowance is used up every read fails.\<close>

theorem head_reads_bounded:
  assumes "\<forall>(p, u) \<in> set reads. \<forall>k. length (fst (u k)) \<le> k" "hr_bounded r" "0 \<le> hr_remaining r"
    "head_reads r reads = (r', n)"
  shows "int n = hr_remaining r - hr_remaining r' \<and> 0 \<le> hr_remaining r' \<and> hr_bounded r' \<and>
    (hr_remaining r' = 0 \<longrightarrow> (\<forall>p u. snd (snd (head_read r' p u)) = Some ErrReverseResponseHeadTooLarge))"
  using assms
proof (induction r reads arbitrary: r' n rule: head_reads.induct)
  case (2 r p u rest)
  define k where "k = (if int p > hr_remaining r then nat (hr_remaining r) else p)"
  obtain r1 bytes err where h: "head_read r p u = (r1, bytes, err)" by (cases "head_read r p u") auto
  then have r1: "hr_remaining r1 = hr_remaining r - int (length bytes)" "hr_bounded r1" "int (length bytes) \<le> hr_remaining r"
  proof -
    have "length (fst (u k)) \<le> k" using 2(2) by auto
    then show "hr_remaining r1 = hr_remaining r - int (length bytes)" "hr_bounded r1" "int (length bytes) \<le> hr_remaining r"
      using h 2(3,4) by (auto simp: head_read_def k_def Let_def split: if_splits prod.splits)
  qed
  obtain n1 where n1: "head_reads r1 rest = (r', n1)" "n = length bytes + n1"
    using 2(5) h by (auto simp: Let_def split: prod.splits)
  have "int n1 = hr_remaining r1 - hr_remaining r' \<and> 0 \<le> hr_remaining r' \<and> hr_bounded r' \<and>
    (hr_remaining r' = 0 \<longrightarrow> (\<forall>p u. snd (snd (head_read r' p u)) = Some ErrReverseResponseHeadTooLarge))"
    by (rule "2.IH" [OF h [symmetric] refl refl]) (use 2(2) r1 n1 in auto)
  then show ?case using r1 n1 by simp
qed (simp add: head_read_def)

theorem head_reads_bounded_witness:
  "head_reads \<lparr>hr_remaining = 2, hr_bounded = True\<rparr> [(4, \<lambda>k. (replicate k CHR ''x'', None)), (4, \<lambda>k. (replicate k CHR ''x'', None))]
     = (\<lparr>hr_remaining = 0, hr_bounded = True\<rparr>, 2) \<and> 2 \<le> (2 :: int)"
  using head_reads_bounded [of "[(4, \<lambda>k. (replicate k CHR ''x'', None)), (4, \<lambda>k. (replicate k CHR ''x'', None))]"
      "\<lparr>hr_remaining = 2, hr_bounded = True\<rparr>" "\<lparr>hr_remaining = 0, hr_bounded = True\<rparr>" 2]
  by (simp add: head_read_def)

end
