(* ===== verification/Lease.thy ===== *)
theory Lease
  imports ControlApi
begin

text \<open>
  The life of a lease on one relay (\<open>src/relay.go\<close>): registration with a signed challenge, renewal,
  the staleness checks of the workers, the datagram connection, and shutdown.

  Each operation is a function on the supervisor's state; the code's critical sections are single
  functions. Readings of the clock, outcomes of waits and answers of libraries are arguments.

  The lemmas show what a registered or renewed lease guarantees, that a rejected registration is
  handed back to the relay, that a renewal round installs exactly what the relay answered, and that
  signers and datagram connections are closed exactly once.
\<close>

section \<open>Registration\<close>

record registerAttempt =
  at_challengeID :: string
  at_siweMessage :: string
  at_signature :: string
  at_expiresAt :: instant

definition attempt_valid :: "registerAttempt option \<Rightarrow> instant \<Rightarrow> bool" where
  "attempt_valid a now = (case a of None \<Rightarrow> False
     | Some r \<Rightarrow> at_challengeID r \<noteq> [] \<and> now < at_expiresAt r)"

text \<open>An API call whose caller expects data.\<close>

definition callAPI :: "relay_env \<Rightarrow> http_method \<Rightarrow> string \<Rightarrow> api_body option \<Rightarrow> (string \<Rightarrow> go_error + 'o) \<Rightarrow>
    ('k, 'p) relaySupervisor \<Rightarrow> ('k, 'p) relaySupervisor \<times> (go_error + 'o)" where
  "callAPI env m path body decode s =
     (case doAPI env m path body (Some decode) s of
        (s', Inl e) \<Rightarrow> (s', Inl e)
      | (s', Inr (Some v)) \<Rightarrow> (s', Inr v)
      | (s', Inr None) \<Rightarrow> (s', Inl (MalformedRelayResponseError (ErrorText ''no data''))))"

definition requestRegisterChallenge :: "'k crypto \<Rightarrow> relay_env \<Rightarrow> instant \<Rightarrow> ('k, 'p) relaySupervisor \<Rightarrow>
    ('k, 'p) relaySupervisor \<times> (go_error + registerAttempt)" where
  "requestRegisterChallenge c env now s =
     (case callAPI env MethodPost pathRegisterChallenge
         (Some (ChallengeRequest \<lparr>ref_Name = id_name (identity s), ref_Address = id_address (identity s)\<rparr>
            (ttlSeconds (timings s)) (udpEnabled s))) (json_Challenge env) s of
        (s', Inl e) \<Rightarrow> (s', Inl (case classifyRelayError (Some e) False of Some e' \<Rightarrow> e' | None \<Rightarrow> e))
      | (s', Inr challenge) \<Rightarrow>
          if trim_space (ch_ChallengeID challenge) = [] then
            (s', Inl (terminalRelay (ErrorText ''register challenge has an empty challenge_id'')))
          else if ch_SIWEMessage challenge = [] then
            (s', Inl (terminalRelay (ErrorText ''register challenge has an empty siwe_message'')))
          else if \<not> now < ch_ExpiresAt challenge then
            (s', Inl (terminalRelay (ErrorText ''register challenge is expired'')))
          else
            (case signEthereumPersonalMessage c (identity s) (ch_SIWEMessage challenge) of
               Inl e \<Rightarrow> (s', Inl (terminalRelay (Wrapped ''sign register challenge'' e)))
             | Inr sig \<Rightarrow> (s', Inr \<lparr>at_challengeID = ch_ChallengeID challenge,
                 at_siweMessage = ch_SIWEMessage challenge, at_signature = sig,
                 at_expiresAt = ch_ExpiresAt challenge\<rparr>)))"

text \<open>The validation of a register response, in the order of the code; \<open>now1\<close> and \<open>now2\<close> are the
  two readings of the clock. The result is the validated endpoint and the UDP address.\<close>

definition checkRegistration :: "'k crypto \<Rightarrow> instant \<Rightarrow> instant \<Rightarrow> ('k, 'p) relaySupervisor \<Rightarrow> registerResponse \<Rightarrow>
    go_error + (reverseEndpoint \<times> string)" where
  "checkRegistration c now1 now2 s r =
     (if trim_space (rg_AccessToken r) = [] then
        Inl (ErrorText ''register response has an empty access_token'')
      else if \<not> now1 < rg_ExpiresAt r then Inl (ErrorText ''register response lease is expired'')
      else (case validateReverseEndpoint now2 s (rg_ReverseEndpoint r) (rg_ExpiresAt r) of
        Inl e \<Rightarrow> Inl e
      | Inr endpoint \<Rightarrow>
          if rg_SNIPort r < 0 \<or> rg_SNIPort r > 65535 then
            Inl (ErrorText ''register response has invalid sni_port'')
          else (case normalizeIdentityName (ref_Name (rg_Identity r)) of
            Inl e \<Rightarrow> Inl (Wrapped ''register response has invalid identity name'' e)
          | Inr responseName \<Rightarrow>
              (case normalizeEthereumAddress c (ref_Address (rg_Identity r)) of
                 Inl e \<Rightarrow> Inl (Wrapped ''register response has invalid identity address'' e)
               | Inr responseAddress \<Rightarrow>
                   if responseName \<noteq> id_name (identity s) \<or> responseAddress \<noteq> id_address (identity s) then
                     Inl (ErrorText ''register response identity does not match requested identity'')
                   else if \<not> udpEnabled s then Inr (endpoint, [])
                   else if \<not> rg_UDPEnabled r then Inl (ErrorText ''register response did not enable UDP'')
                   else if rg_SNIPort r \<le> 0 then Inl (ErrorText ''register response has no sni_port for UDP'')
                   else (case NormalizeTarget (rg_UDPAddr r) of
                       Inl e \<Rightarrow> Inl (Wrapped ''register response has invalid udp_addr'' (NormError e))
                     | Inr addr \<Rightarrow> Inr (endpoint, addr))))))"

text \<open>Handing an unusable lease back to the relay: the error joined with a failure to unregister.\<close>

definition giveBack :: "relay_env \<Rightarrow> string \<Rightarrow> string \<Rightarrow> go_error \<Rightarrow> ('k, 'p) relaySupervisor \<Rightarrow>
    ('k, 'p) relaySupervisor \<times> go_error" where
  "giveBack env what tok err s =
     (if tok = [] then (s, err)
      else (case unregisterToken env tok s of
          (s', None) \<Rightarrow> (s', err)
        | (s', Some e) \<Rightarrow> (s', Joined [err, Wrapped what e])))"

text \<open>\<open>buildTenantTLS\<close>; the outcomes of the library's \<open>NewRemoteSigner\<close> and \<open>NewServer\<close> are
  arguments, handles on success.\<close>

definition buildTenantTLS :: "go_error + nat \<Rightarrow> go_error + nat \<Rightarrow> ('k, 'p) relaySupervisor \<Rightarrow>
    ('k, 'p) relaySupervisor \<times> (go_error + tenantTLS)" where
  "buildTenantTLS newSigner newServer s =
     (case newSigner of
        Inl e \<Rightarrow> (s, Inl e)
      | Inr sg \<Rightarrow>
          (let s' = record_effect (OpenSigner sg) s in
           case newServer of
             Inl e \<Rightarrow> (record_effect (CloseSigner sg) s', Inl e)
           | Inr srv \<Rightarrow> (s', Inr \<lparr>tn_server = srv, tn_signer = sg, tn_errs = \<lambda>_. None\<rparr>)))"

text \<open>The access token sent with every signing request: the current one, or the one of the
  registration in progress.\<close>

definition signerToken :: "('k, 'p) relaySupervisor \<Rightarrow> string \<Rightarrow> string" where
  "signerToken s initialToken = (if token (lease s) = [] then initialToken else token (lease s))"

definition submitRegistration :: "'k crypto \<Rightarrow> relay_env \<Rightarrow> relay_env \<Rightarrow> instant \<Rightarrow> instant \<Rightarrow>
    go_error + nat \<Rightarrow> go_error + nat \<Rightarrow> registerAttempt \<Rightarrow> ('k, 'p) relaySupervisor \<Rightarrow>
    ('k, 'p) relaySupervisor \<times> go_error option" where
  "submitRegistration c env uenv now1 now2 newSigner newServer attempt s =
     (case callAPI env MethodPost pathRegister
         (Some (RegisterRequest (at_challengeID attempt) (at_siweMessage attempt) (at_signature attempt)))
         (json_Register env) s of
        (s1, Inl e) \<Rightarrow> (s1, classifyRelayError (Some e) False)
      | (s1, Inr r) \<Rightarrow>
          (let responseToken = trim_space (rg_AccessToken r) in
           case checkRegistration c now1 now2 s1 r of
             Inl e \<Rightarrow>
               (case giveBack uenv ''unregister invalid lease'' responseToken e s1 of
                  (s2, e') \<Rightarrow> (s2, Some (terminalRelay e')))
           | Inr (endpoint, addr) \<Rightarrow>
               (let s2 = s1\<lparr>nextLeaseGeneration := nextLeaseGeneration s1 + 1\<rparr> in
                case buildTenantTLS newSigner newServer s2 of
                  (s3, Inl e) \<Rightarrow>
                    (case giveBack uenv ''unregister unusable lease'' responseToken e s3 of
                       (s4, e') \<Rightarrow> (s4, Some (terminalRelay (Wrapped ''configure tenant TLS'' e'))))
                | (s3, Inr tn) \<Rightarrow>
                    (s3\<lparr>lease := \<lparr>token = responseToken, expiresAt = rg_ExpiresAt r,
                       publicURL = derivedPublicURL s1, udpAddr = addr, sniPort = rg_SNIPort r,
                       reverse = endpoint, tenant = Some tn, generation = nextLeaseGeneration s2,
                       renewing = False, tokenUncertain = False\<rparr>\<rparr>, None))))"

section \<open>Reading the lease\<close>

definition currentReverseEndpoint :: "('k, 'p) relaySupervisor \<Rightarrow> reverseEndpoint \<times> 64 word \<times> bool" where
  "currentReverseEndpoint s = (reverse (lease s), generation (lease s),
     token (lease s) \<noteq> [] \<and> re_Capability (reverse (lease s)) \<noteq> [])"

definition currentDatagramLease :: "('k, 'p) relaySupervisor \<Rightarrow>
    (string \<times> 64 word \<times> int \<times> string \<times> 'p tls_config) option" where
  "currentDatagramLease s =
     (case controlTLS s of
        None \<Rightarrow> None
      | Some cfg \<Rightarrow>
          if udpEnabled s \<and> token (lease s) \<noteq> [] \<and> sniPort (lease s) > 0 \<and> udpAddr (lease s) \<noteq> []
          then Some (token (lease s), generation (lease s), sniPort (lease s), udpAddr (lease s), cfg)
          else None)"

definition currentTenantTLS :: "('k, 'p) relaySupervisor \<Rightarrow> go_error + (tenantTLS \<times> 64 word)" where
  "currentTenantTLS s = (case tenant (lease s) of
      None \<Rightarrow> Inl (ErrorText ''tenant TLS configuration is unavailable'')
    | Some t \<Rightarrow> Inr (t, generation (lease s)))"

definition reverseConnectRequestStale :: "string \<Rightarrow> 64 word \<Rightarrow> ('k, 'p) relaySupervisor \<Rightarrow> bool" where
  "reverseConnectRequestStale capability gen s \<longleftrightarrow>
     re_Capability (reverse (lease s)) \<noteq> capability \<or> generation (lease s) \<noteq> gen \<or> renewing (lease s)"

definition datagramTokenStale :: "string \<Rightarrow> 64 word \<Rightarrow> ('k, 'p) relaySupervisor \<Rightarrow> bool" where
  "datagramTokenStale tok gen s \<longleftrightarrow>
     token (lease s) \<noteq> tok \<or> generation (lease s) \<noteq> gen \<or> renewing (lease s)"

definition signerGenerationStale :: "64 word \<Rightarrow> ('k, 'p) relaySupervisor \<Rightarrow> bool" where
  "signerGenerationStale gen s \<longleftrightarrow>
     generation (lease s) \<noteq> gen \<or> renewing (lease s) \<or> tokenUncertain (lease s)"

section \<open>The datagram connection\<close>

definition installDatagramConn :: "nat \<Rightarrow> ('k, 'p) relaySupervisor \<Rightarrow> ('k, 'p) relaySupervisor" where
  "installDatagramConn conn s =
     (let s' = record_effect (InstallConn conn) (s\<lparr>datagramConn := Some conn\<rparr>) in
      case datagramConn s of
        Some old \<Rightarrow> if old \<noteq> conn then record_effect (CloseConn old ''replaced'') s' else s'
      | None \<Rightarrow> s')"

definition clearDatagramConn :: "nat option \<Rightarrow> string \<Rightarrow> ('k, 'p) relaySupervisor \<Rightarrow> ('k, 'p) relaySupervisor" where
  "clearDatagramConn expected reason s =
     (if expected = None \<or> datagramConn s = expected then
        (case datagramConn s of
           None \<Rightarrow> s
         | Some conn \<Rightarrow> record_effect (CloseConn conn reason) (s\<lparr>datagramConn := None\<rparr>))
      else s)"

text \<open>\<open>sendDatagram\<close>; \<open>None\<close> would be a panic of the encoder. The outcome of the library's
  \<open>SendDatagram\<close> is an argument.\<close>

definition sendDatagram :: "go_error option \<Rightarrow> DatagramFrame \<Rightarrow> ('k, 'p) relaySupervisor \<Rightarrow>
    (('k, 'p) relaySupervisor \<times> go_error option) option" where
  "sendDatagram outcome frame s =
     (if \<not> udpEnabled s then Some (s, Some (ErrorText ''portalite: UDP is not enabled for relay''))
      else (case encodeDatagram (FlowID frame) (Payload frame) of
          None \<Rightarrow> None
        | Some (Inl e) \<Rightarrow> Some (s, Some e)
        | Some (Inr encoded) \<Rightarrow>
            (case datagramConn s of
               None \<Rightarrow> Some (s, Some ErrDatagramNotReady)
             | Some conn \<Rightarrow>
                 Some (record_effect (SendOn conn encoded) s,
                   map_option (Wrapped ''send QUIC datagram'') outcome))))"

section \<open>Renewal\<close>

definition beginRenewal :: "string \<Rightarrow> 64 word \<Rightarrow> ('k, 'p) relaySupervisor \<Rightarrow> ('k, 'p) relaySupervisor \<times> bool" where
  "beginRenewal tok gen s =
     (if token (lease s) \<noteq> tok \<or> generation (lease s) \<noteq> gen \<or> renewing (lease s) then (s, False)
      else (s\<lparr>lease := (lease s)\<lparr>tokenUncertain := True, renewing := True\<rparr>\<rparr>, True))"

definition endRenewal :: "64 word \<Rightarrow> ('k, 'p) relaySupervisor \<Rightarrow> ('k, 'p) relaySupervisor" where
  "endRenewal gen s =
     (if generation (lease s) = gen then s\<lparr>lease := (lease s)\<lparr>renewing := False\<rparr>\<rparr> else s)"

text \<open>The last critical section of a renewal round: the new token is installed unless the lease
  changed under the request.\<close>

definition commitRenewal :: "string \<Rightarrow> 64 word \<Rightarrow> string \<Rightarrow> instant \<Rightarrow> reverseEndpoint \<Rightarrow> ('k, 'p) relaySupervisor \<Rightarrow>
    ('k, 'p) relaySupervisor \<times> bool" where
  "commitRenewal tok gen newToken expiry endpoint s =
     (if token (lease s) \<noteq> tok \<or> generation (lease s) \<noteq> gen then (s, False)
      else
        (s\<lparr>nextLeaseGeneration := nextLeaseGeneration s + 1,
           lease := (lease s)\<lparr>token := newToken, expiresAt := expiry, reverse := endpoint, renewing := False,
             tokenUncertain := False, generation := nextLeaseGeneration s + 1\<rparr>\<rparr>, True))"

text \<open>How a round of a worker loop ends: the loop goes on, or the worker returns (a nil error is
  \<open>None\<close>).\<close>

datatype round = Continue | Return "go_error option"

text \<open>What one renewal round observes: readings of the clock, outcomes of the two waits and the
  context's error at the end of a wait.\<close>

record renew_inputs =
  rw_now_check :: instant
  rw_now_until :: instant
  rw_wait :: bool
  rw_now_failed :: instant
  rw_now_remaining :: instant
  rw_retry_wait :: bool
  rw_now_response :: instant
  rw_now_endpoint :: instant
  rw_ctx_err :: "go_error option"

text \<open>The delay before a failed renewal is tried again: never past the end of the lease.\<close>

definition renewRetryDelay :: "duration \<Rightarrow> go_error \<Rightarrow> duration \<Rightarrow> duration" where
  "renewRetryDelay base err remaining =
     (let delay = relayRetryDelay base err in if remaining < delay then remaining else delay)"

definition renewFailed :: "renew_inputs \<Rightarrow> instant \<Rightarrow> go_error \<Rightarrow> ('k, 'p) relaySupervisor \<Rightarrow> round" where
  "renewFailed i expiry e s =
     (if errors_Is e ErrLeaseRefresh \<or> isTerminalRelayFailure e then Return (Some e)
      else if \<not> rw_now_failed i < expiry then Return (Some ErrLeaseRefresh)
      else
        (let delay = renewRetryDelay (retryWait (timings s)) e (expiry - rw_now_remaining i) in
         if delay \<le> 0 \<or> \<not> rw_retry_wait i then
           (case rw_ctx_err i of Some ce \<Rightarrow> Return (Some ce) | None \<Rightarrow> Return (Some ErrLeaseRefresh))
         else Continue))"

text \<open>The part of a round after the renewal request: the failure path, the validation of the
  response and the commit.\<close>

definition settleRenewal :: "renew_inputs \<Rightarrow> string \<Rightarrow> 64 word \<Rightarrow> instant \<Rightarrow>
    ('k, 'p) relaySupervisor \<times> (go_error + renewResponse) \<Rightarrow> ('k, 'p) relaySupervisor \<times> round" where
  "settleRenewal i tok gen expiry answer =
     (case answer of
        (s2, Inl e) \<Rightarrow>
          (let s3 = endRenewal gen s2 in
           case classifyRelayError (Some e) True of
             None \<Rightarrow> (s3, Return None)
           | Some e' \<Rightarrow> (s3, renewFailed i expiry e' s3))
      | (s2, Inr r) \<Rightarrow>
          if trim_space (rn_AccessToken r) = [] then
            (s2, Return (Some (terminalRelay (ErrorText ''renew response has an empty access_token''))))
          else if \<not> rw_now_response i < rn_ExpiresAt r then
            (s2, Return (Some (terminalRelay (ErrorText ''renew response lease is expired''))))
          else
            (case validateReverseEndpoint (rw_now_endpoint i) s2 (rn_ReverseEndpoint r) (rn_ExpiresAt r) of
               Inl e \<Rightarrow> (s2, Return (Some (terminalRelay e)))
             | Inr endpoint \<Rightarrow>
                 (case commitRenewal tok gen (trim_space (rn_AccessToken r)) (rn_ExpiresAt r) endpoint s2 of
                    (s3, False) \<Rightarrow> (s3, Return (Some ErrLeaseRefresh))
                  | (s3, True) \<Rightarrow> (clearDatagramConn None ''lease renewed'' s3, Continue))))"

definition renewRound :: "relay_env \<Rightarrow> renew_inputs \<Rightarrow> ('k, 'p) relaySupervisor \<Rightarrow> ('k, 'p) relaySupervisor \<times> round" where
  "renewRound env i s =
     (let tok = token (lease s); expiry = expiresAt (lease s); gen = generation (lease s) in
      if tok = [] \<or> \<not> rw_now_check i < expiry then (s, Return (Some ErrLeaseRefresh))
      else if expiry - renewBefore (timings s) - rw_now_until i > 0 \<and> \<not> rw_wait i then (s, Return (rw_ctx_err i))
      else
        (case beginRenewal tok gen s of
           (s1, False) \<Rightarrow> (s1, Return (Some ErrLeaseRefresh))
         | (s1, True) \<Rightarrow>
             settleRenewal i tok gen expiry
               (callAPI env MethodPost pathRenew (Some (RenewRequest tok (ttlSeconds (timings s)))) (json_Renew env) s1)))"

section \<open>Ending a lease\<close>

definition clearLease :: "('k, 'p) relaySupervisor \<Rightarrow> ('k, 'p) relaySupervisor \<times> tenantTLS option" where
  "clearLease s = (s\<lparr>lease := zero_lease\<rparr>, tenant (lease s))"

definition closeTenant :: "tenantTLS option \<Rightarrow> ('k, 'p) relaySupervisor \<Rightarrow> ('k, 'p) relaySupervisor" where
  "closeTenant t s = (case t of None \<Rightarrow> s | Some tn \<Rightarrow> record_effect (CloseSigner (tn_signer tn)) s)"

definition discardLostLease :: "('k, 'p) relaySupervisor \<Rightarrow> ('k, 'p) relaySupervisor" where
  "discardLostLease s =
     (case clearLease (clearDatagramConn None ''lease lost'' s) of (s', t) \<Rightarrow> closeTenant t s')"

text \<open>\<open>resetControl\<close>; the transport exists exactly when the client does.\<close>

definition resetControl :: "('k, 'p) relaySupervisor \<Rightarrow> ('k, 'p) relaySupervisor" where
  "resetControl s =
     (let s' = (if controlClient s then record_effect CloseIdleConnections s else s)
      in s'\<lparr>controlClient := False, controlTLS := None, certificateChain := [], publicHostname := []\<rparr>)"

text \<open>\<open>shutdown\<close>; the outcome of closing the signer is an argument.\<close>

definition shutdown :: "relay_env \<Rightarrow> go_error option \<Rightarrow> ('k, 'p) relaySupervisor \<Rightarrow>
    ('k, 'p) relaySupervisor \<times> go_error list" where
  "shutdown env closeOutcome s =
     (let s1 = clearDatagramConn None ''relay shutting down'' s;
          tok = token (lease s1);
          (s2, errs1) = (if tok = [] then (s1, [])
             else (case unregisterToken env tok s1 of
                 (s', Some e) \<Rightarrow> (s', [Wrapped ''unregister relay lease'' e])
               | (s', None) \<Rightarrow> (s', [])));
          (s3, t) = clearLease s2;
          s4 = closeTenant t s3;
          errs2 = (case (t, closeOutcome) of (Some _, Some e) \<Rightarrow> [Wrapped ''close keyless signer'' e] | _ \<Rightarrow> [])
      in (resetControl s4, errs1 @ errs2))"

section \<open>Ledgers of signers and datagram connections\<close>

fun opens_signer :: "nat \<Rightarrow> effect \<Rightarrow> bool" where
  "opens_signer i (OpenSigner j) \<longleftrightarrow> i = j" | "opens_signer _ _ \<longleftrightarrow> False"

fun closes_signer :: "nat \<Rightarrow> effect \<Rightarrow> bool" where
  "closes_signer i (CloseSigner j) \<longleftrightarrow> i = j" | "closes_signer _ _ \<longleftrightarrow> False"

fun opens_conn :: "nat \<Rightarrow> effect \<Rightarrow> bool" where
  "opens_conn i (InstallConn j) \<longleftrightarrow> i = j" | "opens_conn _ _ \<longleftrightarrow> False"

fun closes_conn :: "nat \<Rightarrow> effect \<Rightarrow> bool" where
  "closes_conn i (CloseConn j _) \<longleftrightarrow> i = j" | "closes_conn _ _ \<longleftrightarrow> False"

interpretation signers: ledger opens_signer closes_signer
proof unfold_locales
  fix i j e
  show "opens_signer i e \<Longrightarrow> opens_signer j e \<Longrightarrow> i = j" by (cases e) auto
  show "closes_signer i e \<Longrightarrow> closes_signer j e \<Longrightarrow> i = j" by (cases e) auto
  show "opens_signer i e \<Longrightarrow> \<not> closes_signer j e" by (cases e) auto
qed

interpretation conns: ledger opens_conn closes_conn
proof unfold_locales
  fix i j e
  show "opens_conn i e \<Longrightarrow> opens_conn j e \<Longrightarrow> i = j" by (cases e) auto
  show "closes_conn i e \<Longrightarrow> closes_conn j e \<Longrightarrow> i = j" by (cases e) auto
  show "opens_conn i e \<Longrightarrow> \<not> closes_conn j e" by (cases e) auto
qed

text \<open>Every signer and every datagram connection was closed as often as it was opened, except the
  ones in use.\<close>

definition resources_ok :: "('k, 'p) relaySupervisor \<Rightarrow> bool" where
  "resources_ok s \<longleftrightarrow>
     balanced opens_signer closes_signer (map_option tn_signer (tenant (lease s))) (sv_trace s) \<and>
     balanced opens_conn closes_conn (datagramConn s) (sv_trace s)"

text \<open>Operations that only talk to the relay.\<close>

definition only_requests :: "('k, 'p) relaySupervisor \<Rightarrow> ('k, 'p) relaySupervisor \<Rightarrow> bool" where
  "only_requests s s' \<longleftrightarrow> (\<exists>rs. s' = s\<lparr>sv_trace := sv_trace s @ map Request rs\<rparr>)"

lemma only_requests_refl [simp]: "only_requests s s"
  unfolding only_requests_def by (rule exI [of _ "[]"]) simp

lemma only_requests_record: "only_requests s (record_effect (Request r) s)"
  unfolding only_requests_def by (rule exI [of _ "[r]"]) (simp add: record_effect_def)

lemma only_requests_trans: "only_requests s t \<Longrightarrow> only_requests t u \<Longrightarrow> only_requests s u"
  unfolding only_requests_def by (auto simp flip: map_append)

lemma only_requests_fields:
  assumes "only_requests s s'"
  shows "lease s' = lease s" "datagramConn s' = datagramConn s" "controlClient s' = controlClient s"
    "nextLeaseGeneration s' = nextLeaseGeneration s" "identity s' = identity s" "timings s' = timings s"
    "udpEnabled s' = udpEnabled s" "authority s' = authority s" "sv_relayURL s' = sv_relayURL s"
    "publicHostname s' = publicHostname s" "relayPort s' = relayPort s" "controlTLS s' = controlTLS s"
    "set (sv_trace s) \<subseteq> set (sv_trace s')"
  using assms by (auto simp: only_requests_def)

lemma balanced_requests:
  "balanced opens_signer closes_signer held (hist @ map Request rs) = balanced opens_signer closes_signer held hist"
  "balanced opens_conn closes_conn held' (hist @ map Request rs) = balanced opens_conn closes_conn held' hist"
proof -
  have "filter (\<lambda>e. opens_signer i e) (map Request rs) = []" "filter (\<lambda>e. closes_signer i e) (map Request rs) = []"
    "filter (\<lambda>e. opens_conn i e) (map Request rs) = []" "filter (\<lambda>e. closes_conn i e) (map Request rs) = []" for i
    by (auto simp: filter_empty_conv)
  then show "balanced opens_signer closes_signer held (hist @ map Request rs) = balanced opens_signer closes_signer held hist"
    "balanced opens_conn closes_conn held' (hist @ map Request rs) = balanced opens_conn closes_conn held' hist"
    by (simp_all add: balanced_def)
qed

lemma resources_requests: "only_requests s s' \<Longrightarrow> resources_ok s' = resources_ok s"
  by (auto simp: only_requests_def resources_ok_def balanced_requests)

lemma doAPI_requests: "doAPI env m path body out s = (s', r) \<Longrightarrow> only_requests s s'"
  using doAPI_state [of env m path body out s] only_requests_record by fastforce

lemma callAPI_requests: "callAPI env m path body dec s = (s', r) \<Longrightarrow> only_requests s s'"
  by (auto simp: callAPI_def dest: doAPI_requests split: prod.splits sum.splits option.splits)

lemma api_result_Some: "api_result env (Some dec) r \<noteq> Inr None"
  by (simp add: api_result_def split: sum.split option.split prod.split)

text \<open>The unreachable branch of \<open>callAPI\<close>.\<close>

lemma doAPI_Some: "snd (doAPI env m path body (Some dec) s) \<noteq> Inr None"
  using api_result_Some by (auto simp: doAPI_def Let_def split: option.split sum.split)

lemma unregisterToken_requests: "unregisterToken env tok s = (s', r) \<Longrightarrow> only_requests s s'"
  by (auto simp: unregisterToken_def dest: doAPI_requests split: prod.splits sum.splits if_splits)

lemma giveBack_requests: "giveBack env w tok e s = (s', r) \<Longrightarrow> only_requests s s'"
  by (auto simp: giveBack_def dest: unregisterToken_requests split: prod.splits option.splits if_splits)

text \<open>The request that gives a token back to the relay.\<close>

definition unregister_request :: "('k, 'p) relaySupervisor \<Rightarrow> string \<Rightarrow> effect" where
  "unregister_request s tok = Request (HttpRequest MethodPost (sv_relayURL s @ pathUnregister) (Some (UnregisterRequest tok)))"

text \<open>A relay URL and a JSON library with which requests can be built.\<close>

definition can_request :: "relay_env \<Rightarrow> ('k, 'p) relaySupervisor \<Rightarrow> bool" where
  "can_request env s \<longleftrightarrow> (\<forall>path \<in> {pathDomain, pathRegisterChallenge, pathRegister, pathRenew, pathUnregister}.
     url_parse (sv_relayURL s @ path) \<noteq> None) \<and> (\<forall>b. \<exists>t. json_Marshal env b = Inr t)"

lemma can_request_fields: "sv_relayURL s' = sv_relayURL s \<Longrightarrow> can_request env s' = can_request env s"
  by (simp add: can_request_def)

lemma unregisterToken_sends:
  assumes "tok \<noteq> []" "controlClient s" "can_request env s" "unregisterToken env tok s = (s', r)"
  shows "s' = record_effect (unregister_request s tok) s"
proof -
  have "doAPI env MethodPost pathUnregister (Some (UnregisterRequest tok)) (None :: (string \<Rightarrow> go_error + unit) option) s
    = (record_effect (unregister_request s tok) s,
       case http_Do env (HttpRequest MethodPost (sv_relayURL s @ pathUnregister) (Some (UnregisterRequest tok))) of
       Inl e \<Rightarrow> Inl (Wrapped ''relay request'' e) | Inr r \<Rightarrow> api_result env None r)"
    unfolding unregister_request_def using assms(2,3) by (intro doAPI_ready) (auto simp: can_request_def)
  with assms(1,2,4) show ?thesis by (auto simp: unregisterToken_def split: sum.splits)
qed

lemma giveBack_sends:
  assumes "tok \<noteq> []" "controlClient s" "can_request env s" "giveBack env w tok e s = (s', r)"
  shows "unregister_request s tok \<in> set (sv_trace s')"
proof -
  obtain s1 u where u: "unregisterToken env tok s = (s1, u)" by fastforce
  then have "s' = s1" using assms(1,4) by (auto simp: giveBack_def split: option.splits)
  with unregisterToken_sends [OF assms(1-3) u] show ?thesis by simp
qed

lemma can_request_origin:
  assumes "list_all origin_char h" "port_suffix p" "sv_relayURL s = ''https://'' @ h @ p" "\<And>b. \<exists>t. json_Marshal env b = Inr t"
  shows "can_request env s"
proof -
  have "plain_path path" if "path \<in> {pathDomain, pathRegisterChallenge, pathRegister, pathRenew, pathUnregister}" for path
    using that by (auto simp: plain_path_def path_char_def char_class_defs pathDomain_def
        pathRegisterChallenge_def pathRegister_def pathRenew_def pathUnregister_def)
  then show ?thesis
    using url_parse_origin_path [OF assms(1,2)] assms(3,4) by (simp add: can_request_def)
qed

section \<open>Properties of registration\<close>

text \<open>A lease that the workers may use.\<close>

definition lease_good :: "('k, 'p) relaySupervisor \<Rightarrow> bool" where
  "lease_good s \<longleftrightarrow> token (lease s) \<noteq> [] \<and> tenant (lease s) \<noteq> None \<and>
     generation (lease s) = nextLeaseGeneration s \<and> re_Capability (reverse (lease s)) \<noteq> [] \<and>
     re_ExpiresAt (reverse (lease s)) \<le> expiresAt (lease s) \<and>
     (udpEnabled s \<longrightarrow> 0 < sniPort (lease s) \<and> sniPort (lease s) \<le> 65535 \<and> NormalizeTarget (udpAddr (lease s)) = Inr (udpAddr (lease s)))"

lemma checkRegistration_Inr:
  assumes "checkRegistration c n1 n2 s r = Inr (endpoint, addr)"
  shows "trim_space (rg_AccessToken r) \<noteq> []" "n1 < rg_ExpiresAt r"
    "validateReverseEndpoint n2 s (rg_ReverseEndpoint r) (rg_ExpiresAt r) = Inr endpoint"
    "0 \<le> rg_SNIPort r" "rg_SNIPort r \<le> 65535"
    "normalizeIdentityName (ref_Name (rg_Identity r)) = Inr (id_name (identity s))"
    "normalizeEthereumAddress c (ref_Address (rg_Identity r)) = Inr (id_address (identity s))"
    "udpEnabled s \<Longrightarrow> rg_UDPEnabled r \<and> 0 < rg_SNIPort r \<and> NormalizeTarget (rg_UDPAddr r) = Inr addr"
    "\<not> udpEnabled s \<Longrightarrow> addr = []"
  using assms by (auto simp: checkRegistration_def split: if_splits sum.splits)

lemma endpoint_facts:
  assumes "validateReverseEndpoint now s raw lx = Inr e"
  shows "re_Capability e \<noteq> []" "now < re_ExpiresAt e" "re_ExpiresAt e \<le> lx"
  using assms by (auto elim!: validate_Inr)

lemma buildTenantTLS_cases:
  assumes "buildTenantTLS sg srv s = (s', r)"
  shows "(\<exists>e. r = Inl e \<and> (s' = s \<or> (\<exists>i. s' = record_effect (CloseSigner i) (record_effect (OpenSigner i) s)))) \<or>
    (\<exists>t. r = Inr t \<and> s' = record_effect (OpenSigner (tn_signer t)) s)"
  using assms by (auto simp: buildTenantTLS_def Let_def split: sum.splits)

text \<open>The register request of an attempt.\<close>

definition register_call :: "relay_env \<Rightarrow> registerAttempt \<Rightarrow> ('k, 'p) relaySupervisor \<Rightarrow>
    ('k, 'p) relaySupervisor \<times> (go_error + registerResponse)" where
  "register_call env at s = callAPI env MethodPost pathRegister
     (Some (RegisterRequest (at_challengeID at) (at_siweMessage at) (at_signature at))) (json_Register env) s"

lemma resources_open_close:
  "resources_ok (record_effect (CloseSigner i) (record_effect (OpenSigner i) s)) = resources_ok s"
  using signers.balanced_open_close [of i "OpenSigner i" "CloseSigner i"]
    conns.balanced_other [of "OpenSigner i"]
    conns.balanced_other [of "CloseSigner i" "datagramConn s" "sv_trace s @ [OpenSigner i]"]
  by (simp add: resources_ok_def)

lemma resources_generation [simp]: "resources_ok (s\<lparr>nextLeaseGeneration := g\<rparr>) = resources_ok s"
  by (simp add: resources_ok_def)

lemma buildTenantTLS_failed:
  assumes "buildTenantTLS sg srv s = (s', Inl e)"
  shows "sv_relayURL s' = sv_relayURL s" "controlClient s' = controlClient s" "lease s' = lease s"
    "resources_ok s' = resources_ok s" "nextLeaseGeneration s' = nextLeaseGeneration s" "datagramConn s' = datagramConn s"
  using buildTenantTLS_cases [OF assms] resources_open_close by auto

lemma submit_cases:
  assumes "submitRegistration c env uenv n1 n2 sg srv at s = (s', res)"
  obtains (failed) e where "only_requests s s'" "register_call env at s = (s', Inl e)" "res = classifyRelayError (Some e) False"
  | (rejected) s1 r e e' where "only_requests s s1" "register_call env at s = (s1, Inr r)" "checkRegistration c n1 n2 s1 r = Inl e"
      "giveBack uenv ''unregister invalid lease'' (trim_space (rg_AccessToken r)) e s1 = (s', e')"
      "res = Some (terminalRelay e')"
  | (unusable) s1 r ep addr s3 e e' where "only_requests s s1" "register_call env at s = (s1, Inr r)" "checkRegistration c n1 n2 s1 r = Inr (ep, addr)"
      "buildTenantTLS sg srv (s1\<lparr>nextLeaseGeneration := nextLeaseGeneration s1 + 1\<rparr>) = (s3, Inl e)"
      "giveBack uenv ''unregister unusable lease'' (trim_space (rg_AccessToken r)) e s3 = (s', e')"
      "res = Some (terminalRelay (Wrapped ''configure tenant TLS'' e'))"
  | (leased) s1 r ep addr s3 tn where "only_requests s s1" "register_call env at s = (s1, Inr r)" "checkRegistration c n1 n2 s1 r = Inr (ep, addr)"
      "buildTenantTLS sg srv (s1\<lparr>nextLeaseGeneration := nextLeaseGeneration s1 + 1\<rparr>) = (s3, Inr tn)"
      "s' = s3\<lparr>lease := \<lparr>token = trim_space (rg_AccessToken r), expiresAt = rg_ExpiresAt r,
         publicURL = derivedPublicURL s1, udpAddr = addr, sniPort = rg_SNIPort r, reverse = ep, tenant = Some tn,
         generation = nextLeaseGeneration s1 + 1, renewing = False, tokenUncertain = False\<rparr>\<rparr>" "res = None"
proof -
  obtain s1 r1 where c: "register_call env at s = (s1, r1)"
    by fastforce
  note o = callAPI_requests [OF c [unfolded register_call_def]]
  show thesis
  proof (cases r1)
    case (Inl e)
    with assms c o show thesis by (intro failed [of e]) (auto simp: submitRegistration_def register_call_def)
  next
    case (Inr r)
    show thesis
    proof (cases "checkRegistration c n1 n2 s1 r")
      case I: (Inl e)
      with assms c o Inr rejected show thesis
        by (auto simp: submitRegistration_def register_call_def Let_def split: prod.splits)
    next
      case C: (Inr x)
      obtain ep addr where x: "x = (ep, addr)" by fastforce
      obtain s3 b where b: "buildTenantTLS sg srv (s1\<lparr>nextLeaseGeneration := nextLeaseGeneration s1 + 1\<rparr>) = (s3, b)"
        by fastforce
      show thesis
      proof (cases b)
        case (Inl e)
        with assms c o Inr C x b unusable show thesis
          by (auto simp: submitRegistration_def register_call_def Let_def split: prod.splits)
      next
        case t: (Inr tn)
        with assms c o Inr C x b show thesis
          by (intro leased [of s1 r ep addr s3 tn]) (auto simp: submitRegistration_def register_call_def Let_def)
      qed
    qed
  qed
qed

lemma registration_lease:
  assumes "submitRegistration c env uenv n1 n2 sg srv at s = (s', None)"
  shows "lease_good s' \<and> n1 < expiresAt (lease s') \<and> n2 < re_ExpiresAt (reverse (lease s')) \<and>
    generation (lease s') = nextLeaseGeneration s + 1 \<and> nextLeaseGeneration s' = nextLeaseGeneration s + 1 \<and>
    publicURL (lease s') = derivedPublicURL s \<and> \<not> renewing (lease s') \<and> \<not> tokenUncertain (lease s') \<and>
    (\<exists>s1 r. register_call env at s = (s1, Inr r) \<and> token (lease s') = trim_space (rg_AccessToken r) \<and>
       normalizeIdentityName (ref_Name (rg_Identity r)) = Inr (id_name (identity s)) \<and>
       normalizeEthereumAddress c (ref_Address (rg_Identity r)) = Inr (id_address (identity s)))"
  using assms
proof (cases rule: submit_cases)
  case (failed e)
  have "classifyRelayError (Some e) False \<noteq> None" using classify_cases [of e False] by auto
  with failed show ?thesis by simp
next
  case (leased s1 r ep addr s3 tn)
  note f = only_requests_fields [OF leased(1)]
  note ck = checkRegistration_Inr [OF leased(3)] and ep = endpoint_facts [OF checkRegistration_Inr(3) [OF leased(3)]]
  have s3: "s3 = record_effect (OpenSigner (tn_signer tn)) (s1\<lparr>nextLeaseGeneration := nextLeaseGeneration s1 + 1\<rparr>)"
    using buildTenantTLS_cases [OF leased(4)] by auto
  have "derivedPublicURL s1 = derivedPublicURL s" using f by (simp add: derivedPublicURL_def)
  moreover have "udpEnabled s1 \<Longrightarrow> NormalizeTarget addr = Inr addr"
    using ck(8) target.norm_fixed by blast
  ultimately show ?thesis
    using ck ep f leased(2,5) unfolding s3 lease_good_def by auto
qed simp_all

text \<open>C17. A successful registration installs a usable lease: a token, an expiry in the future, a
  validated reverse endpoint that does not outlive it, a tenant terminator, a fresh generation, the
  public URL derived from the relay, and for UDP a port and an address; the relay confirmed exactly the
  identity that was requested.\<close>

theorem submitRegistration_success:
  assumes "submitRegistration c env uenv n1 n2 sg srv at s = (s', None)"
  shows "lease_good s' \<and> n1 < expiresAt (lease s') \<and> n2 < re_ExpiresAt (reverse (lease s')) \<and>
    generation (lease s') = nextLeaseGeneration s + 1 \<and> nextLeaseGeneration s' = nextLeaseGeneration s + 1 \<and>
    publicURL (lease s') = derivedPublicURL s \<and> \<not> renewing (lease s') \<and> \<not> tokenUncertain (lease s') \<and>
    (\<exists>s1 r. register_call env at s = (s1, Inr r) \<and> token (lease s') = trim_space (rg_AccessToken r) \<and>
       normalizeIdentityName (ref_Name (rg_Identity r)) = Inr (id_name (identity s)) \<and>
       normalizeEthereumAddress c (ref_Address (rg_Identity r)) = Inr (id_address (identity s)))"
  using assms by (rule registration_lease)

text \<open>C18. A lease that the relay granted but that cannot be used is handed back: the supervisor sends
  an unregister request for the granted token, reports a terminal failure, leaves the lease as it was
  and keeps no signer open.\<close>

theorem submitRegistration_gives_back:
  assumes "submitRegistration c env uenv n1 n2 sg srv at s = (s', Some e)"
    and "register_call env at s = (s1, Inr r)" "trim_space (rg_AccessToken r) \<noteq> []"
    and "controlClient s" "can_request uenv s"
  shows "unregister_request s (trim_space (rg_AccessToken r)) \<in> set (sv_trace s') \<and>
    isTerminalRelayFailure e \<and> lease s' = lease s \<and> (resources_ok s \<longrightarrow> resources_ok s')"
  using assms(1)
proof (cases rule: submit_cases)
  case (failed e)
  then show ?thesis using assms(2) by simp
next
  case (rejected t1 q d e')
  have t: "t1 = s1" "q = r" using rejected(2) assms(2) by simp_all
  note f = only_requests_fields [OF rejected(1)]
  have "can_request uenv t1" using assms(5) can_request_fields [OF f(9)] by blast
  then have "unregister_request t1 (trim_space (rg_AccessToken r)) \<in> set (sv_trace s')"
    using giveBack_sends [OF assms(3) _ _ rejected(4) [unfolded t]] assms(4) f t by simp
  moreover have o: "only_requests s s'"
    using only_requests_trans [OF rejected(1) giveBack_requests [OF rejected(4)]] .
  ultimately show ?thesis
    using rejected(5) f(9) only_requests_fields(1) [OF o] resources_requests [OF o]
    by (simp add: unregister_request_def)
next
  case (unusable t1 q ep addr s3 d e')
  have t: "t1 = s1" "q = r" using unusable(2) assms(2) by simp_all
  note f = only_requests_fields [OF unusable(1)]
  have s3: "sv_relayURL s3 = sv_relayURL s" "controlClient s3 = controlClient s" "lease s3 = lease s"
    "resources_ok s3 = resources_ok s"
    using buildTenantTLS_failed [OF unusable(4)] f resources_requests [OF unusable(1)] by simp_all
  have "can_request uenv s3" using assms(5) can_request_fields [OF s3(1)] by blast
  then have "unregister_request s3 (trim_space (rg_AccessToken r)) \<in> set (sv_trace s')"
    using giveBack_sends [OF assms(3) _ _ unusable(5) [unfolded t]] assms(4) s3 by simp
  moreover note g = giveBack_requests [OF unusable(5)]
  ultimately show ?thesis
    using unusable(6) s3 only_requests_fields(1) [OF g] resources_requests [OF g]
    by (simp add: unregister_request_def)
qed simp

text \<open>A supervisor, an environment and a register response for the witnesses.\<close>

definition sample_identity :: "byte list Identity" where
  "sample_identity = identityFromKey sample_crypto ''app'' (PrivKeyFromBytes sample_crypto (replicate 32 1))"

definition sample_sv :: "(byte list, unit) relaySupervisor" where
  "sample_sv = \<lparr>sv_relayURL = ''https://rly.best'', authority = ''rly.best'', hostname = ''rly.best'',
     relayPort = [], dialAddress = ''rly.best:443'', publicHostname = ''app.rly.best'',
     identity = sample_identity, timings = defaultRelayTimings, udpEnabled = False, controlTLS = None,
     certificateChain = [], controlClient = True, lease = zero_lease, nextLeaseGeneration = 0,
     datagramConn = None, sv_trace = []\<rparr>"

definition sample_endpoint :: reverseEndpoint where
  "sample_endpoint = \<lparr>re_URL = ''https://rly.best/sdk/connect'', re_Capability = ''c'', re_ExpiresAt = 50, re_Overlay = False\<rparr>"

definition sample_register :: registerResponse where
  "sample_register = \<lparr>rg_Identity = \<lparr>ref_Name = ''app'', ref_Address = id_address sample_identity\<rparr>,
     rg_ExpiresAt = 100, rg_AccessToken = ''t'', rg_ReverseEndpoint = sample_endpoint, rg_SNIPort = 0,
     rg_UDPAddr = [], rg_UDPEnabled = False\<rparr>"

definition sample_env :: relay_env where
  "sample_env = \<lparr>http_Do = \<lambda>_. Inr \<lparr>rsp_status = 200, rsp_retry_after = [], rsp_body = ''{}'', rsp_body_error = None\<rparr>,
     json_Marshal = \<lambda>_. Inr [], json_Envelope = \<lambda>_. Inr \<lparr>ev_Data = ''{}'', ev_Error = None, ev_OK = True\<rparr>,
     json_Domain = \<lambda>_. Inr ''10'', json_Challenge = \<lambda>_. Inl EOF, json_Register = \<lambda>_. Inr sample_register,
     json_Renew = \<lambda>_. Inr \<lparr>rn_ExpiresAt = 200, rn_AccessToken = ''u'', rn_ReverseEndpoint = sample_endpoint\<rparr>,
     http_ParseTime = \<lambda>_. None, time_Now = 0\<rparr>"

lemma own_address_normal:
  assumes "crypto_laws c"
  shows "normalizeEthereumAddress c (ethereumAddress c k) = Inr (ethereumAddress c k)"
proof -
  obtain lower where "address_text lower" "ethereumAddress c k = checksumEthereumAddress c lower"
    using assms by (rule ethereumAddress_text)
  then show ?thesis by (simp add: checksum_accepted)
qed

lemma trim_literals [simp]: "trim_space ''{}'' = ''{}''" "trim_space ''t'' = ''t''" "trim_space ''u'' = ''u''"
  by (rule trim_space_all_graphic, simp add: is_graphic_def)+

lemma sample_api: "api_result sample_env (Some dec) \<lparr>rsp_status = 200, rsp_retry_after = [], rsp_body = ''{}'', rsp_body_error = None\<rparr>
    = (case dec ''{}'' of Inl e \<Rightarrow> Inl (MalformedRelayResponseError (Wrapped ''decode successful relay data'' e)) | Inr v \<Rightarrow> Inr (Some v))"
  by (simp add: api_result_def sample_env_def success_status_def readBoundedControlBody_def maxControlResponseBytes_def)

lemma sample_can_request: "sv_relayURL s = ''https://rly.best'' \<Longrightarrow> can_request sample_env s"
  using can_request_origin [OF rly_best_origin, of s sample_env] by (simp add: sample_env_def)

lemma sample_call:
  assumes "sv_relayURL s = ''https://rly.best''" "controlClient s"
    "path \<in> {pathDomain, pathRegisterChallenge, pathRegister, pathRenew, pathUnregister}" "dec ''{}'' = Inr v"
  shows "callAPI sample_env m path body dec s = (record_effect (Request (HttpRequest m (sv_relayURL s @ path) body)) s, Inr v)"
proof -
  have "doAPI sample_env m path body (Some dec) s = (record_effect (Request (HttpRequest m (sv_relayURL s @ path) body)) s,
     api_result sample_env (Some dec) \<lparr>rsp_status = 200, rsp_retry_after = [], rsp_body = ''{}'', rsp_body_error = None\<rparr>)"
    using sample_can_request [OF assms(1)] assms(2,3)
    by (subst doAPI_ready) (auto simp: can_request_def sample_env_def)
  then show ?thesis using assms(4) by (simp add: callAPI_def sample_api)
qed

lemma sample_register_call: "register_call sample_env at sample_sv =
    (record_effect (Request (HttpRequest MethodPost (sv_relayURL sample_sv @ pathRegister)
       (Some (RegisterRequest (at_challengeID at) (at_siweMessage at) (at_signature at))))) sample_sv, Inr sample_register)"
  unfolding register_call_def by (rule sample_call) (simp_all add: sample_sv_def, simp add: sample_env_def)

lemma sample_endpoint_ok: "authority s = ''rly.best'' \<Longrightarrow> now < 50 \<Longrightarrow> 50 \<le> lx \<Longrightarrow>
    validateReverseEndpoint now s sample_endpoint lx = Inr sample_endpoint"
  by (rule endpoint_accepted [OF rly_best_origin(1) _ rly_best_origin(2), where c = "''c''" and x = 50])
    (simp_all add: sample_endpoint_def is_graphic_def)

lemma sample_check:
  assumes "identity s = sample_identity" "authority s = ''rly.best''" "\<not> udpEnabled s"
  shows "checkRegistration sample_crypto 0 0 s sample_register = Inr (sample_endpoint, [])"
proof -
  have "normalizeIdentityName ''app'' = Inr ''app''" by (rule valid_name_fixed [OF sample_name])
  moreover have "id_name sample_identity = ''app''" by (simp add: sample_identity_def identityFromKey_def)
  moreover have "normalizeEthereumAddress sample_crypto (id_address sample_identity) = Inr (id_address sample_identity)"
    by (simp add: sample_identity_def identityFromKey_def own_address_normal [OF sample_laws])
  ultimately show ?thesis
    using assms sample_endpoint_ok [OF assms(2)] by (simp add: checkRegistration_def sample_register_def)
qed

definition sample_attempt :: registerAttempt where
  "sample_attempt = \<lparr>at_challengeID = ''i'', at_siweMessage = ''m'', at_signature = ''s'', at_expiresAt = 10\<rparr>"

theorem submitRegistration_success_witness:
  "\<exists>s'. submitRegistration sample_crypto sample_env sample_env 0 0 (Inr 1) (Inr 2) sample_attempt sample_sv = (s', None) \<and> lease_good s'"
proof -
  let ?r = "submitRegistration sample_crypto sample_env sample_env 0 0 (Inr 1) (Inr 2) sample_attempt sample_sv"
  have "snd ?r = None"
    unfolding submitRegistration_def register_call_def [symmetric] sample_register_call
    by (simp add: sample_check sample_sv_def buildTenantTLS_def Let_def)
  then have "?r = (fst ?r, None)" by (simp add: prod_eq_iff)
  with submitRegistration_success [OF this] show ?thesis by blast
qed

theorem submitRegistration_gives_back_witness:
  "\<exists>s' e. submitRegistration sample_crypto sample_env sample_env 0 0 (Inl EOF) (Inr 2) sample_attempt sample_sv = (s', Some e) \<and>
     unregister_request sample_sv ''t'' \<in> set (sv_trace s')"
proof -
  let ?r = "submitRegistration sample_crypto sample_env sample_env 0 0 (Inl EOF) (Inr 2) sample_attempt sample_sv"
  have "snd ?r \<noteq> None"
    unfolding submitRegistration_def register_call_def [symmetric] sample_register_call
    by (simp add: sample_check sample_sv_def buildTenantTLS_def Let_def split: prod.split)
  then obtain e where r: "?r = (fst ?r, Some e)" by (cases ?r) auto
  have "trim_space (rg_AccessToken sample_register) = ''t''" by (simp add: sample_register_def)
  moreover have "controlClient sample_sv" "can_request sample_env sample_sv"
    using sample_can_request [of sample_sv] by (simp_all add: sample_sv_def)
  ultimately show ?thesis
    using submitRegistration_gives_back [OF r sample_register_call] r by auto
qed

section \<open>Properties of renewal\<close>

text \<open>Two states with the same lease up to the renewal flags.\<close>

definition same_lease :: "('k, 'p) relaySupervisor \<Rightarrow> ('k, 'p) relaySupervisor \<Rightarrow> bool" where
  "same_lease s s' \<longleftrightarrow> (lease s')\<lparr>renewing := False, tokenUncertain := False\<rparr>
       = (lease s)\<lparr>renewing := False, tokenUncertain := False\<rparr> \<and>
     nextLeaseGeneration s' = nextLeaseGeneration s \<and> datagramConn s' = datagramConn s \<and> udpEnabled s' = udpEnabled s"

lemma same_lease_good: "same_lease s s' \<Longrightarrow> lease_good s' = lease_good s"
  by (cases "lease s"; cases "lease s'") (auto simp: same_lease_def lease_good_def)

lemma beginRenewal_True:
  "beginRenewal tok gen s = (s1, True) \<longleftrightarrow>
     token (lease s) = tok \<and> generation (lease s) = gen \<and> \<not> renewing (lease s) \<and>
     s1 = s\<lparr>lease := (lease s)\<lparr>tokenUncertain := True, renewing := True\<rparr>\<rparr>"
  by (auto simp: beginRenewal_def)

lemma clearDatagramConn_None:
  "datagramConn (clearDatagramConn None reason s) = None"
  "lease (clearDatagramConn None reason s) = lease s" "udpEnabled (clearDatagramConn None reason s) = udpEnabled s"
  "nextLeaseGeneration (clearDatagramConn None reason s) = nextLeaseGeneration s"
  "controlClient (clearDatagramConn None reason s) = controlClient s"
  "sv_relayURL (clearDatagramConn None reason s) = sv_relayURL s"
  by (simp_all add: clearDatagramConn_def split: option.split)

lemma resources_clearConn: "resources_ok s \<Longrightarrow> resources_ok (clearDatagramConn expected reason s)"
  using signers.balanced_other [of "CloseConn i reason" for i] conns.balanced_close
  by (auto simp: clearDatagramConn_def resources_ok_def split: option.split)

lemma resources_flags [simp]: "tenant l = tenant (lease s) \<Longrightarrow> resources_ok (s\<lparr>lease := l\<rparr>) = resources_ok s"
  by (simp add: resources_ok_def)

lemma renewFailed_Continue:
  "renewFailed i expiry e s = Continue \<Longrightarrow> rw_now_failed i < expiry \<and> rw_retry_wait i \<and>
     0 < renewRetryDelay (retryWait (timings s)) e (expiry - rw_now_remaining i)"
  by (auto simp: renewFailed_def Let_def split: if_splits option.splits)

text \<open>What the renewal request brought back.\<close>

definition renew_call :: "relay_env \<Rightarrow> ('k, 'p) relaySupervisor \<Rightarrow> ('k, 'p) relaySupervisor \<Rightarrow>
    ('k, 'p) relaySupervisor \<times> (go_error + renewResponse)" where
  "renew_call env s s1 = callAPI env MethodPost pathRenew
     (Some (RenewRequest (token (lease s)) (ttlSeconds (timings s)))) (json_Renew env) s1"

text \<open>The answer on which a round renews the lease: the round asks (the lease has a token, is in force and
  is not being renewed, and the wait was not cut short), the relay answers the request for the current
  token with success, and the answer has a token, an expiry ahead and an endpoint that passes the checks.\<close>

definition renewal_answer :: "relay_env \<Rightarrow> renew_inputs \<Rightarrow> ('k, 'p) relaySupervisor \<Rightarrow> (renewResponse \<times> reverseEndpoint) option" where
  "renewal_answer env i s =
     (if token (lease s) = [] \<or> \<not> rw_now_check i < expiresAt (lease s) \<or>
         expiresAt (lease s) - renewBefore (timings s) - rw_now_until i > 0 \<and> \<not> rw_wait i \<or> renewing (lease s) then None
      else
        (case renew_call env s (s\<lparr>lease := (lease s)\<lparr>tokenUncertain := True, renewing := True\<rparr>\<rparr>) of
           (_, Inl _) \<Rightarrow> None
         | (s2, Inr r) \<Rightarrow>
             if trim_space (rn_AccessToken r) = [] \<or> \<not> rw_now_response i < rn_ExpiresAt r then None
             else (case validateReverseEndpoint (rw_now_endpoint i) s2 (rn_ReverseEndpoint r) (rn_ExpiresAt r) of
                 Inl _ \<Rightarrow> None
               | Inr endpoint \<Rightarrow> Some (r, endpoint))))"

lemma renewRound_cases:
  assumes "renewRound env i s = (s', out)"
  obtains (idle) "s' = s" "out \<noteq> Continue" "renewal_answer env i s = None"
  | (failed) s1 s2 e where "beginRenewal (token (lease s)) (generation (lease s)) s = (s1, True)"
      "renew_call env s s1 = (s2, Inl e)" "s' = endRenewal (generation (lease s)) s2"
      "out = Return None \<or> (\<exists>e'. out = renewFailed i (expiresAt (lease s)) e' s')" "renewal_answer env i s = None"
  | (refused) s1 r e where "beginRenewal (token (lease s)) (generation (lease s)) s = (s1, True)"
      "renew_call env s s1 = (s', Inr r)" "out = Return (Some (terminalRelay e))" "renewal_answer env i s = None"
  | (committed) s1 s2 r ep s3 ok where "beginRenewal (token (lease s)) (generation (lease s)) s = (s1, True)"
      "renew_call env s s1 = (s2, Inr r)" "trim_space (rn_AccessToken r) \<noteq> []" "rw_now_response i < rn_ExpiresAt r"
      "validateReverseEndpoint (rw_now_endpoint i) s2 (rn_ReverseEndpoint r) (rn_ExpiresAt r) = Inr ep"
      "commitRenewal (token (lease s)) (generation (lease s)) (trim_space (rn_AccessToken r)) (rn_ExpiresAt r) ep s2 = (s3, ok)"
      "if ok then s' = clearDatagramConn None ''lease renewed'' s3 \<and> out = Continue
       else s' = s3 \<and> out = Return (Some ErrLeaseRefresh)" "renewal_answer env i s = Some (r, ep)"
proof (cases "token (lease s) = [] \<or> \<not> rw_now_check i < expiresAt (lease s) \<or>
    expiresAt (lease s) - renewBefore (timings s) - rw_now_until i > 0 \<and> \<not> rw_wait i \<or>
    \<not> snd (beginRenewal (token (lease s)) (generation (lease s)) s)")
  case True
  then show thesis
    using assms by (intro idle) (auto simp: renewRound_def renewal_answer_def beginRenewal_def Let_def split: if_splits)
next
  case False
  then obtain s1 where b: "beginRenewal (token (lease s)) (generation (lease s)) s = (s1, True)"
    by (cases "beginRenewal (token (lease s)) (generation (lease s)) s") simp
  obtain s2 res where c: "renew_call env s s1 = (s2, res)" by fastforce
  have s1: "s1 = s\<lparr>lease := (lease s)\<lparr>tokenUncertain := True, renewing := True\<rparr>\<rparr>" "\<not> renewing (lease s)"
    using b by (simp_all add: beginRenewal_True)
  have answer: "renewal_answer env i s = (case res of Inl _ \<Rightarrow> None
      | Inr r \<Rightarrow> if trim_space (rn_AccessToken r) = [] \<or> \<not> rw_now_response i < rn_ExpiresAt r then None
          else (case validateReverseEndpoint (rw_now_endpoint i) s2 (rn_ReverseEndpoint r) (rn_ExpiresAt r) of
              Inl _ \<Rightarrow> None | Inr endpoint \<Rightarrow> Some (r, endpoint)))"
    using False c s1(2) unfolding renewal_answer_def s1(1) by (cases res) auto
  have "renewRound env i s = settleRenewal i (token (lease s)) (generation (lease s)) (expiresAt (lease s)) (s2, res)"
    using False b c unfolding renewRound_def renew_call_def Let_def by (auto split: if_splits)
  with assms have rr: "settleRenewal i (token (lease s)) (generation (lease s)) (expiresAt (lease s)) (s2, res) = (s', out)"
    by simp
  show thesis
  proof (cases res)
    case (Inl e)
    with rr c b show thesis
      by (intro failed [of s1 s2 e]) (auto simp: settleRenewal_def Let_def answer split: option.splits)
  next
    case (Inr r)
    show thesis
    proof (cases "trim_space (rn_AccessToken r) = [] \<or> \<not> rw_now_response i < rn_ExpiresAt r")
      case True
      with rr Inr c b show thesis
        by (auto simp: settleRenewal_def answer split: if_splits intro: refused [of s1 r])
    next
      case ok: False
      show thesis
      proof (cases "validateReverseEndpoint (rw_now_endpoint i) s2 (rn_ReverseEndpoint r) (rn_ExpiresAt r)")
        case (Inl e)
        with rr Inr c b ok show thesis by (auto simp: settleRenewal_def answer intro: refused [of s1 r])
      next
        case v: (Inr ep)
        obtain s3 k where k: "commitRenewal (token (lease s)) (generation (lease s)) (trim_space (rn_AccessToken r))
            (rn_ExpiresAt r) ep s2 = (s3, k)" by fastforce
        with rr Inr c b ok v show thesis
          by (intro committed [of s1 s2 r ep s3 k]) (auto simp: settleRenewal_def answer split: bool.splits)
      qed
    qed
  qed
qed

lemma endRenewal_same:
  assumes "generation (lease s2) = gen"
  shows "endRenewal gen s2 = s2\<lparr>lease := (lease s2)\<lparr>renewing := False\<rparr>\<rparr>"
  using assms by (simp add: endRenewal_def)

text \<open>The state of a round when the request has been made.\<close>

lemma renewal_request:
  assumes "beginRenewal (token (lease s)) (generation (lease s)) s = (s1, True)" "renew_call env s s1 = (s2, res)"
  shows "lease s2 = (lease s)\<lparr>tokenUncertain := True, renewing := True\<rparr>" "nextLeaseGeneration s2 = nextLeaseGeneration s"
    "datagramConn s2 = datagramConn s" "udpEnabled s2 = udpEnabled s" "resources_ok s2 = resources_ok s"
proof -
  note f = only_requests_fields [OF callAPI_requests [OF assms(2) [unfolded renew_call_def]]]
  have s1: "s1 = s\<lparr>lease := (lease s)\<lparr>tokenUncertain := True, renewing := True\<rparr>\<rparr>"
    using assms(1) by (simp add: beginRenewal_True)
  show "lease s2 = (lease s)\<lparr>tokenUncertain := True, renewing := True\<rparr>" "nextLeaseGeneration s2 = nextLeaseGeneration s"
    "datagramConn s2 = datagramConn s" "udpEnabled s2 = udpEnabled s" by (simp_all add: f s1)
  show "resources_ok s2 = resources_ok s"
    using resources_requests [OF callAPI_requests [OF assms(2) [unfolded renew_call_def]]] by (simp add: s1)
qed

text \<open>C16. A renewal round does what the relay answered. If the relay answered with a renewal that passes
  the checks, the round installs the token, the expiry and the endpoint of that answer with the next
  generation, clears both renewal flags, keeps the terminator and the public URL, drops the datagram
  connection and goes on; the comparison with the captured token cannot fail. Otherwise the lease is the
  same up to the renewal flags. In both cases nothing leaks and a usable lease stays usable.\<close>

theorem renewRound_installs_answer:
  assumes "renewRound env i s = (s', out)" "lease_good s" "resources_ok s"
  shows "lease_good s' \<and> resources_ok s' \<and>
    (case renewal_answer env i s of
       None \<Rightarrow> same_lease s s'
     | Some (r, endpoint) \<Rightarrow>
         out = Continue \<and> token (lease s') = trim_space (rn_AccessToken r) \<and> expiresAt (lease s') = rn_ExpiresAt r \<and>
         reverse (lease s') = endpoint \<and> generation (lease s') = generation (lease s) + 1 \<and>
         \<not> renewing (lease s') \<and> \<not> tokenUncertain (lease s') \<and> tenant (lease s') = tenant (lease s) \<and>
         publicURL (lease s') = publicURL (lease s) \<and> datagramConn s' = None)"
  using assms(1)
proof (cases rule: renewRound_cases)
  case idle
  then show ?thesis using assms(2,3) by (simp add: same_lease_def)
next
  case (failed s1 s2 e)
  note f = renewal_request [OF failed(1,2)]
  have "s' = s2\<lparr>lease := (lease s2)\<lparr>renewing := False\<rparr>\<rparr>" unfolding failed(3) by (rule endRenewal_same) (simp add: f)
  then have "same_lease s s'" "resources_ok s'" using assms(3) f by (simp_all add: same_lease_def)
  then show ?thesis using assms(2) same_lease_good failed(5) by auto
next
  case (refused s1 r e)
  note f = renewal_request [OF refused(1,2)]
  have "same_lease s s'" "resources_ok s'" using assms(3) f by (simp_all add: same_lease_def)
  then show ?thesis using assms(2) same_lease_good refused(4) by auto
next
  case (committed s1 s2 r ep s3 ok)
  note f = renewal_request [OF committed(1,2)]
  have s3: "s3 = s2\<lparr>nextLeaseGeneration := nextLeaseGeneration s2 + 1,
      lease := (lease s2)\<lparr>token := trim_space (rn_AccessToken r), expiresAt := rn_ExpiresAt r, reverse := ep,
        renewing := False, tokenUncertain := False, generation := nextLeaseGeneration s2 + 1\<rparr>\<rparr>" and ok: ok
    using committed(6) by (auto simp: commitRenewal_def f split: if_splits)
  have s': "s' = clearDatagramConn None ''lease renewed'' s3" "out = Continue" using committed(7) ok by auto
  have "resources_ok s3" using assms(3) f(5) by (simp add: resources_ok_def s3)
  then have "resources_ok s'" unfolding s' by (rule resources_clearConn)
  moreover have "lease_good s'"
    using assms(2) endpoint_facts [OF committed(5)] committed(3)
    by (simp add: lease_good_def s' clearDatagramConn_None s3 f)
  ultimately show ?thesis
    using assms(2) committed(8) s'(2)
    by (simp add: s'(1) clearDatagramConn_None s3 f lease_good_def)
qed

text \<open>A failed renewal is tried again only while the lease lasts: the delay is positive and ends no
  later than the lease, and it is the ordinary retry delay when that fits.\<close>

theorem renewRound_retry_within_lease:
  assumes "renewRound env i s = (s', Continue)" "same_lease s s'"
  shows "\<exists>e delay. delay = min (relayRetryDelay (retryWait (timings s)) e) (expiresAt (lease s) - rw_now_remaining i) \<and>
    0 < delay \<and> rw_now_remaining i + delay \<le> expiresAt (lease s) \<and> rw_now_failed i < expiresAt (lease s) \<and>
    \<not> renewing (lease s') \<and> tokenUncertain (lease s')"
  using assms(1)
proof (cases rule: renewRound_cases)
  case (failed s1 s2 e)
  note f = only_requests_fields [OF callAPI_requests [OF failed(2) [unfolded renew_call_def]]]
  have s1: "s1 = s\<lparr>lease := (lease s)\<lparr>tokenUncertain := True, renewing := True\<rparr>\<rparr>"
    using failed(1) by (simp add: beginRenewal_True)
  have s': "s' = s2\<lparr>lease := (lease s2)\<lparr>renewing := False\<rparr>\<rparr>"
    unfolding failed(3) by (rule endRenewal_same) (simp add: f s1)
  obtain e' where "renewFailed i (expiresAt (lease s)) e' s' = Continue"
    using failed(4) by (metis round.distinct(1))
  from renewFailed_Continue [OF this] show ?thesis
    by (intro exI [of _ e']) (auto simp: s' f s1 renewRetryDelay_def Let_def min_def split: if_splits)
next
  case (committed s1 s2 r ep s3 ok)
  note f = only_requests_fields [OF callAPI_requests [OF committed(2) [unfolded renew_call_def]]]
  have "ok" using committed(7) by (auto split: if_splits)
  then have "nextLeaseGeneration s' = nextLeaseGeneration s + 1"
    using committed(1,6,7) f(4) by (auto simp: commitRenewal_def clearDatagramConn_None beginRenewal_True split: if_splits)
  with assms(2) show ?thesis by (simp add: same_lease_def)
qed simp_all

definition sample_leased :: "(byte list, unit) relaySupervisor" where
  "sample_leased = sample_sv\<lparr>lease := \<lparr>token = ''t'', expiresAt = 100, publicURL = ''https://app.rly.best'', udpAddr = [],
     sniPort = 0, reverse = sample_endpoint, tenant = Some \<lparr>tn_server = 2, tn_signer = 1, tn_errs = \<lambda>_. None\<rparr>,
     generation = 0, renewing = False, tokenUncertain = False\<rparr>, sv_trace := [OpenSigner 1]\<rparr>"

definition sample_inputs :: renew_inputs where
  "sample_inputs = \<lparr>rw_now_check = 0, rw_now_until = 0, rw_wait = True, rw_now_failed = 0, rw_now_remaining = 0,
     rw_retry_wait = True, rw_now_response = 0, rw_now_endpoint = 0, rw_ctx_err = None\<rparr>"

lemma sample_leased_ok: "lease_good sample_leased" "resources_ok sample_leased"
  using signers.balanced_open [of "[]" 1 "OpenSigner 1"] conns.balanced_other [of "OpenSigner 1" None "[]"]
  by (simp_all add: lease_good_def resources_ok_def sample_leased_def sample_sv_def sample_endpoint_def)

lemma sample_renewal_answer:
  "renewal_answer sample_env sample_inputs sample_leased =
     Some (\<lparr>rn_ExpiresAt = 200, rn_AccessToken = ''u'', rn_ReverseEndpoint = sample_endpoint\<rparr>, sample_endpoint)"
proof -
  let ?s1 = "sample_leased\<lparr>lease := (lease sample_leased)\<lparr>tokenUncertain := True, renewing := True\<rparr>\<rparr>"
  have c: "\<exists>x. renew_call sample_env sample_leased ?s1 = (record_effect x ?s1,
      Inr \<lparr>rn_ExpiresAt = 200, rn_AccessToken = ''u'', rn_ReverseEndpoint = sample_endpoint\<rparr>)"
    unfolding renew_call_def
    by (rule exI, rule sample_call) (simp_all add: sample_leased_def sample_sv_def, simp add: sample_env_def)
  have v: "validateReverseEndpoint 0 (record_effect x ?s1) sample_endpoint 200 = Inr sample_endpoint" for x
    by (rule sample_endpoint_ok) (simp_all add: record_effect_def sample_leased_def sample_sv_def)
  have l: "token (lease sample_leased) \<noteq> []" "expiresAt (lease sample_leased) = 100" "\<not> renewing (lease sample_leased)"
    by (simp_all add: sample_leased_def)
  show ?thesis using c v l unfolding renewal_answer_def by (auto simp: sample_inputs_def)
qed

theorem renewRound_installs_answer_witness:
  "\<exists>s'. renewRound sample_env sample_inputs sample_leased = (s', Continue) \<and> token (lease s') = ''u'' \<and>
     expiresAt (lease s') = 200 \<and> generation (lease s') = 1"
proof -
  have "generation (lease sample_leased) = 0" by (simp add: sample_leased_def)
  with renewRound_installs_answer [OF prod.collapse [symmetric] sample_leased_ok, of sample_env sample_inputs]
  show ?thesis by (intro exI [of _ "fst (renewRound sample_env sample_inputs sample_leased)"])
      (auto simp: sample_renewal_answer prod_eq_iff)
qed

lemma offline_renew: "renewRound offline_env sample_inputs sample_leased =
    (record_effect (Request (HttpRequest MethodPost (sv_relayURL sample_leased @ pathRenew) (Some (RenewRequest ''t'' 120))))
       (sample_leased\<lparr>lease := (lease sample_leased)\<lparr>tokenUncertain := True\<rparr>\<rparr>), Continue)"
proof -
  let ?s1 = "sample_leased\<lparr>lease := (lease sample_leased)\<lparr>tokenUncertain := True, renewing := True\<rparr>\<rparr>"
  have tok: "token (lease sample_leased) = ''t''" "expiresAt (lease sample_leased) = 100" "generation (lease sample_leased) = 0"
    "timings sample_leased = defaultRelayTimings" "renewing (lease sample_leased) = False"
    by (simp_all add: sample_leased_def sample_sv_def)
  have ttl: "ttlSeconds defaultRelayTimings = 120"
    by (simp add: ttlSeconds_def go_div_def wrap64_def defaultRelayTimings_def)
  have url: "url_parse (sv_relayURL ?s1 @ pathRenew) \<noteq> None"
    using sample_can_request [of ?s1] by (simp add: can_request_def sample_leased_def sample_sv_def)
  have err: "callAPI offline_env MethodPost pathRenew (Some (RenewRequest ''t'' 120)) (json_Renew offline_env) ?s1 =
      (record_effect (Request (HttpRequest MethodPost (sv_relayURL ?s1 @ pathRenew) (Some (RenewRequest ''t'' 120)))) ?s1,
       Inl (Wrapped ''relay request'' (NetworkError EOF)))"
    unfolding callAPI_def
    by (subst doAPI_ready) (use url in \<open>simp_all add: offline_env_def sample_leased_def sample_sv_def\<close>)
  have cls: "classifyRelayError (Some (Wrapped ''relay request'' (NetworkError EOF))) True
      = Some (Wrapped ''relay request'' (NetworkError EOF))"
    by (simp add: classifyRelayError_def errors_As_def errors_Is_def isLostLeaseError_def
        isCertificateValidationError_def terminal_iff)
  have fail: "renewFailed sample_inputs 100 (Wrapped ''relay request'' (NetworkError EOF)) s = Continue"
    if "timings s = defaultRelayTimings" for s :: "(byte list, unit) relaySupervisor"
    using that by (simp add: renewFailed_def renewRetryDelay_def relayRetryDelay_def errors_As_def errors_Is_def
        terminal_iff sample_inputs_def defaultRelayTimings_def Let_def)
  have i: "rw_now_check sample_inputs = 0" "rw_wait sample_inputs" by (simp_all add: sample_inputs_def)
  have "record_effect e (s\<lparr>lease := l\<rparr>) = (record_effect e s)\<lparr>lease := l\<rparr>" for e l and s :: "(byte list, unit) relaySupervisor"
    by (simp add: record_effect_def)
  then show ?thesis
    unfolding renewRound_def Let_def tok beginRenewal_def ttl
    by (simp add: i err settleRenewal_def cls fail tok endRenewal_def Let_def)
qed

theorem renewRound_retry_within_lease_witness:
  "\<exists>delay. 0 < delay \<and> rw_now_remaining sample_inputs + delay \<le> expiresAt (lease sample_leased)"
proof -
  have "same_lease sample_leased (record_effect e (sample_leased\<lparr>lease := (lease sample_leased)\<lparr>tokenUncertain := True\<rparr>\<rparr>))" for e
    by (simp add: same_lease_def)
  from renewRound_retry_within_lease [OF offline_renew this] show ?thesis by blast
qed

section \<open>Properties of the datagram connection and of shutdown\<close>

lemma resources_install:
  assumes "resources_ok s" "datagramConn s \<noteq> Some conn"
  shows "resources_ok (installDatagramConn conn s)"
proof (cases "datagramConn s")
  case None
  then show ?thesis
    using assms(1) signers.balanced_other [of "InstallConn conn"] conns.balanced_open [of _ conn "InstallConn conn"]
    by (simp add: installDatagramConn_def resources_ok_def)
next
  case (Some old)
  have "balanced opens_signer closes_signer held (sv_trace s @ [InstallConn conn, CloseConn old ''replaced''])
      = balanced opens_signer closes_signer held (sv_trace s)" for held
    using signers.balanced_other [of "InstallConn conn" held "sv_trace s"]
      signers.balanced_other [of "CloseConn old ''replaced''" held "sv_trace s @ [InstallConn conn]"] by simp
  then show ?thesis
    using Some assms conns.balanced_replace [of old "sv_trace s" conn "InstallConn conn" "CloseConn old ''replaced''"]
    by (simp add: installDatagramConn_def resources_ok_def)
qed

lemma resources_closeTenant:
  assumes "resources_ok s"
  shows "resources_ok (closeTenant (tenant (lease s)) (s\<lparr>lease := zero_lease\<rparr>))"
  using assms signers.balanced_close conns.balanced_other [of "CloseSigner i" for i]
  by (cases "tenant (lease s)") (auto simp: closeTenant_def resources_ok_def zero_lease_def)

lemma resources_reset: "resources_ok (resetControl s) = resources_ok s"
  using signers.balanced_other [of CloseIdleConnections] conns.balanced_other [of CloseIdleConnections]
  by (simp add: resetControl_def resources_ok_def Let_def)

lemma closeTenant_fields [simp]:
  "lease (closeTenant t s) = lease s" "datagramConn (closeTenant t s) = datagramConn s"
  "controlClient (closeTenant t s) = controlClient s" "nextLeaseGeneration (closeTenant t s) = nextLeaseGeneration s"
  "set (sv_trace s) \<subseteq> set (sv_trace (closeTenant t s))"
  by (auto simp: closeTenant_def split: option.split)

lemma resetControl_fields [simp]:
  "lease (resetControl s) = lease s" "datagramConn (resetControl s) = datagramConn s"
  "\<not> controlClient (resetControl s)" "nextLeaseGeneration (resetControl s) = nextLeaseGeneration s"
  "set (sv_trace s) \<subseteq> set (sv_trace (resetControl s))"
  by (auto simp: resetControl_def Let_def)

lemma discardLostLease_fields:
  "lease (discardLostLease s) = zero_lease" "datagramConn (discardLostLease s) = None"
  "resources_ok s \<Longrightarrow> resources_ok (discardLostLease s)"
proof -
  let ?s = "clearDatagramConn None ''lease lost'' s"
  have d: "discardLostLease s = closeTenant (tenant (lease ?s)) (?s\<lparr>lease := zero_lease\<rparr>)"
    by (simp add: discardLostLease_def clearLease_def)
  show "lease (discardLostLease s) = zero_lease" "datagramConn (discardLostLease s) = None"
    by (simp_all add: d clearDatagramConn_None)
  show "resources_ok s \<Longrightarrow> resources_ok (discardLostLease s)"
    unfolding d by (rule resources_closeTenant, rule resources_clearConn)
qed

lemma shutdown_unfold:
  assumes "shutdown env co s = (s', errs)"
  obtains s2 where "only_requests (clearDatagramConn None ''relay shutting down'' s) s2"
    "s2 = (if token (lease s) = [] then clearDatagramConn None ''relay shutting down'' s
       else fst (unregisterToken env (token (lease s)) (clearDatagramConn None ''relay shutting down'' s)))"
    "s' = resetControl (closeTenant (tenant (lease s2)) (s2\<lparr>lease := zero_lease\<rparr>))"
proof (cases "token (lease s) = []")
  case True
  then show thesis
    using assms by (intro that [of "clearDatagramConn None ''relay shutting down'' s"])
      (simp_all add: shutdown_def clearLease_def clearDatagramConn_None Let_def)
next
  case False
  obtain s2 u where u: "unregisterToken env (token (lease s)) (clearDatagramConn None ''relay shutting down'' s) = (s2, u)"
    by fastforce
  from unregisterToken_requests [OF this] show thesis
    using assms u False
    by (intro that [of s2]) (auto simp: shutdown_def clearLease_def clearDatagramConn_None Let_def split: option.splits)
qed

text \<open>Shutdown releases everything, whatever fails on the way: the lease and the datagram connection
  are gone, every signer and every connection ever opened has been closed exactly as often, and the
  control client is dropped.\<close>

theorem shutdown_releases:
  assumes "resources_ok s" "shutdown env co s = (s', errs)"
  shows "lease s' = zero_lease \<and> datagramConn s' = None \<and> \<not> controlClient s' \<and>
    balanced opens_signer closes_signer None (sv_trace s') \<and> balanced opens_conn closes_conn None (sv_trace s')"
proof -
  obtain s2 where s2: "only_requests (clearDatagramConn None ''relay shutting down'' s) s2"
    "s' = resetControl (closeTenant (tenant (lease s2)) (s2\<lparr>lease := zero_lease\<rparr>))"
    using assms(2) by (rule shutdown_unfold)
  have "resources_ok s2"
    using resources_requests [OF s2(1)] resources_clearConn [OF assms(1)] by simp
  then have r: "resources_ok s'" unfolding s2(2) resources_reset by (rule resources_closeTenant)
  moreover have f: "lease s' = zero_lease" "datagramConn s' = None" "\<not> controlClient s'"
    using only_requests_fields(2) [OF s2(1)] by (simp_all add: s2(2) clearDatagramConn_None)
  ultimately show ?thesis by (simp add: resources_ok_def zero_lease_def)
qed

theorem shutdown_releases_witness:
  "balanced opens_signer closes_signer None (sv_trace (fst (shutdown offline_env None sample_leased)))"
  using shutdown_releases [OF sample_leased_ok(2) prod.collapse [symmetric]] by blast

lemma unregister_on_shutdown:
  assumes "token (lease s) \<noteq> []" "controlClient s" "can_request env s" "shutdown env co s = (s', errs)"
  shows "unregister_request s (token (lease s)) \<in> set (sv_trace s')"
proof -
  let ?c = "clearDatagramConn None ''relay shutting down'' s"
  obtain s2 where "s2 = (if token (lease s) = [] then ?c else fst (unregisterToken env (token (lease s)) ?c))"
    and s': "s' = resetControl (closeTenant (tenant (lease s2)) (s2\<lparr>lease := zero_lease\<rparr>))"
    using assms(4) by (rule shutdown_unfold)
  with assms(1) have s2: "s2 = fst (unregisterToken env (token (lease s)) ?c)" by simp
  have "can_request env ?c" using assms(3) can_request_fields [OF clearDatagramConn_None(6)] by blast
  then have "s2 = record_effect (unregister_request ?c (token (lease s))) ?c"
    unfolding s2 using assms(1,2) by (intro unregisterToken_sends [OF _ _ _ prod.collapse [symmetric]])
      (simp_all add: clearDatagramConn_None)
  then have "unregister_request s (token (lease s)) \<in> set (sv_trace (s2\<lparr>lease := zero_lease\<rparr>))"
    by (simp add: unregister_request_def clearDatagramConn_None)
  then show ?thesis
    unfolding s' by (meson closeTenant_fields(5) resetControl_fields(5) subsetD)
qed

text \<open>Shutdown gives a live lease back: while the control client is up, an unregister request for
  the current token is sent.\<close>

theorem shutdown_unregisters:
  assumes "token (lease s) \<noteq> []" "controlClient s" "can_request env s" "shutdown env co s = (s', errs)"
  shows "unregister_request s (token (lease s)) \<in> set (sv_trace s')"
  using assms by (rule unregister_on_shutdown)

theorem shutdown_unregisters_witness:
  "unregister_request sample_leased ''t'' \<in> set (sv_trace (fst (shutdown sample_env None sample_leased)))"
proof -
  have "token (lease sample_leased) = ''t''" "controlClient sample_leased" "can_request sample_env sample_leased"
    using sample_can_request [of sample_leased] by (simp_all add: sample_leased_def sample_sv_def)
  then show ?thesis
    using shutdown_unregisters [of sample_leased sample_env None, OF _ _ _ prod.collapse [symmetric]] by simp
qed

end
