(* ===== verification/Reverse.thy ===== *)
theory Reverse
  imports Lease
begin

text \<open>
  Reverse sessions (\<open>src/relay.go\<close>): opening one by an HTTP upgrade, the marker protocol on it, the
  transcript signer that attributes signing failures to connections, and the loop of a session slot.

  The network is an argument: outcomes of dials, handshakes, writes and waits, and the bytes a relay
  sends. Recursion over the received bytes is the marker loop.

  The lemmas show that a connection is offered to the application only after the tenant handshake with
  the binding of its activation frame, that connections are not leaked, and which failures end a slot.
\<close>

section \<open>The transcript signer\<close>

text \<open>\<open>SignTranscript\<close>: the outcome of the remote signer is passed on; a failure is recorded for its
  binding unless the caller's context is cancelled or a failure is already recorded.\<close>

definition SignTranscript :: "go_error option \<Rightarrow> go_error option \<Rightarrow> byte list \<Rightarrow> tenantTLS \<Rightarrow> tenantTLS \<times> go_error option" where
  "SignTranscript outcome ctx_err binding t =
     (case outcome of
        None \<Rightarrow> (t, None)
      | Some e \<Rightarrow>
          if ctx_err = None \<and> tn_errs t binding = None
          then (t\<lparr>tn_errs := (tn_errs t)(binding := Some e)\<rparr>, Some e)
          else (t, Some e))"

definition takeError :: "byte list \<Rightarrow> tenantTLS \<Rightarrow> tenantTLS \<times> go_error option" where
  "takeError binding t = (t\<lparr>tn_errs := (tn_errs t)(binding := None)\<rparr>, tn_errs t binding)"

section \<open>Opening a session\<close>

text \<open>What the relay and the network do while a session is opened; the response carries the values of
  its \<open>Connection\<close> headers and its \<open>Upgrade\<close> header.\<close>

record upgrade_response =
  up_http :: http_response
  up_connection :: "string list"
  up_upgrade :: string

record reverse_peer =
  rp_now :: instant
  rp_dial :: "go_error option"
  rp_handshake :: "go_error option"
  rp_deadline :: "go_error option"
  rp_write :: "go_error option"
  rp_read :: "go_error + upgrade_response"
  rp_clear :: "go_error option"
  rp_stopped :: bool
  rp_ctx_err :: "go_error option"

text \<open>The part of \<open>openReverseSession\<close> after a successful dial; an error here closes the
  connection.\<close>

definition upgradeSession :: "relay_env \<Rightarrow> reverse_peer \<Rightarrow> string \<Rightarrow> 64 word \<Rightarrow> go_error option" where
  "upgradeSession env p capability gen =
     (case rp_handshake p of Some e \<Rightarrow> Some (Wrapped ''reverse TLS handshake'' e) | None \<Rightarrow>
     (case rp_deadline p of Some e \<Rightarrow> Some (Wrapped ''set reverse upgrade deadline'' e) | None \<Rightarrow>
     (case rp_write p of Some e \<Rightarrow> Some (Wrapped ''write reverse upgrade request'' e) | None \<Rightarrow>
     (case rp_read p of
        Inl e \<Rightarrow> Some (Wrapped ''read reverse upgrade response'' e)
      | Inr r \<Rightarrow>
          if rsp_status (up_http r) \<noteq> 101 then
            Some (ReverseUpgradeError capability gen (decodeHTTPAPIError env (up_http r)))
          else if \<not> headerHasToken (up_connection r) ''upgrade'' then
            Some (terminalRelay (ErrorText ''reverse upgrade response is missing Connection: Upgrade''))
          else if \<not> equal_fold (trim_space (up_upgrade r)) ''raw'' then
            Some (terminalRelay (ErrorText ''reverse upgrade response is missing Upgrade: raw''))
          else (case rp_clear p of
              Some e \<Rightarrow> Some (Wrapped ''clear reverse upgrade deadline'' e)
            | None \<Rightarrow> if \<not> rp_stopped p then rp_ctx_err p else None)))))"

text \<open>How an attempt to open a session ended: no connection was made, it was made and closed again, or
  it is open.\<close>

datatype open_outcome = NotDialled go_error | DialledClosed go_error | Opened

definition openReverseSession :: "relay_env \<Rightarrow> reverse_peer \<Rightarrow> ('k, 'p) relaySupervisor \<Rightarrow> open_outcome" where
  "openReverseSession env p s =
     (case currentReverseEndpoint s of (endpoint, gen, ok) \<Rightarrow>
        if \<not> ok then NotDialled ErrLeaseRefresh
        else if \<not> rp_now p < re_ExpiresAt endpoint then NotDialled ErrLeaseRefresh
        else if url_parse (re_URL endpoint) = None then
          NotDialled (Wrapped ''parse reverse endpoint'' (ErrorText ''invalid URL''))
        else (case rp_dial p of
            Some e \<Rightarrow> NotDialled (Wrapped ''dial reverse session'' e)
          | None \<Rightarrow>
              (case upgradeSession env p (re_Capability endpoint) gen of
                 Some e \<Rightarrow> DialledClosed e
               | None \<Rightarrow> Opened)))"

section \<open>The marker protocol\<close>

definition markerKeepalive :: byte where "markerKeepalive = 0x00"
definition markerRaw :: byte where "markerRaw = 0x01"
definition markerTLS :: byte where "markerTLS = 0x02"
definition tlsBindingSize :: nat where "tlsBindingSize = 16"

record session_peer =
  ss_deadline :: "nat \<Rightarrow> go_error option"
  ss_end :: go_error
  ss_clear :: "go_error option"
  ss_handshake :: "byte list \<Rightarrow> go_error option"
  ss_stopped :: bool
  ss_ctx_err :: "go_error option"
  ss_offer :: bool

text \<open>The results of \<open>runReverseSession\<close>, and whether the tenant connection was closed by it.\<close>

record session_result =
  transferred :: bool
  claimed :: bool
  session_err :: "go_error option"
  tls_closed :: bool

definition session_failed :: "bool \<Rightarrow> go_error option \<Rightarrow> bool \<Rightarrow> session_result" where
  "session_failed c e x = \<lparr>transferred = False, claimed = c, session_err = e, tls_closed = x\<rparr>"

text \<open>\<open>io.ReadFull\<close> on a stream that ends early.\<close>

definition readFull_error :: "byte list \<Rightarrow> go_error \<Rightarrow> go_error" where
  "readFull_error got e = (if got \<noteq> [] \<and> e = EOF then UnexpectedEOF else e)"

text \<open>The handling of a TLS activation frame: the rest of the stream after the marker.\<close>

definition activateSession :: "session_peer \<Rightarrow> byte list \<Rightarrow> ('k, 'p) relaySupervisor \<Rightarrow>
    ('k, 'p) relaySupervisor \<times> session_result" where
  "activateSession p bytes s =
     (if length bytes < tlsBindingSize then
        (s, session_failed False (Some (Wrapped ''read reverse TLS binding'' (readFull_error bytes (ss_end p)))) False)
      else
        (let binding = take tlsBindingSize bytes in
         case ss_clear p of
           Some e \<Rightarrow> (s, session_failed True (Some (Wrapped ''clear reverse marker deadline'' e)) False)
         | None \<Rightarrow>
             (case currentTenantTLS s of
                Inl e \<Rightarrow> (s, session_failed True (Some e) False)
              | Inr (tn, gen) \<Rightarrow>
                  (case ss_handshake p binding of
                     Some e \<Rightarrow>
                       (case takeError binding tn of
                          (tn', Some se) \<Rightarrow>
                            (s\<lparr>lease := (lease s)\<lparr>tenant := Some tn'\<rparr>\<rparr>, session_failed True (Some (TenantSignerError se gen)) False)
                        | (tn', None) \<Rightarrow>
                            (s\<lparr>lease := (lease s)\<lparr>tenant := Some tn'\<rparr>\<rparr>, session_failed True (Some (Wrapped ''tenant TLS handshake'' e)) False))
                   | None \<Rightarrow>
                       if \<not> ss_stopped p \<and> ss_ctx_err p \<noteq> None then (s, session_failed True (ss_ctx_err p) True)
                       else if \<not> ss_offer p then (s, session_failed True (ss_ctx_err p) True)
                       else (s, \<lparr>transferred = True, claimed = True, session_err = None, tls_closed = False\<rparr>)))))"

fun runReverseSession :: "session_peer \<Rightarrow> nat \<Rightarrow> byte list \<Rightarrow> ('k, 'p) relaySupervisor \<Rightarrow>
    ('k, 'p) relaySupervisor \<times> session_result" where
  "runReverseSession p k bytes s =
     (case ss_deadline p k of
        Some e \<Rightarrow> (s, session_failed False (Some (Wrapped ''set reverse marker deadline'' e)) False)
      | None \<Rightarrow>
          (case bytes of
             [] \<Rightarrow> (s, session_failed False (Some (Wrapped ''read reverse stream marker'' (ss_end p))) False)
           | m # rest \<Rightarrow>
               if m = markerKeepalive then runReverseSession p (k + 1) rest s
               else if m = markerRaw then
                 (s, session_failed False (Some (terminalRelay (ErrorText ''relay requested unsupported raw stream marker 0x01''))) False)
               else if m = markerTLS then activateSession p rest s
               else (s, session_failed False (Some (terminalRelay (ErrorText (''relay sent unknown stream marker 0x'' @ hex_encode [m])))) False)))"

declare runReverseSession.simps [simp del]

section \<open>A session slot\<close>

text \<open>One round of \<open>runReverseSlot\<close> after the check of the context. \<open>ctx_err\<close> is the context's error when it
  is read again, \<open>waited\<close> the outcome of the wait. The flags tell whether readiness was announced and
  whether the connection was closed by the slot.\<close>

record slot_result =
  sl_round :: round
  sl_ready :: bool
  sl_closed :: bool

definition retry_or_return :: "bool \<Rightarrow> go_error option \<Rightarrow> round" where
  "retry_or_return waited ctx_err = (if waited then Continue else Return ctx_err)"

definition slotOpenFailed :: "go_error option \<Rightarrow> bool \<Rightarrow> go_error \<Rightarrow> ('k, 'p) relaySupervisor \<Rightarrow> round" where
  "slotOpenFailed ctx_err waited err s =
     (if ctx_err \<noteq> None then Return ctx_err
      else if (case errors_As as_upgrade err of
                 Some (capability, gen) \<Rightarrow> isLostLeaseError err \<and> reverseConnectRequestStale capability gen s
               | None \<Rightarrow> False)
      then retry_or_return waited ctx_err
      else (case classifyRelayError (Some err) True of
          None \<Rightarrow> retry_or_return waited ctx_err
        | Some e \<Rightarrow>
            if errors_Is e ErrLeaseRefresh \<or> isTerminalRelayFailure e then Return (Some e)
            else retry_or_return waited ctx_err))"

definition slotSessionEnded :: "go_error option \<Rightarrow> bool \<Rightarrow> session_result \<Rightarrow> ('k, 'p) relaySupervisor \<Rightarrow> round" where
  "slotSessionEnded ctx_err waited r s =
     (case session_err r of
        None \<Rightarrow> Continue
      | Some err \<Rightarrow>
          if ctx_err \<noteq> None then Return ctx_err
          else if claimed r \<and> errors_As as_signer err = None then Continue
          else if (case errors_As as_signer err of Some gen \<Rightarrow> claimed r \<and> signerGenerationStale gen s | None \<Rightarrow> False)
          then retry_or_return waited ctx_err
          else (case classifyRelayError (Some err) True of
              None \<Rightarrow> retry_or_return waited ctx_err
            | Some e \<Rightarrow>
                if errors_Is e ErrLeaseRefresh \<or> isTerminalRelayFailure e then Return (Some e)
                else retry_or_return waited ctx_err))"

definition slotRound :: "relay_env \<Rightarrow> reverse_peer \<Rightarrow> session_peer \<Rightarrow> byte list \<Rightarrow> go_error option \<Rightarrow> bool \<Rightarrow>
    ('k, 'p) relaySupervisor \<Rightarrow> ('k, 'p) relaySupervisor \<times> slot_result" where
  "slotRound env rp sp bytes ctx_err waited s =
     (case openReverseSession env rp s of
        NotDialled e \<Rightarrow> (s, \<lparr>sl_round = slotOpenFailed ctx_err waited e s, sl_ready = False, sl_closed = False\<rparr>)
      | DialledClosed e \<Rightarrow> (s, \<lparr>sl_round = slotOpenFailed ctx_err waited e s, sl_ready = False, sl_closed = True\<rparr>)
      | Opened \<Rightarrow>
          (case runReverseSession sp 0 bytes s of (s', r) \<Rightarrow>
             (s', \<lparr>sl_round = slotSessionEnded ctx_err waited r s', sl_ready = True, sl_closed = \<not> transferred r\<rparr>)))"

section \<open>Properties of the signer\<close>

text \<open>A history of signing calls: outcome, context error and binding of each.\<close>

fun sign_all :: "(go_error option \<times> go_error option \<times> byte list) list \<Rightarrow> tenantTLS \<Rightarrow> tenantTLS" where
  "sign_all [] t = t"
| "sign_all ((outcome, ctx_err, b) # calls) t = sign_all calls (fst (SignTranscript outcome ctx_err b t))"

text \<open>The genuine failures of one connection in a history, in order.\<close>

definition genuine_failures :: "byte list \<Rightarrow> (go_error option \<times> go_error option \<times> byte list) list \<Rightarrow> go_error list" where
  "genuine_failures b calls = concat (map (\<lambda>(outcome, ctx_err, b').
     case outcome of Some e \<Rightarrow> if ctx_err = None \<and> b' = b then [e] else [] | None \<Rightarrow> []) calls)"

lemma sign_all_errs:
  "tn_errs (sign_all calls t) b = (case tn_errs t b of Some e \<Rightarrow> Some e
     | None \<Rightarrow> (case genuine_failures b calls of [] \<Rightarrow> None | e # _ \<Rightarrow> Some e))"
proof (induction calls t rule: sign_all.induct)
  case (2 outcome ctx_err b' calls t)
  have "genuine_failures b ((outcome, ctx_err, b') # calls) =
      (case outcome of Some e \<Rightarrow> if ctx_err = None \<and> b' = b then [e] else [] | None \<Rightarrow> []) @ genuine_failures b calls"
    by (simp add: genuine_failures_def)
  with 2 show ?case by (auto simp: SignTranscript_def split: option.splits list.splits)
qed (simp add: genuine_failures_def split: option.split)

text \<open>Signing failures are attributed exactly: after any history of signing calls, taking the error of
  a connection returns its first genuine failure (none if there is none; calls with a cancelled context
  do not count), clears it, and leaves every other connection's failure alone.\<close>

theorem signer_attribution:
  assumes "tn_errs t b = None" "takeError b (sign_all calls t) = (t', err)"
  shows "err = (case genuine_failures b calls of [] \<Rightarrow> None | e # _ \<Rightarrow> Some e) \<and>
    snd (takeError b t') = None \<and> (\<forall>b'. b' \<noteq> b \<longrightarrow> tn_errs t' b' = tn_errs (sign_all calls t) b')"
  using assms sign_all_errs [of calls t b] by (auto simp: takeError_def)

theorem signer_attribution_witness:
  "snd (takeError [1] (sign_all [(Some EOF, Some ContextCanceled, [1]), (Some UnexpectedEOF, None, [1])]
     \<lparr>tn_server = 0, tn_signer = 0, tn_errs = \<lambda>_. None\<rparr>)) = Some UnexpectedEOF"
  using signer_attribution [of "\<lparr>tn_server = 0, tn_signer = 0, tn_errs = \<lambda>_. None\<rparr>" "[1]", OF _ prod.collapse [symmetric],
    of "[(Some EOF, Some ContextCanceled, [1]), (Some UnexpectedEOF, None, [1])]"]
  by (simp add: genuine_failures_def)

section \<open>Properties of the marker protocol\<close>

lemmas marker_defs = markerKeepalive_def markerRaw_def markerTLS_def

lemma activate_transferred:
  "transferred (snd (activateSession p bytes s)) \<longleftrightarrow>
     16 \<le> length bytes \<and> ss_clear p = None \<and> tenant (lease s) \<noteq> None \<and>
     ss_handshake p (take 16 bytes) = None \<and> (ss_stopped p \<or> ss_ctx_err p = None) \<and> ss_offer p"
  by (auto simp: activateSession_def session_failed_def tlsBindingSize_def currentTenantTLS_def Let_def takeError_def
      split: option.split)

lemma session_transferred_iff:
  "transferred (snd (runReverseSession p k bytes s)) \<longleftrightarrow>
     (\<exists>n rest. bytes = replicate n 0 @ 2 # rest \<and> (\<forall>j \<le> n. ss_deadline p (k + j) = None) \<and>
        transferred (snd (activateSession p rest s)))"
proof (induction bytes arbitrary: k)
  case Nil
  then show ?case by (simp add: runReverseSession.simps session_failed_def split: option.split)
next
  case (Cons m bytes)
  have shift: "(\<exists>n rest. m # bytes = replicate n 0 @ 2 # rest \<and> P n rest) \<longleftrightarrow>
      (m = 2 \<and> P 0 bytes) \<or> (m = 0 \<and> (\<exists>n rest. bytes = replicate n 0 @ 2 # rest \<and> P (Suc n) rest))" for P
  proof
    assume "\<exists>n rest. m # bytes = replicate n 0 @ 2 # rest \<and> P n rest"
    then obtain n rest where "m # bytes = replicate n 0 @ 2 # rest" "P n rest" by blast
    then show "(m = 2 \<and> P 0 bytes) \<or> (m = 0 \<and> (\<exists>n rest. bytes = replicate n 0 @ 2 # rest \<and> P (Suc n) rest))"
      by (cases n) auto
  next
    assume "(m = 2 \<and> P 0 bytes) \<or> (m = 0 \<and> (\<exists>n rest. bytes = replicate n 0 @ 2 # rest \<and> P (Suc n) rest))"
    then show "\<exists>n rest. m # bytes = replicate n 0 @ 2 # rest \<and> P n rest"
      by (metis append_Cons append_Nil replicate_0 replicate_Suc)
  qed
  have all: "(\<forall>j \<le> Suc n. ss_deadline p (k + j) = None) \<longleftrightarrow>
      ss_deadline p k = None \<and> (\<forall>j \<le> n. ss_deadline p (k + 1 + j) = None)" for n
    by (simp only: less_Suc_eq_le [symmetric] All_less_Suc2 [of "Suc n"]) simp
  show ?case
    by (subst runReverseSession.simps, subst shift)
      (auto simp: marker_defs session_failed_def Cons all split: option.split)
qed

text \<open>C24. A connection is handed to the application exactly when the relay sent any number of
  keep-alive markers, then the TLS marker with a full 16-byte binding, every deadline could be set, a
  terminator is available, the tenant handshake for that very binding succeeded and the application
  took the connection.\<close>

theorem runReverseSession_transfer:
  "transferred (snd (runReverseSession p 0 bytes s)) \<longleftrightarrow>
     (\<exists>n binding rest. bytes = replicate n markerKeepalive @ markerTLS # binding @ rest \<and> length binding = tlsBindingSize \<and>
        (\<forall>j \<in> {0..n}. ss_deadline p j = None) \<and> ss_clear p = None \<and> tenant (lease s) \<noteq> None \<and>
        ss_handshake p binding = None \<and> (ss_stopped p \<or> ss_ctx_err p = None) \<and> ss_offer p)"
  (is "?L \<longleftrightarrow> ?R")
proof
  assume ?L
  then obtain n rest where n: "bytes = replicate n 0 @ 2 # rest" "\<forall>j \<le> n. ss_deadline p j = None"
    "transferred (snd (activateSession p rest s))"
    by (auto simp: session_transferred_iff)
  then show ?R
    by (intro exI [of _ n] exI [of _ "take 16 rest"] exI [of _ "drop 16 rest"])
      (auto simp: activate_transferred marker_defs tlsBindingSize_def)
next
  assume ?R
  then obtain n binding rest where b: "bytes = replicate n 0 @ 2 # binding @ rest" "length binding = 16"
    "\<forall>j \<in> {0..n}. ss_deadline p j = None" "ss_clear p = None" "tenant (lease s) \<noteq> None"
    "ss_handshake p binding = None" "ss_stopped p \<or> ss_ctx_err p = None" "ss_offer p"
    by (auto simp: marker_defs tlsBindingSize_def)
  then have "transferred (snd (activateSession p (binding @ rest) s))" by (simp add: activate_transferred)
  with b show ?L unfolding session_transferred_iff
    by (intro exI [of _ n] exI [of _ "binding @ rest"]) simp
qed

theorem runReverseSession_transfer_witness:
  "transferred (snd (runReverseSession \<lparr>ss_deadline = \<lambda>_. None, ss_end = EOF, ss_clear = None, ss_handshake = \<lambda>_. None,
     ss_stopped = True, ss_ctx_err = None, ss_offer = True\<rparr> 0 (0 # 2 # replicate 16 7) sample_leased))"
  by (subst runReverseSession_transfer)
    (rule exI [of _ 1], rule exI [of _ "replicate 16 7"], rule exI [of _ "[]"],
      simp add: marker_defs tlsBindingSize_def sample_leased_def)

lemma session_skip:
  assumes "\<forall>j < n. ss_deadline p (k + j) = None"
  shows "runReverseSession p k (replicate n markerKeepalive @ bytes) s = runReverseSession p (k + n) bytes s"
  using assms
proof (induction n arbitrary: k)
  case (Suc n)
  have "ss_deadline p k = None" "\<forall>j<n. ss_deadline p (k + 1 + j) = None" using Suc.prems
    by (auto dest: spec [of _ 0] spec [of _ "Suc j" for j])
  with Suc.IH [of "k + 1"] show ?case by (subst runReverseSession.simps) simp
qed simp

text \<open>Any other marker is a protocol violation that ends the relay, after any number of
  keep-alives.\<close>

theorem runReverseSession_unknown_marker:
  assumes "m \<noteq> markerKeepalive" "m \<noteq> markerTLS" "\<forall>j \<le> n. ss_deadline p j = None"
  shows "\<exists>r e. runReverseSession p 0 (replicate n markerKeepalive @ m # rest) s = (s, r) \<and> \<not> transferred r \<and> \<not> claimed r \<and>
    session_err r = Some e \<and> (ctx = None \<longrightarrow> slotSessionEnded ctx waited r s = Return (Some e)) \<and> isTerminalRelayFailure e"
proof -
  have "runReverseSession p 0 (replicate n markerKeepalive @ m # rest) s = runReverseSession p n (m # rest) s"
    using assms(3) by (simp add: session_skip)
  moreover define e where "e = TerminalRelayError (if m = markerRaw then ErrorText ''relay requested unsupported raw stream marker 0x01''
      else ErrorText (''relay sent unknown stream marker 0x'' @ hex_encode [m]))"
  moreover have "terminalRelay (ErrorText x) = TerminalRelayError (ErrorText x)" for x
    by (simp add: terminalRelay_def terminal_iff)
  then have "runReverseSession p n (m # rest) s = (s, session_failed False (Some e) False)"
    using assms by (subst runReverseSession.simps) (simp add: e_def)
  moreover have "isTerminalRelayFailure e" by (simp add: e_def)
  ultimately show ?thesis
    by (auto simp: slotSessionEnded_def terminal_fixed session_failed_def split: option.split)
qed

theorem runReverseSession_unknown_marker_witness:
  "\<exists>r e. runReverseSession \<lparr>ss_deadline = \<lambda>_. None, ss_end = EOF, ss_clear = None, ss_handshake = \<lambda>_. None,
     ss_stopped = True, ss_ctx_err = None, ss_offer = True\<rparr> 0 [1] sample_leased = (sample_leased, r) \<and>
     slotSessionEnded None True r sample_leased = Return (Some e)"
  using runReverseSession_unknown_marker [of 1 0 "\<lparr>ss_deadline = \<lambda>_. None, ss_end = EOF, ss_clear = None,
     ss_handshake = \<lambda>_. None, ss_stopped = True, ss_ctx_err = None, ss_offer = True\<rparr>" "[]" sample_leased None True]
  by (auto simp: marker_defs)

section \<open>Properties of a slot\<close>

text \<open>While the context is live, the end of a session ends its slot only for a classified terminal
  failure or a lost lease; if a public client had already claimed the session, only for a signing
  failure of the current lease generation outside any renewal. In particular a client's own TLS failure
  is replenished at once, without waiting.\<close>

theorem slotSessionEnded_reasons:
  assumes "slotSessionEnded None waited r s = Return e" "waited"
  shows "\<exists>err. session_err r = Some err \<and> e = classifyRelayError (Some err) True \<and>
    verdict_of e \<in> {Terminal, Refresh} \<and>
    (claimed r \<longrightarrow> (\<exists>gen. errors_As as_signer err = Some gen \<and> gen = generation (lease s) \<and>
       \<not> renewing (lease s) \<and> \<not> tokenUncertain (lease s)))"
proof -
  obtain err where err: "session_err r = Some err"
    using assms by (auto simp: slotSessionEnded_def split: option.splits)
  obtain e' where c: "classifyRelayError (Some err) True = Some e'" using classify_cases [of err True] by auto
  from assms have "errors_Is e' ErrLeaseRefresh \<or> isTerminalRelayFailure e'" "e = Some e'"
    "claimed r \<longrightarrow> (\<exists>gen. errors_As as_signer err = Some gen \<and> \<not> signerGenerationStale gen s)"
    by (auto simp: slotSessionEnded_def err c retry_or_return_def split: option.splits if_splits)
  then show ?thesis
    using err c by (auto simp: signerGenerationStale_def verdict_of_def)
qed

theorem slotSessionEnded_reasons_witness:
  "\<exists>e. slotSessionEnded None True (session_failed False (Some ErrLeaseRefresh) False) sample_leased = Return e \<and>
     verdict_of e \<in> {Terminal, Refresh}"
proof -
  have "slotSessionEnded None True (session_failed False (Some ErrLeaseRefresh) False) sample_leased = Return (Some ErrLeaseRefresh)"
    by (simp add: slotSessionEnded_def session_failed_def lease_refresh_fixed errors_Is_def split: option.split)
  with slotSessionEnded_reasons [OF this] show ?thesis by auto
qed

text \<open>A refusal to open a session that blames the lease is ignored when the capability it was made
  with has been rotated or is being renewed: the slot waits and tries again with the new one instead of
  discarding the lease.\<close>

theorem stale_refusal_retried:
  assumes "errors_As as_upgrade err = Some (capability, gen)" "isLostLeaseError err"
    and "re_Capability (reverse (lease s)) \<noteq> capability \<or> generation (lease s) \<noteq> gen \<or> renewing (lease s)"
  shows "slotOpenFailed None True err s = Continue"
  using assms by (simp add: slotOpenFailed_def reverseConnectRequestStale_def retry_or_return_def)

lemma lost_lease_error: "isLostLeaseError (ReverseUpgradeError c g (APIErr
    \<lparr>StatusCode = 404, Code = ''lease_not_found'', Message = [], RetryAfter = 0\<rparr>))"
proof -
  have "trim_space ''lease_not_found'' = ''lease_not_found''" by (rule trim_space_all_graphic) (simp add: is_graphic_def)
  moreover have "to_lower ''lease_not_found'' = ''lease_not_found''" by (rule to_lower_fixed) (simp_all add: is_ascii_def is_upper_def)
  ultimately show ?thesis by (simp add: isLostLeaseError_def errors_As_def)
qed

theorem stale_refusal_retried_witness:
  "slotOpenFailed None True (ReverseUpgradeError [] 7 (APIErr
    \<lparr>StatusCode = 404, Code = ''lease_not_found'', Message = [], RetryAfter = 0\<rparr>)) sample_leased = Continue"
  by (rule stale_refusal_retried [of _ "[]" 7, OF _ lost_lease_error])
    (simp_all add: errors_As_def sample_leased_def sample_endpoint_def)

text \<open>A session is opened only over a connection that switched protocols: the lease had an
  unexpired endpoint, the relay answered 101 with both upgrade headers, and after every failure that
  follows the dial the connection is closed.\<close>

theorem openReverseSession_opened:
  "openReverseSession env p s = Opened \<longleftrightarrow>
     token (lease s) \<noteq> [] \<and> re_Capability (reverse (lease s)) \<noteq> [] \<and> rp_now p < re_ExpiresAt (reverse (lease s)) \<and>
     url_parse (re_URL (reverse (lease s))) \<noteq> None \<and> rp_dial p = None \<and> rp_handshake p = None \<and>
     rp_deadline p = None \<and> rp_write p = None \<and> rp_clear p = None \<and> (rp_stopped p \<or> rp_ctx_err p = None) \<and>
     (\<exists>r. rp_read p = Inr r \<and> rsp_status (up_http r) = 101 \<and> headerHasToken (up_connection r) ''upgrade'' \<and>
        equal_fold (trim_space (up_upgrade r)) ''raw'')"
  by (auto simp: openReverseSession_def upgradeSession_def currentReverseEndpoint_def split: option.splits sum.splits if_splits)

end
