(* ===== verification/Supervisor.thy ===== *)
theory Supervisor
  imports Reverse
begin

text \<open>
  The supervisor of one relay (\<open>src/relay.go\<close>): trust bootstrap, the registration loop, the workers
  of a lease and the merge of their results, the datagram loop, and the lifecycle as a state machine.

  Loops that may run forever take the list of what their rounds observe; \<open>None\<close> means that the
  observations ran out before the loop returned. The lifecycle interleaves the critical sections of the
  workers as steps of a relation.

  The lemmas show that certificate verification is never switched off for the control connection, that
  a valid challenge is reused, how worker results are merged, and the invariants of every reachable
  state: a consistent lease, no leaked signer or connection, and renewals that install their answer.
\<close>

section \<open>Trust bootstrap\<close>

text \<open>The network and the certificate library, over opaque certificates and pools.\<close>

record ('c, 'p) boot_peer =
  bp_dial :: "go_error option"
  bp_handshake :: "'p tls_config \<Rightarrow> go_error + 'c list"
  bp_pem :: "'c \<Rightarrow> go_error + string"
  bp_pool :: "string \<Rightarrow> 'p option"
  bp_verify :: "'c \<Rightarrow> string \<Rightarrow> 'p \<Rightarrow> 'c list \<Rightarrow> go_error option"
  bp_hostname :: "'c \<Rightarrow> string \<Rightarrow> go_error option"

fun pem_chain :: "('c \<Rightarrow> go_error + string) \<Rightarrow> 'c list \<Rightarrow> go_error + string" where
  "pem_chain pem [] = Inr []"
| "pem_chain pem (x # xs) =
     (case pem x of
        Inl e \<Rightarrow> Inl e
      | Inr block \<Rightarrow> (case pem_chain pem xs of Inl e \<Rightarrow> Inl e | Inr rest \<Rightarrow> Inr (block @ rest)))"

definition fetch_config :: "string \<Rightarrow> 'p tls_config" where
  "fetch_config host = \<lparr>MinVersion = VersionTLS12, NextProtos = [''http/1.1''], RootCAs = None,
     ServerName = host, InsecureSkipVerify = isLocalRelayHostname host\<rparr>"

definition control_config :: "string \<Rightarrow> 'p tls_config" where
  "control_config host = \<lparr>MinVersion = VersionTLS12, NextProtos = [''http/1.1''], RootCAs = None,
     ServerName = host, InsecureSkipVerify = False\<rparr>"

definition bootstrapTLS :: "('c, 'p) boot_peer \<Rightarrow> string \<Rightarrow> go_error + ('p tls_config \<times> string \<times> 'c)" where
  "bootstrapTLS p host =
     (case bp_dial p of
        Some e \<Rightarrow> Inl (Wrapped ''dial relay'' e)
      | None \<Rightarrow>
     (case bp_handshake p (fetch_config host) of
        Inl e \<Rightarrow>
          if isCertificateValidationError e then Inl (terminalRelay (Wrapped ''verify relay certificate'' e))
          else Inl (Wrapped ''TLS handshake with relay'' e)
      | Inr certs \<Rightarrow>
     (case certs of
        [] \<Rightarrow> Inl (terminalRelay (ErrorText ''relay returned no certificates''))
      | leaf # others \<Rightarrow>
     (case pem_chain (bp_pem p) certs of
        Inl e \<Rightarrow> Inl (terminalRelay (Wrapped ''encode relay certificate'' e))
      | Inr chain \<Rightarrow>
          if isLocalRelayHostname host then
            (case bp_pool p chain of
               None \<Rightarrow> Inl (terminalRelay (ErrorText ''build local relay certificate pool''))
             | Some roots \<Rightarrow>
                 (case bp_verify p leaf host roots others of
                    Some e \<Rightarrow> Inl (terminalRelay (Wrapped ''verify pinned local relay certificate'' e))
                  | None \<Rightarrow> Inr ((control_config host)\<lparr>RootCAs := Some roots\<rparr>, chain, leaf)))
          else Inr (control_config host, chain, leaf)))))"

definition initializeControl :: "relay_env \<Rightarrow> ('c, 'p) boot_peer \<Rightarrow> ('k, 'p) relaySupervisor \<Rightarrow>
    ('k, 'p) relaySupervisor \<times> go_error option" where
  "initializeControl env p s =
     (case bootstrapTLS p (hostname s) of
        Inl e \<Rightarrow> (s, classifyRelayError (Some e) False)
      | Inr (cfg, chain, leaf) \<Rightarrow>
          (let s1 = s\<lparr>controlTLS := Some cfg, certificateChain := chain, controlClient := True\<rparr> in
           case callAPI env MethodGet pathDomain None (json_Domain env) s1 of
             (s2, Inl e) \<Rightarrow> (s2, classifyRelayError (Some e) False)
           | (s2, Inr version) \<Rightarrow>
               if version \<noteq> ProtocolVersion then
                 (s2, Some (terminalRelay (ErrorText ''unsupported relay protocol version'')))
               else
                 (let s3 = s2\<lparr>publicHostname := id_name (identity s2) @ ''.'' @ hostname s2\<rparr> in
                  case bp_hostname p leaf (publicHostname s3) of
                    Some e \<Rightarrow> (s3, Some (terminalRelay (Wrapped ''relay certificate does not cover public hostname'' e)))
                  | None \<Rightarrow> (s3, None))))"

section \<open>The registration loop\<close>

text \<open>What one round of \<open>registerLeaseWithRetry\<close> observes.\<close>

record register_inputs =
  ri_ctx_err :: "go_error option"
  ri_now :: instant
  ri_challenge_env :: relay_env
  ri_challenge_now :: instant
  ri_register_env :: relay_env
  ri_unregister_env :: relay_env
  ri_now1 :: instant
  ri_now2 :: instant
  ri_signer :: "go_error + nat"
  ri_server :: "go_error + nat"
  ri_waited :: bool
  ri_ctx_after :: "go_error option"

definition registerFailed :: "register_inputs \<Rightarrow> go_error \<Rightarrow> round" where
  "registerFailed i e =
     (if isTerminalRelayFailure e then Return (Some e)
      else if \<not> ri_waited i then Return (ri_ctx_after i) else Continue)"

definition submitAttempt :: "'k crypto \<Rightarrow> register_inputs \<Rightarrow> registerAttempt \<Rightarrow> ('k, 'p) relaySupervisor \<Rightarrow>
    ('k, 'p) relaySupervisor \<times> registerAttempt option \<times> round" where
  "submitAttempt c i attempt s =
     (case submitRegistration c (ri_register_env i) (ri_unregister_env i) (ri_now1 i) (ri_now2 i) (ri_signer i)
         (ri_server i) attempt s of
        (s', None) \<Rightarrow> (s', Some attempt, Return None)
      | (s', Some e) \<Rightarrow> (s', Some attempt, registerFailed i e))"

definition registerRound :: "'k crypto \<Rightarrow> register_inputs \<Rightarrow> registerAttempt option \<Rightarrow> ('k, 'p) relaySupervisor \<Rightarrow>
    ('k, 'p) relaySupervisor \<times> registerAttempt option \<times> round" where
  "registerRound c i attempt s =
     (case ri_ctx_err i of
        Some e \<Rightarrow> (s, attempt, Return (Some e))
      | None \<Rightarrow>
          if attempt_valid attempt (ri_now i) then
            (case attempt of Some a \<Rightarrow> submitAttempt c i a s | None \<Rightarrow> (s, None, Return None))
          else
            (case requestRegisterChallenge c (ri_challenge_env i) (ri_challenge_now i) s of
               (s', Inl e) \<Rightarrow> (s', attempt, registerFailed i e)
             | (s', Inr fresh) \<Rightarrow> submitAttempt c i fresh s'))"

fun registerLeaseWithRetry :: "'k crypto \<Rightarrow> register_inputs list \<Rightarrow> registerAttempt option \<Rightarrow> ('k, 'p) relaySupervisor \<Rightarrow>
    ('k, 'p) relaySupervisor \<times> go_error option option" where
  "registerLeaseWithRetry c [] attempt s = (s, None)"
| "registerLeaseWithRetry c (i # rounds) attempt s =
     (case registerRound c i attempt s of
        (s', attempt', Continue) \<Rightarrow> registerLeaseWithRetry c rounds attempt' s'
      | (s', attempt', Return e) \<Rightarrow> (s', Some e))"

section \<open>The workers of a lease\<close>

definition reverseSessionSlots :: nat where "reverseSessionSlots = 2"

definition workerCount :: "('k, 'p) relaySupervisor \<Rightarrow> nat" where
  "workerCount s = reverseSessionSlots + 1 + (if udpEnabled s then 1 else 0)"

text \<open>The merge of the workers' results at the end of \<open>runLease\<close>; \<open>refresh\<close> and \<open>transient\<close> are the
  loop's variables.\<close>

fun mergeLoop :: "go_error option list \<Rightarrow> bool \<Rightarrow> go_error option \<Rightarrow> go_error" where
  "mergeLoop [] refresh transient =
     (if refresh then ErrLeaseRefresh else (case transient of Some e \<Rightarrow> e | None \<Rightarrow> ContextCanceled))"
| "mergeLoop (None # rs) refresh transient = mergeLoop rs refresh transient"
| "mergeLoop (Some e # rs) refresh transient =
     (if isTerminalRelayFailure e then e
      else if errors_Is e ErrLeaseRefresh then mergeLoop rs True transient
      else if \<not> errors_Is e ContextCanceled \<and> transient = None then mergeLoop rs refresh (Some e)
      else mergeLoop rs refresh transient)"

definition mergeWorkerResults :: "go_error option \<Rightarrow> go_error option list \<Rightarrow> go_error" where
  "mergeWorkerResults ctx_err results =
     (case ctx_err of Some e \<Rightarrow> e | None \<Rightarrow> mergeLoop results False None)"

text \<open>A round of \<open>runDatagramLoop\<close> whose dial failed.\<close>

definition datagramDialFailed :: "go_error option \<Rightarrow> bool \<Rightarrow> string \<Rightarrow> 64 word \<Rightarrow> go_error \<Rightarrow> ('k, 'p) relaySupervisor \<Rightarrow> round" where
  "datagramDialFailed ctx_err waited tok gen err s =
     (if ctx_err \<noteq> None then Return ctx_err
      else
        (case errors_As as_rejection err of
           None \<Rightarrow> retry_or_return waited ctx_err
         | Some c \<Rightarrow>
             (let rc = to_lower (trim_space c) in
              if rc \<in> {''lease_not_found'', ''lease_rejected'', ''unauthorized''} then
                (if datagramTokenStale tok gen s then Continue else Return (Some ErrLeaseRefresh))
              else if rc = ''transport_mismatch'' then Return (Some (terminalRelay err))
              else retry_or_return waited ctx_err)))"

text \<open>The frames handed to the application while a datagram connection lasts.\<close>

fun receiveFrames :: "string \<Rightarrow> string \<Rightarrow> byte list list \<Rightarrow> DatagramFrame list" where
  "receiveFrames url addr [] = []"
| "receiveFrames url addr (d # ds) =
     (case decodeDatagram d of
        Inl _ \<Rightarrow> receiveFrames url addr ds
      | Inr frame \<Rightarrow> frame\<lparr>RelayURL := url, UDPAddr := addr\<rparr> # receiveFrames url addr ds)"

text \<open>One round of \<open>runDatagramLoop\<close>: the outcome of the dial (a connection and what is received on
  it), the context at the points where it is read, and the wait at the end. The result adds the
  readiness announcements and the frames offered.\<close>

definition datagramRound :: "go_error option \<Rightarrow> go_error + (nat \<times> byte list list) \<Rightarrow> go_error option \<Rightarrow> bool \<Rightarrow>
    ('k, 'p) relaySupervisor \<Rightarrow> ('k, 'p) relaySupervisor \<times> round \<times> string list \<times> DatagramFrame list" where
  "datagramRound ctx_err dial ctx_after waited s =
     (case ctx_err of
        Some e \<Rightarrow> (clearDatagramConn None ''lease stopped'' s, Return (Some e), [], [])
      | None \<Rightarrow>
          (case currentDatagramLease s of
             None \<Rightarrow> (s, Return (Some ErrLeaseRefresh), [], [])
           | Some (tok, gen, port, addr, cfg) \<Rightarrow>
               (case dial of
                  Inl e \<Rightarrow> (s, datagramDialFailed ctx_after waited tok gen e s, [], [])
                | Inr (conn, datas) \<Rightarrow>
                    (let s1 = installDatagramConn conn s;
                         s2 = clearDatagramConn (Some conn) ''backhaul disconnected'' s1
                     in (s2, if ctx_after \<noteq> None then Return ctx_after else retry_or_return waited ctx_after,
                         [addr, []], receiveFrames (sv_relayURL s) addr datas)))))"

section \<open>The lifecycle\<close>

text \<open>The decisions of \<open>run\<close> after each phase; \<open>ctx_err\<close> is the context's error at that point.\<close>

definition runAfterInit :: "go_error option \<Rightarrow> bool \<Rightarrow> go_error \<Rightarrow> round" where
  "runAfterInit ctx_err waited e =
     (if ctx_err \<noteq> None then Return ctx_err
      else if isTerminalRelayFailure e then Return (Some (unwrapTerminalRelayError e))
      else retry_or_return waited ctx_err)"

definition runAfterRegister :: "go_error option \<Rightarrow> go_error \<Rightarrow> round" where
  "runAfterRegister ctx_err e =
     (if ctx_err \<noteq> None then Return ctx_err
      else if isTerminalRelayFailure e then Return (Some (unwrapTerminalRelayError e))
      else Return (Some e))"

definition runAfterLease :: "go_error option \<Rightarrow> go_error \<Rightarrow> ('k, 'p) relaySupervisor \<Rightarrow> ('k, 'p) relaySupervisor \<times> round" where
  "runAfterLease ctx_err e s =
     (if ctx_err \<noteq> None then (s, Return ctx_err)
      else if errors_Is e ErrLeaseRefresh then (resetControl (discardLostLease s), Continue)
      else if isTerminalRelayFailure e then (s, Return (Some (unwrapTerminalRelayError e)))
      else (s, Return (Some e)))"

text \<open>The control points of \<open>run\<close>; inside a lease, the token and generation captured by a renewal in
  flight.\<close>

datatype pc = AtInit | AtRegister | InLease "(string \<times> 64 word) option" | Stopped

inductive sup_step :: "'k crypto \<Rightarrow> pc \<times> ('k, 'p) relaySupervisor \<Rightarrow> pc \<times> ('k, 'p) relaySupervisor \<Rightarrow> bool" for c where
  init_ok: "initializeControl env (p :: (nat, 'p) boot_peer) s = (s', None) \<Longrightarrow> sup_step c (AtInit, s) (AtRegister, s')"
| init_failed: "initializeControl env (p :: (nat, 'p) boot_peer) s = (s', Some e) \<Longrightarrow> runAfterInit ctx waited e = Continue \<Longrightarrow>
    sup_step c (AtInit, s) (AtInit, resetControl s')"
| init_stop: "initializeControl env (p :: (nat, 'p) boot_peer) s = (s', Some e) \<Longrightarrow> runAfterInit ctx waited e = Return r \<Longrightarrow>
    shutdown uenv co (resetControl s') = (s'', errs) \<Longrightarrow> sup_step c (AtInit, s) (Stopped, s'')"
| cancelled: "shutdown uenv co s = (s', errs) \<Longrightarrow> sup_step c (AtInit, s) (Stopped, s')"
| register_retry: "registerRound c i attempt s = (s', attempt', Continue) \<Longrightarrow> sup_step c (AtRegister, s) (AtRegister, s')"
| register_ok: "submitRegistration c env uenv n1 n2 sg srv attempt s = (s', None) \<Longrightarrow>
    sup_step c (AtRegister, s) (InLease None, s')"
| register_stop: "registerRound c i attempt s = (s', attempt', Return (Some e)) \<Longrightarrow> runAfterRegister ctx e = Return r \<Longrightarrow>
    shutdown uenv co s' = (s'', errs) \<Longrightarrow> sup_step c (AtRegister, s) (Stopped, s'')"
| renew_begin: "beginRenewal (token (lease s)) (generation (lease s)) s = (s', True) \<Longrightarrow>
    sup_step c (InLease None, s) (InLease (Some (token (lease s), generation (lease s))), s')"
| request: "callAPI env m path body (dec :: string \<Rightarrow> go_error + renewResponse) s = (s', r) \<Longrightarrow> sup_step c (InLease l, s) (InLease l, s')"
| renew_failed: "sup_step c (InLease (Some (tok, gen)), s) (InLease None, endRenewal gen s)"
| renew_refused: "sup_step c (InLease (Some (tok, gen)), s) (InLease None, s)"
| renew_commit: "trim_space newToken \<noteq> [] \<Longrightarrow> validateReverseEndpoint now s raw expiry = Inr endpoint \<Longrightarrow>
    commitRenewal tok gen (trim_space newToken) expiry endpoint s = (s', ok) \<Longrightarrow>
    sup_step c (InLease (Some (tok, gen)), s)
      (InLease None, if ok then clearDatagramConn None ''lease renewed'' s' else s')"
| session: "runReverseSession sp 0 bytes s = (s', r) \<Longrightarrow> sup_step c (InLease l, s) (InLease l, s')"
| datagram_up: "udpEnabled s \<Longrightarrow> datagramConn s \<noteq> Some conn \<Longrightarrow> sup_step c (InLease l, s) (InLease l, installDatagramConn conn s)"
| datagram_down: "sup_step c (InLease l, s) (InLease l, clearDatagramConn expected reason s)"
| datagram_send: "sendDatagram outcome frame s = Some (s', r) \<Longrightarrow> sup_step c (InLease l, s) (InLease l, s')"
| lease_lost: "runAfterLease ctx e s = (s', Continue) \<Longrightarrow> sup_step c (InLease l, s) (AtInit, s')"
| lease_stop: "runAfterLease ctx e s = (s', Return r) \<Longrightarrow> shutdown uenv co s' = (s'', errs) \<Longrightarrow>
    sup_step c (InLease l, s) (Stopped, s'')"

inductive_simps sup_step_stopped [simp]: "sup_step c (Stopped, s) x"

definition sup_init :: "pc \<times> ('k, 'p) relaySupervisor \<Rightarrow> bool" where
  "sup_init x \<longleftrightarrow> fst x = AtInit \<and> (\<exists>url ident tm udp s. newRelaySupervisor url ident tm = Inr s \<and>
     snd x = s\<lparr>udpEnabled := udp\<rparr>)"

section \<open>Properties of the bootstrap\<close>

text \<open>The control connection always verifies the relay's certificate for the relay's own name:
  verification is skipped only in the first handshake with a local development relay, and then the
  chain it presented, after it has been verified for the hostname, becomes the only root set.\<close>

theorem bootstrapTLS_verifies:
  fixes p :: "('c, 'p) boot_peer"
  assumes "bootstrapTLS p host = Inr (cfg, chain, leaf)"
  shows "\<not> InsecureSkipVerify cfg \<and> ServerName cfg = host \<and> MinVersion cfg = VersionTLS12 \<and>
    (\<exists>others. bp_handshake p (fetch_config host) = Inr (leaf # others) \<and> pem_chain (bp_pem p) (leaf # others) = Inr chain \<and>
      (if isLocalRelayHostname host
       then (\<exists>roots. RootCAs cfg = Some roots \<and> bp_pool p chain = Some roots \<and> bp_verify p leaf host roots others = None)
       else RootCAs cfg = None \<and> \<not> InsecureSkipVerify (fetch_config host :: 'p tls_config)))"
  using assms by (auto simp: bootstrapTLS_def control_config_def fetch_config_def simp del: pem_chain.simps
      split: option.splits sum.splits list.splits if_splits)

definition sample_boot :: "(unit, unit) boot_peer" where
  "sample_boot = \<lparr>bp_dial = None, bp_handshake = \<lambda>_. Inr [()], bp_pem = \<lambda>_. Inr ''pem'', bp_pool = \<lambda>_. Some (),
     bp_verify = \<lambda>_ _ _ _. None, bp_hostname = \<lambda>_ _. None\<rparr>"

theorem bootstrapTLS_verifies_witness:
  "\<exists>cfg chain leaf. bootstrapTLS sample_boot ''rly.best'' = Inr (cfg, chain, leaf) \<and> \<not> InsecureSkipVerify cfg"
proof -
  have "\<exists>x. bootstrapTLS sample_boot ''rly.best'' = Inr x"
    by (cases "isLocalRelayHostname ''rly.best''") (simp_all add: bootstrapTLS_def sample_boot_def)
  then obtain cfg chain leaf where "bootstrapTLS sample_boot ''rly.best'' = Inr (cfg, chain, leaf)" by auto
  from bootstrapTLS_verifies [OF this] this show ?thesis by blast
qed

section \<open>Properties of the registration loop\<close>

fun is_challenge :: "effect \<Rightarrow> bool" where
  "is_challenge (Request (HttpRequest _ _ (Some (ChallengeRequest _ _ _)))) \<longleftrightarrow> True"
| "is_challenge _ \<longleftrightarrow> False"

text \<open>The state changed without asking for a challenge.\<close>

definition no_challenge :: "('k, 'p) relaySupervisor \<Rightarrow> ('k, 'p) relaySupervisor \<Rightarrow> bool" where
  "no_challenge s s' \<longleftrightarrow> (\<exists>new. sv_trace s' = sv_trace s @ new \<and> \<not> list_ex is_challenge new)"

lemma no_challenge_refl [simp]: "no_challenge s s"
  by (simp add: no_challenge_def)

lemma no_challenge_trans: "no_challenge s t \<Longrightarrow> no_challenge t u \<Longrightarrow> no_challenge s u"
  by (auto simp: no_challenge_def)

lemma no_challenge_record: "\<not> is_challenge e \<Longrightarrow> no_challenge s (record_effect e s)"
  by (simp add: no_challenge_def)

lemma no_challenge_doAPI:
  assumes "doAPI env m path body out s = (s', r)" "\<not> is_challenge (Request (HttpRequest m (sv_relayURL s @ path) body))"
  shows "no_challenge s s'"
  using doAPI_state [of env m path body out s] assms no_challenge_record [OF assms(2)] by auto

lemma no_challenge_giveBack: "giveBack env w tok e s = (s', r) \<Longrightarrow> no_challenge s s'"
  by (auto simp: giveBack_def unregisterToken_def split: if_splits prod.splits option.splits sum.splits
      dest!: no_challenge_doAPI)

lemma no_challenge_register: "register_call env at s = (s', r) \<Longrightarrow> no_challenge s s'"
  by (auto simp: register_call_def callAPI_def split: prod.splits option.splits sum.splits dest!: no_challenge_doAPI)

lemma no_challenge_tenant:
  "buildTenantTLS sg srv (s\<lparr>nextLeaseGeneration := g\<rparr>) = (s', r) \<Longrightarrow> no_challenge s s'"
  by (drule buildTenantTLS_cases) (auto simp: no_challenge_def)

lemma no_challenge_submit:
  assumes "submitRegistration c env uenv n1 n2 sg srv at s = (s', res)"
  shows "no_challenge s s'"
  using assms
proof (cases rule: submit_cases)
  case (failed e)
  from no_challenge_register [OF failed(2)] show ?thesis .
next
  case (rejected s1 r e e')
  from no_challenge_trans [OF no_challenge_register [OF rejected(2)] no_challenge_giveBack [OF rejected(4)]]
  show ?thesis .
next
  case (unusable s1 r ep addr s3 e e')
  from no_challenge_trans [OF no_challenge_trans [OF no_challenge_register [OF unusable(2)]
      no_challenge_tenant [OF unusable(4)]] no_challenge_giveBack [OF unusable(5)]]
  show ?thesis .
next
  case (leased s1 r ep addr s3 tn)
  from no_challenge_trans [OF no_challenge_register [OF leased(2)] no_challenge_tenant [OF leased(4)]]
  show ?thesis by (simp add: no_challenge_def leased(5))
qed

text \<open>A challenge that is still valid is used again: while it has not expired, a round of the
  registration loop submits it without requesting another one and keeps it for the next round, so a
  throttling relay is not charged for a second challenge.\<close>

theorem registerRound_reuses_challenge:
  assumes "ri_ctx_err i = None" "at_challengeID a \<noteq> []" "ri_now i < at_expiresAt a"
    and "registerRound c i (Some a) s = (s', attempt', r)"
  shows "attempt' = Some a \<and> no_challenge s s'"
proof -
  have "registerRound c i (Some a) s = submitAttempt c i a s"
    using assms(1-3) by (simp add: registerRound_def attempt_valid_def)
  with assms(4) show ?thesis
    using no_challenge_submit by (auto simp: submitAttempt_def split: prod.splits option.splits)
qed

definition sample_round :: register_inputs where
  "sample_round = \<lparr>ri_ctx_err = None, ri_now = 0, ri_challenge_env = offline_env, ri_challenge_now = 0,
     ri_register_env = sample_env, ri_unregister_env = sample_env, ri_now1 = 0, ri_now2 = 0, ri_signer = Inr 1,
     ri_server = Inr 2, ri_waited = True, ri_ctx_after = None\<rparr>"

theorem registerRound_reuses_challenge_witness:
  "no_challenge sample_sv (fst (registerRound sample_crypto sample_round (Some sample_attempt) sample_sv))"
proof -
  obtain s' at' r where "registerRound sample_crypto sample_round (Some sample_attempt) sample_sv = (s', at', r)"
    by (cases "registerRound sample_crypto sample_round (Some sample_attempt) sample_sv") auto
  from registerRound_reuses_challenge [OF _ _ _ this] this show ?thesis
    by (simp add: sample_round_def sample_attempt_def)
qed

section \<open>Properties of the worker results\<close>

definition errors_of :: "go_error option list \<Rightarrow> go_error list" where
  "errors_of rs = List.map_filter (\<lambda>r. r) rs"

lemma errors_of_simps [simp]:
  "errors_of [] = []" "errors_of (None # rs) = errors_of rs" "errors_of (Some e # rs) = e # errors_of rs"
  by (simp_all add: errors_of_def List.map_filter_simps)

lemma mergeLoop_eq:
  "mergeLoop rs refresh transient =
     (case find isTerminalRelayFailure (errors_of rs) of
        Some e \<Rightarrow> e
      | None \<Rightarrow> if refresh \<or> (\<exists>e\<in>set (errors_of rs). errors_Is e ErrLeaseRefresh) then ErrLeaseRefresh
          else (case transient of Some e \<Rightarrow> e | None \<Rightarrow>
            (case find (\<lambda>e. \<not> errors_Is e ContextCanceled) (errors_of rs) of Some e \<Rightarrow> e | None \<Rightarrow> ContextCanceled)))"
  by (induction rs refresh transient rule: mergeLoop.induct) (auto split: option.splits)

text \<open>The end of a lease is decided by priority, not by which worker finished first: a terminal
  failure of any worker wins, then a request to refresh the lease, then the first other error that is
  not a cancellation.\<close>

theorem mergeWorkerResults_priority:
  "mergeWorkerResults None results =
     (case find isTerminalRelayFailure (errors_of results) of
        Some e \<Rightarrow> e
      | None \<Rightarrow> if list_ex (\<lambda>e. errors_Is e ErrLeaseRefresh) (errors_of results) then ErrLeaseRefresh
          else (case find (\<lambda>e. \<not> errors_Is e ContextCanceled) (errors_of results) of
            Some e \<Rightarrow> e | None \<Rightarrow> ContextCanceled))"
  by (auto simp: mergeWorkerResults_def mergeLoop_eq list_ex_iff split: option.split)

lemma errors_of_set: "e \<in> set (errors_of rs) \<longleftrightarrow> Some e \<in> set rs"
  by (induction rs) (auto simp: errors_of_def List.map_filter_simps split: option.splits)

lemma find_Some_prop: "find P xs = Some x \<Longrightarrow> P x \<and> x \<in> set xs"
  by (auto simp: find_Some_iff)

lemma verdict_sentinels: "verdict_of (Some ErrLeaseRefresh) = Refresh" "verdict_of (Some ContextCanceled) = Retry"
  by (simp_all add: verdict_of_def terminal_iff errors_Is_def)

text \<open>The verdict on a lease depends only on which errors its workers reported, not on the order
  in which they did.\<close>

theorem mergeWorkerResults_verdict:
  "verdict_of (Some (mergeWorkerResults None results)) =
     (if \<exists>e. Some e \<in> set results \<and> isTerminalRelayFailure e then Terminal
      else if \<exists>e. Some e \<in> set results \<and> errors_Is e ErrLeaseRefresh then Refresh else Retry)"
proof (cases "find isTerminalRelayFailure (errors_of results)")
  case (Some e)
  then have "isTerminalRelayFailure e" "Some e \<in> set results"
    using find_Some_prop [OF Some] by (simp_all add: errors_of_set)
  then show ?thesis by (auto simp: mergeWorkerResults_def mergeLoop_eq Some verdict_of_def)
next
  case None
  then have nt: "\<forall>e. Some e \<in> set results \<longrightarrow> \<not> isTerminalRelayFailure e"
    by (auto simp: find_None_iff errors_of_set)
  show ?thesis
  proof (cases "\<exists>e\<in>set (errors_of results). errors_Is e ErrLeaseRefresh")
    case True
    then show ?thesis
      using nt by (auto simp: mergeWorkerResults_def mergeLoop_eq None verdict_sentinels errors_of_set)
  next
    case False
    have "verdict_of (Some e) = Retry" if "find (\<lambda>e. \<not> errors_Is e ContextCanceled) (errors_of results) = Some e" for e
      using find_Some_prop [OF that] nt False by (auto simp: verdict_of_def errors_of_set)
    then show ?thesis
      using nt False by (auto simp: mergeWorkerResults_def mergeLoop_eq None verdict_sentinels errors_of_set
          split: option.splits)
  qed
qed

section \<open>Properties of received datagrams\<close>

text \<open>Every datagram handed to the application carries the relay and the UDP address it came
  through and a payload within the size bound; undecodable datagrams are dropped and the order of the
  others is kept.\<close>

theorem receiveFrames_attributed:
  "receiveFrames url addr datas =
     map (\<lambda>f. f\<lparr>RelayURL := url, UDPAddr := addr\<rparr>)
       (List.map_filter (\<lambda>d. case decodeDatagram d of Inr f \<Rightarrow> Some f | Inl _ \<Rightarrow> None) datas) \<and>
   list_all (\<lambda>f. RelayURL f = url \<and> UDPAddr f = addr \<and> length (Payload f) \<le> 65507) (receiveFrames url addr datas)"
proof -
  have "length (Payload f) \<le> 65507" if "decodeDatagram d = Inr f" for d f
    using that by (auto simp: decodeDatagram_def maxUDPPayloadSize_def split: prod.splits if_splits)
  then show ?thesis
    by (induction datas) (auto simp: List.map_filter_simps split: sum.splits)
qed

section \<open>Invariant of the lifecycle\<close>

definition no_lease :: "('k, 'p) relaySupervisor \<Rightarrow> bool" where
  "no_lease s \<longleftrightarrow> lease s = zero_lease \<and> datagramConn s = None"

fun phase_ok :: "pc \<Rightarrow> ('k, 'p) relaySupervisor \<Rightarrow> bool" where
  "phase_ok AtInit s \<longleftrightarrow> no_lease s"
| "phase_ok AtRegister s \<longleftrightarrow> no_lease s \<and> controlClient s"
| "phase_ok (InLease captured) s \<longleftrightarrow> lease_good s \<and> controlClient s \<and>
     (case captured of None \<Rightarrow> True | Some (tok, gen) \<Rightarrow> token (lease s) = tok \<and> generation (lease s) = gen \<and> renewing (lease s))"
| "phase_ok Stopped s \<longleftrightarrow> no_lease s \<and> \<not> controlClient s"

definition sup_inv :: "pc \<times> ('k, 'p) relaySupervisor \<Rightarrow> bool" where
  "sup_inv x \<longleftrightarrow> resources_ok (snd x) \<and> phase_ok (fst x) (snd x) \<and>
     (renewing (lease (snd x)) \<longrightarrow> tokenUncertain (lease (snd x)))"

lemma no_lease_flags: "no_lease s \<Longrightarrow> \<not> renewing (lease s)"
  by (simp add: no_lease_def zero_lease_def)

lemma initializeControl_effect:
  assumes "initializeControl env p s = (s', r)"
  shows "lease s' = lease s" "datagramConn s' = datagramConn s" "resources_ok s' = resources_ok s"
    "r = None \<Longrightarrow> controlClient s'"
proof -
  have *: "lease s' = lease s \<and> datagramConn s' = datagramConn s \<and> resources_ok s' = resources_ok s \<and> (r = None \<longrightarrow> controlClient s')"
  proof (cases "bootstrapTLS p (hostname s)")
    case (Inl e)
    moreover have "classifyRelayError (Some e) False \<noteq> None" using classify_cases [of e False] by auto
    ultimately show ?thesis using assms by (auto simp: initializeControl_def)
  next
    case (Inr x)
    obtain cfg chain leaf where x: "x = (cfg, chain, leaf)" by (cases x) auto
    define s1 where "s1 = s\<lparr>controlTLS := Some cfg, certificateChain := chain, controlClient := True\<rparr>"
    obtain s2 v where c: "callAPI env MethodGet pathDomain None (json_Domain env) s1 = (s2, v)" by fastforce
    note f = only_requests_fields [OF callAPI_requests [OF c]] and q = resources_requests [OF callAPI_requests [OF c]]
    have "lease s' = lease s2 \<and> datagramConn s' = datagramConn s2 \<and> resources_ok s' = resources_ok s2 \<and> controlClient s' = controlClient s2"
      using assms c by (auto simp: initializeControl_def Inr x s1_def [symmetric] Let_def resources_ok_def
          split: sum.splits if_splits option.splits)
    moreover have "lease s1 = lease s" "datagramConn s1 = datagramConn s" "controlClient s1" "resources_ok s1 = resources_ok s"
      by (simp_all add: s1_def resources_ok_def)
    ultimately show ?thesis using f q by simp
  qed
  from * show "lease s' = lease s" "datagramConn s' = datagramConn s" "resources_ok s' = resources_ok s"
    "r = None \<Longrightarrow> controlClient s'" by auto
qed

lemma requestRegisterChallenge_requests:
  "requestRegisterChallenge c env now s = (s', r) \<Longrightarrow> only_requests s s'"
  by (auto simp: requestRegisterChallenge_def split: prod.splits sum.splits if_splits dest!: callAPI_requests)

lemma submitRegistration_effect:
  assumes "submitRegistration c env uenv n1 n2 sg srv at s = (s', res)" "no_lease s" "resources_ok s"
  shows "resources_ok s'" "controlClient s' = controlClient s"
    "res \<noteq> None \<Longrightarrow> no_lease s'" "res = None \<Longrightarrow> lease_good s' \<and> \<not> renewing (lease s')"
proof -
  have t: "tenant (lease s) = None" using assms(2) by (simp add: no_lease_def zero_lease_def)
  have *: "resources_ok s' \<and> controlClient s' = controlClient s \<and> (res \<noteq> None \<longrightarrow> no_lease s')"
    using assms(1)
  proof (cases rule: submit_cases)
    case (failed e)
    then show ?thesis
      using assms(2,3) only_requests_fields [OF failed(1)] resources_requests [OF failed(1)] by (simp add: no_lease_def)
  next
    case (rejected s1 r e e')
    note o = only_requests_trans [OF rejected(1) giveBack_requests [OF rejected(4)]]
    show ?thesis using assms(2,3) only_requests_fields [OF o] resources_requests [OF o] by (simp add: no_lease_def)
  next
    case (unusable s1 r ep addr s3 e e')
    note f = only_requests_fields [OF unusable(1)] and g = only_requests_fields [OF giveBack_requests [OF unusable(5)]]
    show ?thesis
      using assms(2,3) f g buildTenantTLS_failed [OF unusable(4)] resources_requests [OF unusable(1)]
        resources_requests [OF giveBack_requests [OF unusable(5)]]
      by (simp add: no_lease_def)
  next
    case (leased s1 r ep addr s3 tn)
    note f = only_requests_fields [OF leased(1)]
    have s3: "s3 = record_effect (OpenSigner (tn_signer tn)) (s1\<lparr>nextLeaseGeneration := nextLeaseGeneration s1 + 1\<rparr>)"
      using buildTenantTLS_cases [OF leased(4)] by auto
    have "resources_ok s1" using resources_requests [OF leased(1)] assms(3) by simp
    then have "resources_ok s'"
      using f t signers.balanced_open [of "sv_trace s1" "tn_signer tn" "OpenSigner (tn_signer tn)"]
        conns.balanced_other [of "OpenSigner (tn_signer tn)"]
      by (simp add: leased(5) s3 resources_ok_def)
    then show ?thesis using f leased(5,6) by (simp add: s3)
  qed
  from * show "resources_ok s'" "controlClient s' = controlClient s" "res \<noteq> None \<Longrightarrow> no_lease s'" by auto
  assume "res = None"
  with assms(1) have "submitRegistration c env uenv n1 n2 sg srv at s = (s', None)" by simp
  from registration_lease [OF this] show "lease_good s' \<and> \<not> renewing (lease s')" by simp
qed

lemma registerRound_effect:
  assumes "registerRound c i attempt s = (s', attempt', r)" "r \<noteq> Return None" "no_lease s" "resources_ok s"
  shows "resources_ok s'" "controlClient s' = controlClient s" "no_lease s'"
proof -
  have sub: "resources_ok t' \<and> controlClient t' = controlClient t \<and> no_lease t'"
    if "submitAttempt c i a t = (t', at', r)" "no_lease t" "resources_ok t" for a t t' at'
  proof -
    obtain u res where u: "submitRegistration c (ri_register_env i) (ri_unregister_env i) (ri_now1 i) (ri_now2 i)
        (ri_signer i) (ri_server i) a t = (u, res)" by fastforce
    with that(1) assms(2) have "u = t'" "res \<noteq> None" by (auto simp: submitAttempt_def split: option.splits)
    with submitRegistration_effect [OF u that(2,3)] show ?thesis by simp
  qed
  have "resources_ok s' \<and> controlClient s' = controlClient s \<and> no_lease s'"
  proof (cases "ri_ctx_err i = None \<and> \<not> attempt_valid attempt (ri_now i)")
    case True
    obtain t x where t: "requestRegisterChallenge c (ri_challenge_env i) (ri_challenge_now i) s = (t, x)" by fastforce
    note o = requestRegisterChallenge_requests [OF t]
    have ok: "no_lease t" "resources_ok t" "controlClient t = controlClient s"
      using assms(3,4) only_requests_fields [OF o] resources_requests [OF o] by (simp_all add: no_lease_def)
    show ?thesis
    proof (cases x)
      case (Inl e)
      with assms(1) t True ok show ?thesis by (simp add: registerRound_def)
    next
      case (Inr a)
      with assms(1) t True have "submitAttempt c i a t = (s', attempt', r)" by (simp add: registerRound_def)
      with sub ok show ?thesis by auto
    qed
  next
    case False
    then show ?thesis
      using assms sub by (cases attempt) (auto simp: registerRound_def attempt_valid_def split: option.splits if_splits)
  qed
  then show "resources_ok s'" "controlClient s' = controlClient s" "no_lease s'" by auto
qed

lemma shutdown_effect:
  assumes "shutdown env co s = (s', errs)" "resources_ok s"
  shows "resources_ok s'" "phase_ok Stopped s'" "\<not> renewing (lease s')"
proof -
  obtain s2 where s2: "only_requests (clearDatagramConn None ''relay shutting down'' s) s2"
    "s' = resetControl (closeTenant (tenant (lease s2)) (s2\<lparr>lease := zero_lease\<rparr>))"
    using assms(1) by (rule shutdown_unfold)
  have "resources_ok s2" using resources_requests [OF s2(1)] resources_clearConn [OF assms(2)] by simp
  then show "resources_ok s'" unfolding s2(2) resources_reset by (rule resources_closeTenant)
  show "phase_ok Stopped s'" "\<not> renewing (lease s')"
    using only_requests_fields(2) [OF s2(1)]
    by (simp_all add: no_lease_def s2(2) clearDatagramConn_None zero_lease_def)
qed

lemma runAfterLease_effect:
  assumes "runAfterLease ctx e s = (s', r)" "resources_ok s"
  shows "resources_ok s'" "r = Continue \<Longrightarrow> no_lease s'"
proof -
  have "r = Continue \<Longrightarrow> s' = resetControl (discardLostLease s)" "r \<noteq> Continue \<Longrightarrow> s' = s"
    using assms(1) by (auto simp: runAfterLease_def split: if_splits)
  then show "resources_ok s'" "r = Continue \<Longrightarrow> no_lease s'"
    using discardLostLease_fields [of s] assms(2) by (cases "r = Continue"; simp add: no_lease_def resources_reset)+
qed

text \<open>A session may only touch the failures recorded by the signer.\<close>

definition tenant_only :: "('k, 'p) relaySupervisor \<Rightarrow> ('k, 'p) relaySupervisor \<Rightarrow> bool" where
  "tenant_only s s' \<longleftrightarrow> s' = s \<or> (\<exists>t t'. tenant (lease s) = Some t \<and> tn_signer t' = tn_signer t \<and>
     s' = s\<lparr>lease := (lease s)\<lparr>tenant := Some t'\<rparr>\<rparr>)"

lemma tenant_only_refl [simp]: "tenant_only s s"
  by (simp add: tenant_only_def)

lemma tenant_only_errs:
  "tenant (lease s) = Some t \<Longrightarrow> tenant_only s (s\<lparr>lease := (lease s)\<lparr>tenant := Some (t\<lparr>tn_errs := e\<rparr>)\<rparr>\<rparr>)"
  unfolding tenant_only_def by (rule disjI2, rule exI [of _ t], rule exI [of _ "t\<lparr>tn_errs := e\<rparr>"]) simp

lemma activate_tenant_only: "tenant_only s (fst (activateSession p bytes s))"
  by (simp add: activateSession_def currentTenantTLS_def takeError_def Let_def tenant_only_errs split: option.split)

lemma session_tenant_only: "tenant_only s (fst (runReverseSession p k bytes s))"
proof (induction bytes arbitrary: k)
  case Nil
  show ?case by (subst runReverseSession.simps) (simp split: option.split)
next
  case (Cons m bytes)
  then show ?case
    by (subst runReverseSession.simps) (simp add: activate_tenant_only split: option.split)
qed

lemma tenant_only_inv:
  assumes "tenant_only s s'" "sup_inv (InLease l, s)"
  shows "sup_inv (InLease l, s')"
  using assms by (auto simp: tenant_only_def sup_inv_def lease_good_def resources_ok_def split: option.splits)

lemma same_lease_inv:
  assumes "only_requests s s'" "sup_inv (InLease l, s)"
  shows "sup_inv (InLease l, s')"
  using assms(2) only_requests_fields [OF assms(1)] resources_requests [OF assms(1)]
  by (cases l) (auto simp: sup_inv_def lease_good_def)

lemma conn_step_inv:
  assumes "sup_inv (InLease l, s)" "lease s' = lease s" "nextLeaseGeneration s' = nextLeaseGeneration s"
    "udpEnabled s' = udpEnabled s" "controlClient s' = controlClient s" "resources_ok s'"
  shows "sup_inv (InLease l, s')"
  using assms by (cases l) (auto simp: sup_inv_def lease_good_def)

lemma clearConn_fields:
  "lease (clearDatagramConn x reason s) = lease s" "nextLeaseGeneration (clearDatagramConn x reason s) = nextLeaseGeneration s"
  "udpEnabled (clearDatagramConn x reason s) = udpEnabled s" "controlClient (clearDatagramConn x reason s) = controlClient s"
  by (simp_all add: clearDatagramConn_def split: option.split)

lemma installConn_fields:
  "lease (installDatagramConn x s) = lease s" "nextLeaseGeneration (installDatagramConn x s) = nextLeaseGeneration s"
  "udpEnabled (installDatagramConn x s) = udpEnabled s" "controlClient (installDatagramConn x s) = controlClient s"
  by (simp_all add: installDatagramConn_def Let_def split: option.split)

lemma send_inv:
  assumes "sendDatagram outcome frame s = Some (s', r)" "sup_inv (InLease l, s)"
  shows "sup_inv (InLease l, s')"
proof -
  have "s' = s \<or> (\<exists>conn d. s' = record_effect (SendOn conn d) s)"
    using assms(1) by (auto simp: sendDatagram_def split: if_splits option.splits sum.splits)
  moreover have "resources_ok (record_effect (SendOn conn d) s) = resources_ok s" for conn d
    using signers.balanced_other [of "SendOn conn d"] conns.balanced_other [of "SendOn conn d"]
    by (simp add: resources_ok_def)
  moreover have "resources_ok s" using assms(2) by (simp add: sup_inv_def)
  ultimately have "lease s' = lease s \<and> nextLeaseGeneration s' = nextLeaseGeneration s \<and> udpEnabled s' = udpEnabled s \<and>
      controlClient s' = controlClient s \<and> resources_ok s'" by auto
  then show ?thesis by (intro conn_step_inv [OF assms(2)]) auto
qed

lemma commit_inv:
  assumes "trim_space newToken \<noteq> []" "validateReverseEndpoint now s raw expiry = Inr endpoint"
    "commitRenewal tok gen (trim_space newToken) expiry endpoint s = (s', ok)" "sup_inv (InLease (Some (tok, gen)), s)"
  shows "sup_inv (InLease None, if ok then clearDatagramConn None ''lease renewed'' s' else s')" "ok"
proof -
  have g: "token (lease s) = tok" "generation (lease s) = gen" using assms(4) by (simp_all add: sup_inv_def)
  with assms(3) have s': "s' = s\<lparr>nextLeaseGeneration := nextLeaseGeneration s + 1,
      lease := (lease s)\<lparr>token := trim_space newToken, expiresAt := expiry, reverse := endpoint, renewing := False,
        tokenUncertain := False, generation := nextLeaseGeneration s + 1\<rparr>\<rparr>" and "ok"
    by (auto simp: commitRenewal_def)
  have "resources_ok s'" using assms(4) by (simp add: sup_inv_def s' resources_ok_def)
  from resources_clearConn [OF this] show "sup_inv (InLease None, if ok then clearDatagramConn None ''lease renewed'' s' else s')"
    using \<open>ok\<close> assms(1,4) endpoint_facts [OF assms(2)]
    by (simp add: sup_inv_def lease_good_def clearDatagramConn_None) (simp add: s')
  show "ok" by fact
qed

lemma sup_step_inv:
  assumes "sup_step c x y" "sup_inv x"
  shows "sup_inv y"
  using assms
proof (cases rule: sup_step.cases)
  case (init_ok env p s s')
  with assms(2) initializeControl_effect [OF init_ok(3)] show ?thesis by (simp add: sup_inv_def no_lease_def zero_lease_def)
next
  case (init_failed env p s s' e ctx waited)
  with assms(2) initializeControl_effect [OF init_failed(3)] show ?thesis
    by (simp add: sup_inv_def no_lease_def resources_reset zero_lease_def)
next
  case (init_stop env p s s' e ctx waited r uenv co s'' errs)
  have "resources_ok (resetControl s')"
    using assms(2) initializeControl_effect(3) [OF init_stop(3)] by (simp add: sup_inv_def init_stop(1) resources_reset)
  from shutdown_effect [OF init_stop(5) this] show ?thesis by (simp add: sup_inv_def init_stop(2))
next
  case (cancelled uenv co s s' errs)
  with assms(2) shutdown_effect [OF cancelled(3)] show ?thesis by (simp add: sup_inv_def)
next
  case (register_retry i attempt s s' attempt')
  with assms(2) registerRound_effect [OF register_retry(3)] no_lease_flags show ?thesis by (auto simp: sup_inv_def)
next
  case (register_ok env uenv n1 n2 sg srv attempt s s')
  with assms(2) submitRegistration_effect [OF register_ok(3)] show ?thesis by (simp add: sup_inv_def)
next
  case (register_stop i attempt s s' attempt' e ctx r uenv co s'' errs)
  have "resources_ok s'" using assms(2) registerRound_effect(1) [OF register_stop(3)] by (simp add: sup_inv_def register_stop(1))
  from shutdown_effect [OF register_stop(5) this] show ?thesis by (simp add: sup_inv_def register_stop(2))
next
  case (renew_begin s s')
  with assms(2) show ?thesis by (auto simp: beginRenewal_True sup_inv_def lease_good_def)
next
  case (request env m path body dec s s' r l)
  with assms(2) same_lease_inv [OF callAPI_requests [OF request(3)]] show ?thesis by simp
next
  case (renew_failed tok gen s)
  with assms(2) show ?thesis by (auto simp: endRenewal_def sup_inv_def lease_good_def)
next
  case (renew_refused tok gen s)
  with assms(2) show ?thesis by (simp add: sup_inv_def)
next
  case (renew_commit newToken now s raw expiry endpoint tok gen s' ok)
  with assms(2) commit_inv(1) [OF renew_commit(3-5)] show ?thesis by simp
next
  case (session sp bytes s s' r l)
  have "tenant_only s s'" using session_tenant_only [of s sp 0 bytes] session(3) by simp
  from tenant_only_inv [OF this] show ?thesis using assms(2) session by simp
next
  case (datagram_up s conn l)
  have i: "sup_inv (InLease l, s)" using assms(2) datagram_up(1) by simp
  then have "resources_ok s" by (simp add: sup_inv_def)
  from conn_step_inv [OF i installConn_fields resources_install [OF this datagram_up(4)]] datagram_up(2)
  show ?thesis by simp
next
  case (datagram_down l s expected reason)
  have i: "sup_inv (InLease l, s)" using assms(2) datagram_down(1) by simp
  then have "resources_ok s" by (simp add: sup_inv_def)
  from conn_step_inv [OF i clearConn_fields resources_clearConn [OF this]] datagram_down(2)
  show ?thesis by simp
next
  case (datagram_send outcome frame s s' r l)
  with assms(2) send_inv [OF datagram_send(3)] show ?thesis by simp
next
  case (lease_lost ctx e s s' l)
  with assms(2) runAfterLease_effect [OF lease_lost(3)] no_lease_flags show ?thesis by (auto simp: sup_inv_def)
next
  case (lease_stop ctx e s s' r uenv co s'' errs l)
  have "resources_ok s'" using assms(2) runAfterLease_effect(1) [OF lease_stop(3)] by (simp add: sup_inv_def lease_stop(1))
  from shutdown_effect [OF lease_stop(4) this] show ?thesis by (simp add: sup_inv_def lease_stop(2))
qed

lemma sup_init_inv: "sup_init x \<Longrightarrow> sup_inv x"
proof -
  assume "sup_init x"
  then obtain url ident tm udp s where x: "fst x = AtInit" "snd x = s\<lparr>udpEnabled := udp\<rparr>"
    "newRelaySupervisor url ident tm = Inr s" by (auto simp: sup_init_def)
  then have "lease s = zero_lease" "datagramConn s = None" "sv_trace s = []"
    by (auto simp: newRelaySupervisor_def Let_def split: option.splits if_splits)
  then show "sup_inv x"
    using x by (simp add: sup_inv_def no_lease_def resources_ok_def zero_lease_def)
qed

interpretation supervisor: invariant sup_init "sup_step c" sup_inv for c
  by unfold_locales (auto intro: sup_init_inv sup_step_inv)

section \<open>Properties of the lifecycle\<close>

text \<open>C13. In every reachable state of a supervisor, whatever the interleaving of its workers: signers and
  datagram connections are accounted for, there is a lease exactly between registration and its end,
  the lease is usable and carries the latest generation, and a renewal is in flight only with the token
  it captured.\<close>

theorem supervisor_invariant:
  assumes "reachable sup_init (sup_step c) (pc, s)"
  shows "resources_ok s \<and> (renewing (lease s) \<longrightarrow> tokenUncertain (lease s)) \<and>
    (case pc of
       InLease captured \<Rightarrow> lease_good s \<and> controlClient s \<and>
         (\<forall>tok gen. captured = Some (tok, gen) \<longrightarrow> token (lease s) = tok \<and> generation (lease s) = gen)
     | _ \<Rightarrow> lease s = zero_lease \<and> datagramConn s = None)"
proof -
  have "sup_inv (pc, s)" using assms by (rule supervisor.reachable_inv)
  then show ?thesis by (cases pc) (auto simp: sup_inv_def no_lease_def)
qed

text \<open>C21. A stopped supervisor has released everything: every signer and every datagram connection that
  was ever opened has been closed as often, and nothing runs any more.\<close>

theorem stopped_supervisor_clean:
  assumes "reachable sup_init (sup_step c) (Stopped, s)"
  shows "balanced opens_signer closes_signer None (sv_trace s) \<and> balanced opens_conn closes_conn None (sv_trace s) \<and>
    (\<forall>x. \<not> sup_step c (Stopped, s) x)"
proof -
  have "sup_inv (Stopped, s)" using assms by (rule supervisor.reachable_inv)
  then have "resources_ok s" "tenant (lease s) = None" "datagramConn s = None"
    by (simp_all add: sup_inv_def no_lease_def zero_lease_def)
  then show ?thesis by (simp add: resources_ok_def)
qed

text \<open>C19. An answer to a renewal that passes the checks is installed: whenever it arrives, the lease is
  still the one the request was made for, so that the comparison before the commit succeeds and the
  supervisor goes on with the token, the expiry and the endpoint of the answer and the next generation. (An
  answer that fails the checks is dropped and ends the supervisor.)\<close>

theorem checked_renewal_installed:
  assumes "reachable sup_init (sup_step c) (InLease (Some (tok, gen)), s)"
    "trim_space newToken \<noteq> []" "validateReverseEndpoint now s raw expiry = Inr endpoint"
  shows "token (lease s) = tok \<and> generation (lease s) = gen \<and>
    (\<exists>s'. sup_step c (InLease (Some (tok, gen)), s) (InLease None, s') \<and> token (lease s') = trim_space newToken \<and>
      expiresAt (lease s') = expiry \<and> reverse (lease s') = endpoint \<and> generation (lease s') = gen + 1 \<and>
      tenant (lease s') = tenant (lease s) \<and> \<not> renewing (lease s') \<and> \<not> tokenUncertain (lease s') \<and> datagramConn s' = None)"
proof -
  have inv: "sup_inv (InLease (Some (tok, gen)), s)" using assms(1) by (rule supervisor.reachable_inv)
  then have l: "token (lease s) = tok" "generation (lease s) = gen" "nextLeaseGeneration s = gen"
    by (auto simp: sup_inv_def lease_good_def)
  obtain s' where s': "commitRenewal tok gen (trim_space newToken) expiry endpoint s = (s', True)"
    "s' = s\<lparr>nextLeaseGeneration := gen + 1, lease := (lease s)\<lparr>token := trim_space newToken, expiresAt := expiry,
       reverse := endpoint, renewing := False, tokenUncertain := False, generation := gen + 1\<rparr>\<rparr>"
    using l by (simp add: commitRenewal_def)
  from renew_commit [OF assms(2,3) s'(1), of c] s'(2) l(1,2) show ?thesis
    by (intro conjI exI [of _ "clearDatagramConn None ''lease renewed'' s'"]) (simp_all add: clearDatagramConn_None)
qed

text \<open>C20. A live lease is handed back: from every reachable state inside a lease, shutdown sends an
  unregister request for the current token.\<close>

theorem live_lease_unregistered:
  assumes "reachable sup_init (sup_step c) (InLease captured, s)" "can_request env s" "shutdown env co s = (s', errs)"
  shows "unregister_request s (token (lease s)) \<in> set (sv_trace s')"
proof -
  have "sup_inv (InLease captured, s)" using assms(1) by (rule supervisor.reachable_inv)
  then have "token (lease s) \<noteq> []" "controlClient s" by (simp_all add: sup_inv_def lease_good_def)
  then show ?thesis using unregister_on_shutdown assms(2,3) by blast
qed

text \<open>A run for the witnesses: initialisation, registration, and the start of a renewal.\<close>

definition sample_start :: "(byte list, unit) relaySupervisor" where
  "sample_start = sample_sv\<lparr>controlClient := False, publicHostname := []\<rparr>"

definition sample_peer :: "(nat, unit) boot_peer" where
  "sample_peer = \<lparr>bp_dial = None, bp_handshake = \<lambda>_. Inr [0], bp_pem = \<lambda>_. Inr ''pem'', bp_pool = \<lambda>_. Some (),
     bp_verify = \<lambda>_ _ _ _. None, bp_hostname = \<lambda>_ _. None\<rparr>"

lemma sample_start_init: "sup_init (AtInit, sample_start)"
proof -
  have "newRelaySupervisor ''https://rly.best'' sample_identity defaultRelayTimings = Inr sample_start"
    by (simp add: newRelaySupervisor_def rly_best_url url_hostname_def url_port_def sample_start_def sample_sv_def
        join_host_port_def withDefaults_def defaultRelayTimings_def positive_or_def Let_def)
  moreover have "sample_start\<lparr>udpEnabled := False\<rparr> = sample_start"
    by (simp add: sample_start_def sample_sv_def)
  ultimately show ?thesis unfolding sup_init_def by (metis fst_conv snd_conv)
qed

lemma sample_initialise:
  "\<exists>s'. initializeControl sample_env sample_peer sample_start = (s', None) \<and> identity s' = sample_identity \<and>
     authority s' = ''rly.best'' \<and> \<not> udpEnabled s' \<and> sv_relayURL s' = ''https://rly.best'' \<and> controlClient s'"
proof -
  obtain cfg chain where b: "bootstrapTLS sample_peer (hostname sample_start) = Inr (cfg, chain, 0)"
    by (cases "isLocalRelayHostname (hostname sample_start)") (simp_all add: bootstrapTLS_def sample_peer_def)
  define s1 where "s1 = sample_start\<lparr>controlTLS := Some cfg, certificateChain := chain, controlClient := True\<rparr>"
  have c: "callAPI sample_env MethodGet pathDomain None (json_Domain sample_env) s1 =
      (record_effect (Request (HttpRequest MethodGet (sv_relayURL s1 @ pathDomain) None)) s1, Inr ''10'')"
    by (rule sample_call) (simp_all add: s1_def sample_start_def sample_sv_def, simp add: sample_env_def)
  have "bp_hostname sample_peer x y = None" for x y by (simp add: sample_peer_def)
  with b c show ?thesis
    by (simp add: initializeControl_def s1_def [symmetric] Let_def ProtocolVersion_def)
      (simp add: s1_def sample_start_def sample_sv_def)
qed

lemma sample_leased_reachable:
  obtains s where "reachable sup_init (sup_step sample_crypto) (InLease None, s :: (byte list, unit) relaySupervisor)"
    "sv_relayURL s = ''https://rly.best''" "authority s = ''rly.best''" "\<not> renewing (lease s)" "token (lease s) \<noteq> []"
proof -
  obtain s1 where s1: "initializeControl sample_env sample_peer sample_start = (s1, None)" "identity s1 = sample_identity"
    "authority s1 = ''rly.best''" "\<not> udpEnabled s1" "sv_relayURL s1 = ''https://rly.best''" "controlClient s1"
    using sample_initialise by blast
  have r1: "reachable sup_init (sup_step sample_crypto) (AtRegister, s1)"
    by (rule reach_step [of sup_init "sup_step sample_crypto", OF reach_init [of sup_init, OF sample_start_init] init_ok [OF s1(1)]])
  have c: "register_call sample_env sample_attempt s1 =
      (record_effect (Request (HttpRequest MethodPost (sv_relayURL s1 @ pathRegister)
       (Some (RegisterRequest (at_challengeID sample_attempt) (at_siweMessage sample_attempt) (at_signature sample_attempt))))) s1, Inr sample_register)"
    unfolding register_call_def by (rule sample_call) (simp_all add: s1, simp add: sample_env_def)
  let ?r = "submitRegistration sample_crypto sample_env sample_env 0 0 (Inr 1) (Inr 2) sample_attempt s1"
  have "snd ?r = None \<and> sv_relayURL (fst ?r) = ''https://rly.best'' \<and> authority (fst ?r) = ''rly.best''"
    unfolding submitRegistration_def register_call_def [symmetric] c
    by (simp add: sample_check s1 buildTenantTLS_def Let_def)
  then have r: "?r = (fst ?r, None)" "sv_relayURL (fst ?r) = ''https://rly.best''" "authority (fst ?r) = ''rly.best''"
    by (simp_all add: prod_eq_iff)
  have "reachable sup_init (sup_step sample_crypto) (InLease None, fst ?r)"
    by (rule reach_step [of sup_init "sup_step sample_crypto", OF r1 register_ok [OF r(1)]])
  then show thesis using that r(2,3) registration_lease [OF r(1)] by (auto simp: lease_good_def)
qed

theorem supervisor_invariant_witness:
  "\<exists>s :: (byte list, unit) relaySupervisor. reachable sup_init (sup_step sample_crypto) (InLease None, s) \<and> lease_good s"
  by (rule sample_leased_reachable) (use supervisor_invariant in fastforce)

theorem stopped_supervisor_clean_witness:
  "\<exists>s :: (byte list, unit) relaySupervisor. reachable sup_init (sup_step sample_crypto) (Stopped, s) \<and>
     balanced opens_signer closes_signer None (sv_trace s)"
proof -
  have "reachable sup_init (sup_step sample_crypto) (Stopped, fst (shutdown sample_env None sample_start))"
    by (rule reach_step [of sup_init "sup_step sample_crypto", OF reach_init [of sup_init, OF sample_start_init] cancelled [OF prod.collapse [symmetric]]])
  from stopped_supervisor_clean [OF this] this show ?thesis by blast
qed

theorem checked_renewal_installed_witness:
  "\<exists>tok gen s s'. reachable sup_init (sup_step sample_crypto) (InLease (Some (tok, gen)), s :: (byte list, unit) relaySupervisor) \<and>
     sup_step sample_crypto (InLease (Some (tok, gen)), s) (InLease None, s') \<and> token (lease s') = ''u'' \<and> generation (lease s') = gen + 1"
proof (rule sample_leased_reachable)
  fix s :: "(byte list, unit) relaySupervisor"
  assume s: "reachable sup_init (sup_step sample_crypto) (InLease None, s)" "\<not> renewing (lease s)" "authority s = ''rly.best''"
  let ?s = "s\<lparr>lease := (lease s)\<lparr>tokenUncertain := True, renewing := True\<rparr>\<rparr>"
  have "beginRenewal (token (lease s)) (generation (lease s)) s = (?s, True)" using s(2) by (simp add: beginRenewal_def)
  note r = reach_step [of sup_init "sup_step sample_crypto", OF s(1) renew_begin [OF this]]
  have "validateReverseEndpoint 0 ?s sample_endpoint 200 = Inr sample_endpoint" by (rule sample_endpoint_ok) (simp_all add: s(3))
  from checked_renewal_installed [OF r, of "''u''", OF _ this] r show ?thesis by fastforce
qed

theorem live_lease_unregistered_witness:
  "\<exists>s :: (byte list, unit) relaySupervisor. reachable sup_init (sup_step sample_crypto) (InLease None, s) \<and>
     unregister_request s (token (lease s)) \<in> set (sv_trace (fst (shutdown sample_env None s)))"
proof (rule sample_leased_reachable)
  fix s :: "(byte list, unit) relaySupervisor"
  assume s: "reachable sup_init (sup_step sample_crypto) (InLease None, s)" "sv_relayURL s = ''https://rly.best''"
  from live_lease_unregistered [OF s(1) sample_can_request [OF s(2)] prod.collapse [symmetric]] s(1)
  show ?thesis by blast
qed

end
