(* ===== verification/Discovery.thy ===== *)
theory Discovery
  imports ControlApi "HOL-Library.Finite_Map"
begin

text \<open>
  Relay discovery (\<open>src/discovery.go\<close>): signed relay descriptors, the set of candidates they
  give, and the client that fetches \<open>/discovery\<close> documents.

  Hash functions, signature recovery, \<open>encoding/json\<close> and the HTTP transport are arguments
  (\<open>discovery_env\<close>). A Go map is a finite map, a \<open>map[string]struct{}\<close> a finite set. A loop
  over a map runs over its entries in ascending key order; \<open>merge_exact\<close> gives the result for every
  order of both loops of \<open>merge\<close>, which Go leaves open. The mutex of \<open>discoveryCandidates\<close> makes each operation on
  it atomic.

  The lemmas show that no signed field of an accepted descriptor can be changed under its signature, that
  the expiry is signed only modulo \<open>2\<^sup>6\<^sup>4\<close> nanoseconds, that only self-signed, fresh descriptors with a
  canonical origin become candidates, and exactly which candidates are merged and selected.
\<close>

section \<open>Constants and documents\<close>

definition pathDiscovery :: string where "pathDiscovery = ''/discovery''"
definition discoveryProtocolVersion :: string where "discoveryProtocolVersion = ''9''"
definition discoveryPollInterval :: duration where "discoveryPollInterval = 30 * second"
definition defaultMaxActiveRelays :: int where "defaultMaxActiveRelays = 8"
definition maxDiscoveryResponseBytes :: nat where "maxDiscoveryResponseBytes = 1048576"

text \<open>\<open>TCPBPS\<close> is a \<open>float64\<close>, kept as its bits: the code only passes it on.\<close>

record relayDescriptor =
  rd_Address :: string
  rd_Version :: string
  rd_IssuedAt :: instant
  rd_ExpiresAt :: instant
  rd_APIHTTPSAddr :: string
  rd_IVNPDestination :: string
  rd_SupportsUDP :: bool
  rd_SupportsTCP :: bool
  rd_ActiveConnections :: int
  rd_TCPBPS :: "64 word"
  rd_Signature :: string

record incompatibleRelayEntry =
  ir_URL :: string
  ir_ProtocolVersion :: string
  ir_LastSeenAt :: instant

record discoveryResponse =
  dr_ProtocolVersion :: string
  dr_GeneratedAt :: instant
  dr_Relays :: "relayDescriptor list"
  dr_IncompatibleRelays :: "incompatibleRelayEntry list"

record discoveryCandidate =
  dc_expiresAt :: instant
  dc_supportsUDP :: bool

section \<open>Library functions\<close>

text \<open>\<open>Time.UnixNano\<close>: nanoseconds since 1970 in an \<open>int64\<close>. Instants count from year 1.\<close>

definition unix_epoch :: instant where "unix_epoch = 62135596800 * second"

definition UnixNano :: "instant \<Rightarrow> 64 word" where
  "UnixNano t = word_of_int (t - unix_epoch)"

text \<open>\<open>base64.StdEncoding.DecodeString\<close>: line ends are skipped, then four characters give three
  bytes and the last group may be padded.\<close>

definition base64_val :: "char \<Rightarrow> nat option" where
  "base64_val ch =
     (if is_upper ch then Some (code ch - 65)
      else if is_lower ch then Some (code ch - 71)
      else if is_digit ch then Some (code ch + 4)
      else if ch = CHR ''+'' then Some 62
      else if ch = CHR ''/'' then Some 63 else None)"

fun base64_groups :: "string \<Rightarrow> byte list option" where
  "base64_groups [] = Some []"
| "base64_groups (a # b # c # d # s) =
     (case (base64_val a, base64_val b, base64_val c, base64_val d) of
        (Some i, Some j, Some k, Some l) \<Rightarrow>
          map_option ((@) [of_nat (i * 4 + j div 16), of_nat (j mod 16 * 16 + k div 4), of_nat (k mod 4 * 64 + l)])
            (base64_groups s)
      | (Some i, Some j, Some k, None) \<Rightarrow>
          if d = CHR ''='' \<and> s = []
          then Some [of_nat (i * 4 + j div 16), of_nat (j mod 16 * 16 + k div 4)] else None
      | (Some i, Some j, None, _) \<Rightarrow>
          if c = CHR ''='' \<and> d = CHR ''='' \<and> s = [] then Some [of_nat (i * 4 + j div 16)] else None
      | _ \<Rightarrow> None)"
| "base64_groups _ = None"

definition base64_decode :: "string \<Rightarrow> byte list option" where
  "base64_decode s = base64_groups (filter (\<lambda>ch. ch \<noteq> CHR 0x0A \<and> ch \<noteq> CHR 0x0D) s)"

section \<open>Descriptors\<close>

text \<open>The structure that is signed, with its fields in the order of the source.\<close>

record canonicalDescriptor =
  cd_Address :: string
  cd_Version :: string
  cd_IssuedAtUnixNano :: "64 word"
  cd_ExpiresAtUnixNano :: "64 word"
  cd_APIHTTPSAddr :: string
  cd_SupportsUDP :: bool
  cd_SupportsTCP :: bool
  cd_ActiveConnections :: int
  cd_TCPBPS :: "64 word"
  cd_IVNPDestination :: string

definition canonicalDescriptorOf :: "relayDescriptor \<Rightarrow> canonicalDescriptor" where
  "canonicalDescriptorOf d = \<lparr>
     cd_Address = trim_space (rd_Address d),
     cd_Version = trim_space (rd_Version d),
     cd_IssuedAtUnixNano = UnixNano (rd_IssuedAt d),
     cd_ExpiresAtUnixNano = UnixNano (rd_ExpiresAt d),
     cd_APIHTTPSAddr = trim_space (rd_APIHTTPSAddr d),
     cd_SupportsUDP = rd_SupportsUDP d,
     cd_SupportsTCP = rd_SupportsTCP d,
     cd_ActiveConnections = rd_ActiveConnections d,
     cd_TCPBPS = rd_TCPBPS d,
     cd_IVNPDestination = trim_space (rd_IVNPDestination d)\<rparr>"

text \<open>The libraries: \<open>crypto/sha256\<close>, \<open>ecdsa.RecoverCompact\<close> (an error, or a key that may be
  nil), the JSON encoder and decoders, and the exchange of an HTTP client.\<close>

record discovery_transport =
  tr_ProxyFromEnvironment :: bool
  tr_ForceAttemptHTTP2 :: bool
  tr_TLSHandshakeTimeout :: duration
  tr_TLSClientConfig :: "unit tls_config option"

record discovery_http =
  hc_Transport :: discovery_transport
  hc_Timeout :: duration

record 'key discovery_env =
  dv_crypto :: "'key crypto"
  sha256_Sum256 :: "byte list \<Rightarrow> byte list"
  ecdsa_RecoverCompact :: "byte list \<Rightarrow> byte list \<Rightarrow> go_error + 'key option"
  json_Canonical :: "canonicalDescriptor \<Rightarrow> go_error + byte list"
  json_DiscoveryEnvelope :: "string \<Rightarrow> go_error + apiEnvelope"
  json_DiscoveryResponse :: "string \<Rightarrow> go_error + discoveryResponse"
  discovery_Do :: "discovery_http \<Rightarrow> http_request \<Rightarrow> go_error + http_response"

definition canonicalDescriptorBytes :: "'key discovery_env \<Rightarrow> relayDescriptor \<Rightarrow> go_error + byte list" where
  "canonicalDescriptorBytes env d = json_Canonical env (canonicalDescriptorOf d)"

definition verifyRelayDescriptor :: "'key discovery_env \<Rightarrow> relayDescriptor \<Rightarrow> instant \<Rightarrow> go_error option" where
  "verifyRelayDescriptor env d now =
     (let rawSignature = trim_space (rd_Signature d) in
      if rawSignature = [] then Some (ErrorText ''relay descriptor is not signed'')
      else (case base64_decode rawSignature of
          None \<Rightarrow> Some (Wrapped ''relay descriptor signature is not valid base64'' (ErrorText ''illegal base64 data''))
        | Some compact \<Rightarrow>
            if length compact \<noteq> 65 then
              Some (ErrorText (''relay descriptor signature is '' @ format_uint (length compact) @ '' bytes, want 65''))
            else let address = trim_space (rd_Address d) in
            if address = [] then Some (ErrorText ''relay descriptor has no address'')
            else let d = d\<lparr>rd_Signature := []\<rparr> in
            (case canonicalDescriptorBytes env d of
               Inl e \<Rightarrow> Some (Wrapped ''canonicalize relay descriptor'' e)
             | Inr canonical \<Rightarrow>
                 (case ecdsa_RecoverCompact env compact (sha256_Sum256 env canonical) of
                    Inl e \<Rightarrow> Some (Wrapped ''recover relay descriptor signer'' e)
                  | Inr None \<Rightarrow> Some (ErrorText ''relay descriptor signature is invalid'')
                  | Inr (Some publicKey) \<Rightarrow>
                      if \<not> equal_fold (ethereumAddress (dv_crypto env) publicKey) address then
                        Some (ErrorText ''relay descriptor address does not match its signing key'')
                      else if rd_ExpiresAt d = 0 \<or> \<not> rd_ExpiresAt d > now then
                        Some (ErrorText ''relay descriptor is expired'')
                      else if rd_IssuedAt d \<noteq> 0 \<and> rd_IssuedAt d > now + 5 * minute then
                        Some (ErrorText ''relay descriptor is issued in the future'')
                      else None))))"

section \<open>Candidates\<close>

record discoveryCandidates =
  dcs_relays :: "(string, instant) fmap"
  dcs_udpOnly :: "(string, bool) fmap"
  dcs_seen :: "string fset"

definition newDiscoveryCandidates :: discoveryCandidates where
  "newDiscoveryCandidates = \<lparr>dcs_relays = fmempty, dcs_udpOnly = fmempty, dcs_seen = {||}\<rparr>"

definition forget_candidate :: "string \<Rightarrow> discoveryCandidates \<Rightarrow> discoveryCandidates" where
  "forget_candidate rawURL c =
     c\<lparr>dcs_relays := fmdrop rawURL (dcs_relays c), dcs_udpOnly := fmdrop rawURL (dcs_udpOnly c)\<rparr>"

text \<open>The bodies of the two loops of \<open>merge\<close>; \<open>es\<close> and \<open>olds\<close> are the entries in the orders in which the
  loops visit them. The second loop deletes only the entry it visits.\<close>

definition merge_entry :: "instant \<Rightarrow> string \<times> discoveryCandidate \<Rightarrow> discoveryCandidates \<Rightarrow> discoveryCandidates" where
  "merge_entry now = (\<lambda>(rawURL, entry) c.
     if \<not> dc_expiresAt entry > now then forget_candidate rawURL c
     else c\<lparr>dcs_relays := fmupd rawURL (dc_expiresAt entry) (dcs_relays c),
            dcs_udpOnly := fmupd rawURL (dc_supportsUDP entry) (dcs_udpOnly c),
            dcs_seen := finsert rawURL (dcs_seen c)\<rparr>)"

definition expire_entry :: "instant \<Rightarrow> string \<times> instant \<Rightarrow> discoveryCandidates \<Rightarrow> discoveryCandidates" where
  "expire_entry now = (\<lambda>(rawURL, at) c. if \<not> at > now then forget_candidate rawURL c else c)"

definition merge_entries :: "instant \<Rightarrow> (string \<times> discoveryCandidate) list \<Rightarrow> (string \<times> instant) list \<Rightarrow>
    discoveryCandidates \<Rightarrow> discoveryCandidates" where
  "merge_entries now es olds c = fold (expire_entry now) olds (fold (merge_entry now) es c)"

definition merge_candidates :: "instant \<Rightarrow> (string, discoveryCandidate) fmap \<Rightarrow> discoveryCandidates \<Rightarrow> discoveryCandidates" where
  "merge_candidates now entries c =
     (let es = sorted_list_of_fmap entries
      in merge_entries now es (sorted_list_of_fmap (dcs_relays (fold (merge_entry now) es c))) c)"

definition known :: "discoveryCandidates \<Rightarrow> string \<Rightarrow> bool" where
  "known c rawURL \<longleftrightarrow> rawURL |\<in>| dcs_seen c"

text \<open>\<open>selectRelays\<close>: the loop keeps the candidates that pass its three tests, \<open>sort.Strings\<close>
  orders them.\<close>

definition selectable :: "instant \<Rightarrow> string fset \<Rightarrow> bool \<Rightarrow> discoveryCandidates \<Rightarrow> string \<times> instant \<Rightarrow> bool" where
  "selectable now active requireUDP c = (\<lambda>(rawURL, at).
     at > now \<and> rawURL |\<notin>| active \<and> \<not> (requireUDP \<and> fmlookup (dcs_udpOnly c) rawURL \<noteq> Some True))"

definition selectRelays :: "instant \<Rightarrow> string fset \<Rightarrow> bool \<Rightarrow> discoveryCandidates \<Rightarrow> string list" where
  "selectRelays now active requireUDP c =
     sort (map fst (filter (selectable now active requireUDP c) (sorted_list_of_fmap (dcs_relays c))))"

definition discoverySeeds :: "string fset \<Rightarrow> string list" where
  "discoverySeeds active = sorted_list_of_fset active"

section \<open>Fetching documents\<close>

text \<open>The client of \<open>newDiscoveryClient\<close>. A transport without TLS settings verifies certificates
  against the system roots.\<close>

definition newDiscoveryClient :: "duration \<Rightarrow> discovery_http" where
  "newDiscoveryClient timeout = \<lparr>
     hc_Transport = \<lparr>tr_ProxyFromEnvironment = True, tr_ForceAttemptHTTP2 = False,
       tr_TLSHandshakeTimeout = timeout, tr_TLSClientConfig = None\<rparr>,
     hc_Timeout = timeout\<rparr>"

text \<open>The client that talks to \<open>host\<close>: the given one, except for a loopback relay.\<close>

definition discovery_client_for :: "discovery_http \<Rightarrow> string \<Rightarrow> discovery_http" where
  "discovery_client_for c host =
     (if isLocalRelayHostname host
      then c\<lparr>hc_Transport := \<lparr>tr_ProxyFromEnvironment = True, tr_ForceAttemptHTTP2 = False,
          tr_TLSHandshakeTimeout = hc_Timeout c,
          tr_TLSClientConfig = Some (zero_tls_config\<lparr>MinVersion := VersionTLS12, ServerName := host,
            InsecureSkipVerify := True\<rparr>)\<rparr>\<rparr>
      else c)"

definition readDiscoveryBody :: "string \<Rightarrow> go_error option \<Rightarrow> go_error + string" where
  "readDiscoveryBody body err =
     (let payload = take (maxDiscoveryResponseBytes + 1) body;
          seen = (if length body \<ge> maxDiscoveryResponseBytes + 1 then None else err)
      in case seen of
           Some e \<Rightarrow> Inl (Wrapped ''read relay discovery'' e)
         | None \<Rightarrow>
             if length payload > maxDiscoveryResponseBytes
             then Inl (ErrorText ''relay discovery response exceeds limit'') else Inr payload)"

text \<open>The body of the loop over the descriptors of a document.\<close>

definition adopt_descriptor :: "'key discovery_env \<Rightarrow> instant \<Rightarrow> relayDescriptor \<Rightarrow>
    (string, discoveryCandidate) fmap \<Rightarrow> (string, discoveryCandidate) fmap" where
  "adopt_descriptor env now d candidates =
     (case verifyRelayDescriptor env d now of
        Some _ \<Rightarrow> candidates
      | None \<Rightarrow>
          (case normalizeRelay (rd_APIHTTPSAddr d) of
             Inl _ \<Rightarrow> candidates
           | Inr candidateURL \<Rightarrow>
               fmupd candidateURL \<lparr>dc_expiresAt = rd_ExpiresAt d, dc_supportsUDP = rd_SupportsUDP d\<rparr> candidates))"

definition decodeDiscovery :: "'key discovery_env \<Rightarrow> http_response \<Rightarrow> go_error + discoveryResponse" where
  "decodeDiscovery env r =
     (case readDiscoveryBody (rsp_body r) (rsp_body_error r) of
        Inl e \<Rightarrow> Inl e
      | Inr payload \<Rightarrow>
          if rsp_status r < 200 \<or> rsp_status r \<ge> 300 then
            Inl (ErrorText (''relay discovery returned status '' @ format_uint (nat (rsp_status r))))
          else (case json_DiscoveryEnvelope env payload of
              Inl e \<Rightarrow> Inl (Wrapped ''decode relay discovery envelope'' e)
            | Inr ev \<Rightarrow>
                if \<not> ev_OK ev \<or> length (ev_Data ev) = 0 then
                  Inl (ErrorText ''relay discovery response is not a successful envelope'')
                else (case json_DiscoveryResponse env (ev_Data ev) of
                    Inl e \<Rightarrow> Inl (Wrapped ''decode relay discovery document'' e)
                  | Inr document \<Rightarrow>
                      if trim_space (dr_ProtocolVersion document) \<noteq> discoveryProtocolVersion then
                        Inl (ErrorText (''relay discovery protocol '' @ dr_ProtocolVersion document @ '' is unsupported''))
                      else Inr document)))"

definition fetch_discovery :: "'key discovery_env \<Rightarrow> discovery_http \<Rightarrow> string \<Rightarrow> instant \<Rightarrow>
    go_error + (string, discoveryCandidate) fmap" where
  "fetch_discovery env c relayURL now =
     (case url_parse relayURL of
        None \<Rightarrow> Inl (Wrapped ''parse discovery relay URL'' (ErrorText ''invalid URL''))
      | Some parsed \<Rightarrow>
          let host = url_hostname parsed in
          if host = [] then Inl (ErrorText ''discovery relay URL has no hostname'')
          else if url_parse (relayURL @ pathDiscovery) = None then
            Inl (Wrapped ''build discovery request'' (ErrorText ''invalid URL''))
          else (case discovery_Do env (discovery_client_for c host)
                    (HttpRequest MethodGet (relayURL @ pathDiscovery) None) of
              Inl e \<Rightarrow> Inl (Wrapped ''fetch relay discovery'' e)
            | Inr response \<Rightarrow>
                (case decodeDiscovery env response of
                   Inl e \<Rightarrow> Inl e
                 | Inr document \<Rightarrow>
                     let candidates = fold (adopt_descriptor env now) (dr_Relays document) fmempty in
                     if candidates = fmempty
                     then Inl (ErrorText ''relay discovery advertised no verifiable relays'')
                     else Inr candidates)))"

section \<open>Base64\<close>

text \<open>The encoder of the signatures' text form; the relays use it.\<close>

definition base64_char :: "nat \<Rightarrow> char" where
  "base64_char n =
     (if n < 26 then char_of (n + 65) else if n < 52 then char_of (n + 71)
      else if n < 62 then char_of (n - 4) else if n = 62 then CHR ''+'' else CHR ''/'')"

fun base64_encode :: "byte list \<Rightarrow> string" where
  "base64_encode [] = []"
| "base64_encode [a] = [base64_char (unat a div 4), base64_char (unat a mod 4 * 16), CHR ''='', CHR ''='']"
| "base64_encode [a, b] =
     [base64_char (unat a div 4), base64_char (unat a mod 4 * 16 + unat b div 16),
      base64_char (unat b mod 16 * 4), CHR ''='']"
| "base64_encode (a # b # c # s) =
     base64_char (unat a div 4) # base64_char (unat a mod 4 * 16 + unat b div 16) #
     base64_char (unat b mod 16 * 4 + unat c div 64) # base64_char (unat c mod 64) # base64_encode s"

lemma base64_val_char: "n < 64 \<Longrightarrow> base64_val (base64_char n) = Some n"
  by (auto simp: base64_val_def base64_char_def char_class_defs)

lemma base64_char_graphic: "n < 64 \<Longrightarrow> is_graphic (base64_char n)"
  by (auto simp: base64_char_def char_class_defs)

lemma base64_val_pad: "base64_val CHR ''='' = None"
  by (simp add: base64_val_def char_class_defs)

lemma byte_sextets:
  fixes a b c :: byte
  shows "unat a div 4 < 64" "unat a mod 4 * 16 < 64" "unat a mod 4 * 16 + unat b div 16 < 64"
    "unat b mod 16 * 4 < 64" "unat b mod 16 * 4 + unat c div 64 < 64" "unat c mod 64 < 64"
  using byte_less_256 [of a] byte_less_256 [of b] byte_less_256 [of c] by simp_all

lemma byte_reassemble:
  fixes a b c :: byte
  shows "of_nat (unat a div 4 * 4 + (unat a mod 4 * 16) div 16) = a"
    "of_nat (unat a div 4 * 4 + (unat a mod 4 * 16 + unat b div 16) div 16) = a"
    "of_nat ((unat a mod 4 * 16 + unat b div 16) mod 16 * 16 + (unat b mod 16 * 4) div 4) = b"
    "of_nat ((unat a mod 4 * 16 + unat b div 16) mod 16 * 16 + (unat b mod 16 * 4 + unat c div 64) div 4) = b"
    "of_nat ((unat b mod 16 * 4 + unat c div 64) mod 4 * 64 + unat c mod 64) = c"
proof -
  have eq: "n = unat x \<Longrightarrow> of_nat n = x" for n and x :: byte by simp
  note small = byte_less_256 [of a] byte_less_256 [of b] byte_less_256 [of c]
  have q: "unat b div 16 < 16" "unat c div 64 < 4" using small by linarith+
  show "of_nat (unat a div 4 * 4 + (unat a mod 4 * 16) div 16) = a" by (rule eq) simp
  show "of_nat (unat a div 4 * 4 + (unat a mod 4 * 16 + unat b div 16) div 16) = a"
    using q by (intro eq) simp
  show "of_nat ((unat a mod 4 * 16 + unat b div 16) mod 16 * 16 + (unat b mod 16 * 4) div 4) = b"
    using q by (intro eq) simp
  show "of_nat ((unat a mod 4 * 16 + unat b div 16) mod 16 * 16 + (unat b mod 16 * 4 + unat c div 64) div 4) = b"
    using q by (intro eq) simp
  show "of_nat ((unat b mod 16 * 4 + unat c div 64) mod 4 * 64 + unat c mod 64) = c"
    using q by (intro eq) simp
qed

lemma base64_groups_encode: "base64_groups (base64_encode bs) = Some bs"
  by (induction bs rule: base64_encode.induct)
    (simp_all only: base64_encode.simps base64_groups.simps base64_val_char byte_sextets base64_val_pad
      byte_reassemble prod.case option.case simp_thms if_True option.map append.simps)

lemma base64_encode_graphic: "list_all is_graphic (base64_encode bs)"
proof -
  have "is_graphic CHR ''=''" by (simp add: is_graphic_def)
  then show ?thesis
    by (induction bs rule: base64_encode.induct) (simp_all add: base64_char_graphic byte_sextets)
qed

lemma base64_decode_encode: "base64_decode (base64_encode bs) = Some bs"
proof -
  have "filter (\<lambda>ch. ch \<noteq> CHR 0x0A \<and> ch \<noteq> CHR 0x0D) (base64_encode bs) = base64_encode bs"
    by (rule filter_True) (use base64_encode_graphic [of bs] in \<open>auto simp: list_all_iff is_graphic_def\<close>)
  then show ?thesis by (simp add: base64_decode_def base64_groups_encode)
qed

interpretation base64: codec "\<lambda>_. True" base64_encode base64_decode
  by unfold_locales (rule base64_decode_encode)

section \<open>Properties of descriptors\<close>

lemma verifyRelayDescriptor_None:
  "verifyRelayDescriptor env d now = None \<longleftrightarrow>
     (\<exists>sig canonical k.
        base64_decode (trim_space (rd_Signature d)) = Some sig \<and> length sig = 65 \<and>
        trim_space (rd_Address d) \<noteq> [] \<and>
        json_Canonical env (canonicalDescriptorOf d) = Inr canonical \<and>
        ecdsa_RecoverCompact env sig (sha256_Sum256 env canonical) = Inr (Some k) \<and>
        equal_fold (ethereumAddress (dv_crypto env) k) (trim_space (rd_Address d)) \<and>
        rd_ExpiresAt d \<noteq> 0 \<and> now < rd_ExpiresAt d \<and>
        (rd_IssuedAt d = 0 \<or> rd_IssuedAt d \<le> now + 5 * minute))"
proof -
  have c: "canonicalDescriptorBytes env (d\<lparr>rd_Signature := []\<rparr>) = json_Canonical env (canonicalDescriptorOf d)"
    by (simp add: canonicalDescriptorBytes_def canonicalDescriptorOf_def)
  have n: "base64_decode [] = Some []" by (simp add: base64_decode_def)
  show ?thesis
    unfolding verifyRelayDescriptor_def Let_def c
    by (cases "base64_decode (trim_space (rd_Signature d))"; cases "json_Canonical env (canonicalDescriptorOf d)")
      (auto simp: n not_less split: if_splits sum.splits option.splits)
qed

lemma trim_ethereumAddress:
  "trim_space (ethereumAddress c k) = ethereumAddress c k" "ethereumAddress c k \<noteq> []"
  by (simp_all add: ethereumAddress_def Let_def checksum_eq trim_0x_hex hex_checksum_body hex_encode_digits)

text \<open>A concrete environment: one key, constant digests and signatures, a document that is read from
  any body.\<close>

definition unit_crypto :: "unit crypto" where
  "unit_crypto = \<lparr>PrivKeyFromBytes = \<lambda>_. (), Serialize = \<lambda>_. replicate 32 1, SerializeCompressed = \<lambda>_. replicate 33 2,
     SerializeUncompressed = \<lambda>_. replicate 65 4, SetByteSlice_overflow = \<lambda>_. False,
     SetByteSlice_IsZero = \<lambda>_. False, SignCompact = \<lambda>_ _. replicate 65 27, LegacyKeccak256 = \<lambda>_. replicate 32 0x9f\<rparr>"

definition sample_descriptor :: relayDescriptor where
  "sample_descriptor = \<lparr>rd_Address = ethereumAddress unit_crypto (), rd_Version = ''10'', rd_IssuedAt = 0,
     rd_ExpiresAt = minute, rd_APIHTTPSAddr = ''https://rly.best'', rd_IVNPDestination = [], rd_SupportsUDP = True,
     rd_SupportsTCP = False, rd_ActiveConnections = 0, rd_TCPBPS = 0,
     rd_Signature = base64_encode (replicate 65 27)\<rparr>"

definition sample_discovery :: "unit discovery_env" where
  "sample_discovery = \<lparr>dv_crypto = unit_crypto, sha256_Sum256 = \<lambda>_. replicate 32 0,
     ecdsa_RecoverCompact = \<lambda>_ _. Inr (Some ()), json_Canonical = \<lambda>_. Inr [],
     json_DiscoveryEnvelope = \<lambda>_. Inr \<lparr>ev_Data = ''{}'', ev_Error = None, ev_OK = True\<rparr>,
     json_DiscoveryResponse = \<lambda>_. Inr \<lparr>dr_ProtocolVersion = ''9'', dr_GeneratedAt = 0,
       dr_Relays = [sample_descriptor], dr_IncompatibleRelays = []\<rparr>,
     discovery_Do = \<lambda>_ _. Inr \<lparr>rsp_status = 200, rsp_retry_after = [], rsp_body = [], rsp_body_error = None\<rparr>\<rparr>"

lemma sample_descriptor_times [simp]: "rd_ExpiresAt sample_descriptor = minute" "rd_IssuedAt sample_descriptor = 0"
  "rd_APIHTTPSAddr sample_descriptor = ''https://rly.best''" "rd_SupportsUDP sample_descriptor"
  by (simp_all add: sample_descriptor_def)

lemma sample_signature:
  "base64_decode (trim_space (rd_Signature sample_descriptor)) = Some (replicate 65 27)"
  by (simp only: sample_descriptor_def relayDescriptor.simps trim_space_all_graphic base64_encode_graphic base64_decode_encode)

lemma sample_verified: "verifyRelayDescriptor sample_discovery sample_descriptor 0 = None"
proof -
  have a: "trim_space (rd_Address sample_descriptor) = ethereumAddress unit_crypto ()"
    by (simp add: sample_descriptor_def trim_ethereumAddress)
  show ?thesis
    unfolding verifyRelayDescriptor_None sample_signature a
    by (simp add: trim_ethereumAddress sample_discovery_def equal_fold_def)
qed

text \<open>The digest that is signed, if the descriptor can be encoded.\<close>

definition descriptor_digest :: "'key discovery_env \<Rightarrow> relayDescriptor \<Rightarrow> byte list option" where
  "descriptor_digest env d =
     (case canonicalDescriptorBytes env d of Inl _ \<Rightarrow> None | Inr canonical \<Rightarrow> Some (sha256_Sum256 env canonical))"

text \<open>What the libraries promise for two descriptors: different structures have different JSON texts,
  SHA-256 does not collide on them, and one signature does not lead from two digests to the same address
  (for a fixed signature the recovered key determines the digest).\<close>

definition no_collision :: "'key discovery_env \<Rightarrow> relayDescriptor \<Rightarrow> relayDescriptor \<Rightarrow> bool" where
  "no_collision env d d' \<longleftrightarrow>
     (json_Canonical env (canonicalDescriptorOf d) = json_Canonical env (canonicalDescriptorOf d') \<longrightarrow>
        canonicalDescriptorOf d = canonicalDescriptorOf d') \<and>
     (\<forall>b b'. json_Canonical env (canonicalDescriptorOf d) = Inr b \<longrightarrow> json_Canonical env (canonicalDescriptorOf d') = Inr b' \<longrightarrow>
        sha256_Sum256 env b = sha256_Sum256 env b' \<longrightarrow> b = b') \<and>
     (\<forall>sig h h' k k'. descriptor_digest env d = Some h \<longrightarrow> descriptor_digest env d' = Some h' \<longrightarrow>
        ecdsa_RecoverCompact env sig h = Inr (Some k) \<longrightarrow> ecdsa_RecoverCompact env sig h' = Inr (Some k') \<longrightarrow>
        equal_fold (ethereumAddress (dv_crypto env) k) (ethereumAddress (dv_crypto env) k') \<longrightarrow> h = h')"

lemma verified_twins:
  assumes "verifyRelayDescriptor env d now = None" "verifyRelayDescriptor env d' now' = None" "no_collision env d d'"
    "trim_space (rd_Signature d') = trim_space (rd_Signature d)"
    "equal_fold (trim_space (rd_Address d')) (trim_space (rd_Address d))"
  shows "canonicalDescriptorOf d' = canonicalDescriptorOf d"
proof -
  from assms(1) obtain sig b k where d: "base64_decode (trim_space (rd_Signature d)) = Some sig"
    "json_Canonical env (canonicalDescriptorOf d) = Inr b" "ecdsa_RecoverCompact env sig (sha256_Sum256 env b) = Inr (Some k)"
    "equal_fold (ethereumAddress (dv_crypto env) k) (trim_space (rd_Address d))"
    unfolding verifyRelayDescriptor_None by blast
  from assms(2,4) d(1) obtain b' k' where d': "json_Canonical env (canonicalDescriptorOf d') = Inr b'"
    "ecdsa_RecoverCompact env sig (sha256_Sum256 env b') = Inr (Some k')"
    "equal_fold (ethereumAddress (dv_crypto env) k') (trim_space (rd_Address d'))"
    unfolding verifyRelayDescriptor_None by auto
  have "descriptor_digest env d = Some (sha256_Sum256 env b)" "descriptor_digest env d' = Some (sha256_Sum256 env b')"
    by (simp_all add: descriptor_digest_def canonicalDescriptorBytes_def d(2) d'(1))
  moreover have "equal_fold (ethereumAddress (dv_crypto env) k) (ethereumAddress (dv_crypto env) k')"
    using d(4) d'(3) assms(5) by (simp add: equal_fold_def)
  ultimately have "sha256_Sum256 env b = sha256_Sum256 env b'"
    using assms(3) d(3) d'(2) unfolding no_collision_def by blast
  then have "b = b'" using assms(3) d(2) d'(1) unfolding no_collision_def by blast
  then show ?thesis using assms(3) d(2) d'(1) unfolding no_collision_def by simp
qed


text \<open>Two keys: one for the digest of the descriptor that was signed, one for every other digest.\<close>

definition twin_crypto :: "bool crypto" where
  "twin_crypto = \<lparr>PrivKeyFromBytes = \<lambda>_. True, Serialize = \<lambda>_. replicate 32 1, SerializeCompressed = \<lambda>_. replicate 33 2,
     SerializeUncompressed = \<lambda>k. [4, if k then 1 else 2], SetByteSlice_overflow = \<lambda>_. False,
     SetByteSlice_IsZero = \<lambda>_. False, SignCompact = \<lambda>_ _. replicate 65 27,
     LegacyKeccak256 = \<lambda>b. replicate 32 (hd b)\<rparr>"

definition twin_discovery :: "bool discovery_env" where
  "twin_discovery = \<lparr>dv_crypto = twin_crypto, sha256_Sum256 = \<lambda>b. b,
     ecdsa_RecoverCompact = \<lambda>_ h. Inr (Some (h = [0])),
     json_Canonical = \<lambda>c. Inr (if cd_APIHTTPSAddr c = ''https://rly.best'' then [0] else [1]),
     json_DiscoveryEnvelope = \<lambda>_. Inl EOF, json_DiscoveryResponse = \<lambda>_. Inl EOF, discovery_Do = \<lambda>_ _. Inl EOF\<rparr>"

definition twin_descriptor :: relayDescriptor where
  "twin_descriptor = sample_descriptor\<lparr>rd_Address := ethereumAddress twin_crypto True\<rparr>"

lemma twin_addresses: "\<not> equal_fold (ethereumAddress twin_crypto False) (ethereumAddress twin_crypto True)"
proof -
  have l: "map lower_char (ethereumAddress twin_crypto k) =
      map lower_char (''0x'' @ hex_encode (replicate 20 (if k then 1 else 2)))" for k
    by (simp add: ethereumAddress_def Let_def checksum_eq lower_checksum_body) (simp add: twin_crypto_def)
  have b: "list_all is_ascii (checksum_body c (hex_encode bs))" for c :: "bool crypto" and bs
    by (rule list_all_mono [of is_hex_digit]) (simp_all add: hex_checksum_body hex_encode_digits is_hex_digit_graphic is_graphic_ascii)
  have x: "is_ascii CHR ''0''" "is_ascii CHR ''x''" by (simp_all add: is_ascii_def)
  have "list_all is_ascii (ethereumAddress twin_crypto k)" for k
    unfolding ethereumAddress_def Let_def checksum_eq by (simp only: list.pred_inject b x simp_thms)
  moreover have "map lower_char (hex_encode (replicate 20 1)) \<noteq> map lower_char (hex_encode (replicate 20 2))"
  proof
    assume "map lower_char (hex_encode (replicate 20 1)) = map lower_char (hex_encode (replicate 20 2))"
    then have "Some (replicate 20 (1 :: byte)) = Some (replicate 20 2)" by (metis hex_decode_map_lower hex_decode_encode)
    then show False by (simp add: replicate_eq_replicate)
  qed
  ultimately show ?thesis by (simp only: equal_fold_ascii l map_append append_same_eq same_append_eq if_True if_False)
qed

lemma twin_verified: "verifyRelayDescriptor twin_discovery twin_descriptor 0 = None"
proof -
  have a: "trim_space (rd_Address twin_descriptor) = ethereumAddress twin_crypto True"
    by (simp add: twin_descriptor_def trim_ethereumAddress)
  have s: "rd_Signature twin_descriptor = rd_Signature sample_descriptor" by (simp add: twin_descriptor_def)
  show ?thesis
    unfolding verifyRelayDescriptor_None a s sample_signature
    by (simp add: trim_ethereumAddress twin_discovery_def equal_fold_def canonicalDescriptorOf_def twin_descriptor_def
        trim_space_all_graphic is_graphic_def)
qed


text \<open>C30. The expiry is signed modulo \<open>2\<^sup>6\<^sup>4\<close> nanoseconds only, because \<open>UnixNano\<close> wraps around: a
  descriptor that was accepted once and has expired, and is rejected as such, is accepted again under the
  same signature when its expiry is moved by \<open>2\<^sup>6\<^sup>4\<close> nanoseconds, about 584 years.\<close>

theorem expired_descriptor_revived:
  assumes "verifyRelayDescriptor env d now = None" "0 \<le> now" "rd_ExpiresAt d \<le> later" "later < rd_ExpiresAt d + 2 ^ 64"
  shows "verifyRelayDescriptor env d later \<noteq> None \<and>
    verifyRelayDescriptor env (d\<lparr>rd_ExpiresAt := rd_ExpiresAt d + 2 ^ 64\<rparr>) later = None"
proof -
  let ?d = "d\<lparr>rd_ExpiresAt := rd_ExpiresAt d + 2 ^ 64\<rparr>"
  have "(word_of_int (t + 2 ^ 64) :: 64 word) = word_of_int t" for t
    by (simp add: word_of_int_eq_iff take_bit_eq_mod)
  from this [of "rd_ExpiresAt d - unix_epoch"] have "UnixNano (rd_ExpiresAt d + 2 ^ 64) = UnixNano (rd_ExpiresAt d)"
    by (simp add: UnixNano_def algebra_simps)
  then have c: "canonicalDescriptorOf ?d = canonicalDescriptorOf d" by (simp add: canonicalDescriptorOf_def)
  from assms show ?thesis unfolding verifyRelayDescriptor_None c by auto
qed

theorem expired_descriptor_revived_witness:
  "verifyRelayDescriptor sample_discovery sample_descriptor minute \<noteq> None \<and>
   verifyRelayDescriptor sample_discovery (sample_descriptor\<lparr>rd_ExpiresAt := minute + 2 ^ 64\<rparr>) minute = None"
  using expired_descriptor_revived [OF sample_verified, of minute] by simp

section \<open>Properties of the candidates\<close>

text \<open>Every candidate has its UDP flag and was seen.\<close>

definition wf_candidates :: "discoveryCandidates \<Rightarrow> bool" where
  "wf_candidates c \<longleftrightarrow> fmdom (dcs_udpOnly c) = fmdom (dcs_relays c) \<and> fmdom (dcs_relays c) |\<subseteq>| dcs_seen c"

lemmas candidate_defs = merge_entry_def expire_entry_def forget_candidate_def

lemma merge_entry_lookup:
  "fmlookup (dcs_relays (merge_entry now e c)) u =
     (if u = fst e then (if now < dc_expiresAt (snd e) then Some (dc_expiresAt (snd e)) else None)
      else fmlookup (dcs_relays c) u)"
  "fmlookup (dcs_udpOnly (merge_entry now e c)) u =
     (if u = fst e then (if now < dc_expiresAt (snd e) then Some (dc_supportsUDP (snd e)) else None)
      else fmlookup (dcs_udpOnly c) u)"
  "u |\<in>| dcs_seen (merge_entry now e c) \<longleftrightarrow> u |\<in>| dcs_seen c \<or> u = fst e \<and> now < dc_expiresAt (snd e)"
  by (auto simp: candidate_defs split: prod.splits)

lemma merge_fold_relays:
  "distinct (map fst es) \<Longrightarrow> fmlookup (dcs_relays (fold (merge_entry now) es c)) u =
     (case map_of es u of None \<Rightarrow> fmlookup (dcs_relays c) u
      | Some e \<Rightarrow> if now < dc_expiresAt e then Some (dc_expiresAt e) else None)"
  by (induction es arbitrary: c)
    (auto simp: merge_entry_lookup map_of_eq_None_iff [THEN iffD2] split: option.splits)

lemma merge_fold_udpOnly:
  "distinct (map fst es) \<Longrightarrow> fmlookup (dcs_udpOnly (fold (merge_entry now) es c)) u =
     (case map_of es u of None \<Rightarrow> fmlookup (dcs_udpOnly c) u
      | Some e \<Rightarrow> if now < dc_expiresAt e then Some (dc_supportsUDP e) else None)"
  by (induction es arbitrary: c)
    (auto simp: merge_entry_lookup map_of_eq_None_iff [THEN iffD2] split: option.splits)

lemma merge_fold_seen:
  "distinct (map fst es) \<Longrightarrow> u |\<in>| dcs_seen (fold (merge_entry now) es c) \<longleftrightarrow>
     u |\<in>| dcs_seen c \<or> (\<exists>e. map_of es u = Some e \<and> now < dc_expiresAt e)"
  by (induction es arbitrary: c)
    (auto simp: merge_entry_lookup map_of_eq_None_iff [THEN iffD2] image_iff)

lemmas merge_fold_lookup = merge_fold_relays merge_fold_udpOnly merge_fold_seen

text \<open>The keys that the entries \<open>es\<close> do not show as expired.\<close>

definition unexpired :: "instant \<Rightarrow> (string \<times> instant) list \<Rightarrow> string \<Rightarrow> bool" where
  "unexpired now es u \<longleftrightarrow> list_all (\<lambda>(k, at). k = u \<longrightarrow> now < at) es"

lemma unexpired_Cons:
  "unexpired now (e # es) u \<longleftrightarrow> (fst e = u \<longrightarrow> now < snd e) \<and> unexpired now es u"
  by (auto simp: unexpired_def)

lemma expire_entry_fields:
  "dcs_relays (expire_entry now e c) = fmfilter (\<lambda>u. fst e = u \<longrightarrow> now < snd e) (dcs_relays c)"
  "dcs_udpOnly (expire_entry now e c) = fmfilter (\<lambda>u. fst e = u \<longrightarrow> now < snd e) (dcs_udpOnly c)"
  "dcs_seen (expire_entry now e c) = dcs_seen c"
  by (auto simp: candidate_defs intro!: fmap_ext split: prod.splits)

lemma expire_fold_relays: "dcs_relays (fold (expire_entry now) es c) = fmfilter (unexpired now es) (dcs_relays c)"
  by (induction es arbitrary: c) (auto simp: unexpired_Cons expire_entry_fields unexpired_def [of _ "[]"] intro!: fmap_ext)

lemma expire_fold_udpOnly: "dcs_udpOnly (fold (expire_entry now) es c) = fmfilter (unexpired now es) (dcs_udpOnly c)"
  by (induction es arbitrary: c) (auto simp: unexpired_Cons expire_entry_fields unexpired_def [of _ "[]"] intro!: fmap_ext)

lemma expire_fold_seen: "dcs_seen (fold (expire_entry now) es c) = dcs_seen c"
  by (induction es arbitrary: c) (simp_all add: expire_entry_fields)

lemmas expire_fold = expire_fold_relays expire_fold_udpOnly expire_fold_seen

lemma set_sorted_list_of_fmap: "(u, v) \<in> set (sorted_list_of_fmap m) \<longleftrightarrow> fmlookup m u = Some v"
  by (auto simp: sorted_list_of_fmap_def intro: fmdomI intro!: image_eqI dest: fmdomI)

lemma distinct_sorted_list_of_fset [simp]: "distinct (sorted_list_of_fset S)"
  by (simp add: sorted_list_of_fset.rep_eq)

lemma sorted_sorted_list_of_fset [simp]: "sorted (sorted_list_of_fset S)"
  by (simp add: sorted_list_of_fset.rep_eq)

lemma fst_sorted_list_of_fmap [simp]: "map fst (sorted_list_of_fmap m) = sorted_list_of_fset (fmdom m)"
  by (simp add: sorted_list_of_fmap_def comp_def)

lemma unexpired_map_of:
  "distinct (map fst es) \<Longrightarrow> unexpired now es u \<longleftrightarrow> (case map_of es u of Some at \<Rightarrow> now < at | None \<Rightarrow> True)"
  by (auto simp: unexpired_def list_all_iff map_of_eq_None_iff image_iff Bex_def eq_commute dest: map_of_SomeD
      eq_key_imp_eq_value split: option.splits)

text \<open>The entries of a finite map in some order.\<close>

definition visits :: "(string \<times> 'v) list \<Rightarrow> (string, 'v) fmap \<Rightarrow> bool" where
  "visits es m \<longleftrightarrow> distinct (map fst es) \<and> map_of es = fmlookup m"

lemma visits_sorted: "visits (sorted_list_of_fmap m) m"
  by (simp add: visits_def)

lemma merged_relays:
  assumes "visits es entries" "visits olds (dcs_relays (fold (merge_entry now) es c))"
  shows "fmlookup (dcs_relays (merge_entries now es olds c)) u =
      (case fmlookup entries u of
         None \<Rightarrow> (case fmlookup (dcs_relays c) u of Some at \<Rightarrow> if now < at then Some at else None | None \<Rightarrow> None)
       | Some e \<Rightarrow> if now < dc_expiresAt e then Some (dc_expiresAt e) else None)"
  using assms by (simp add: merge_entries_def visits_def expire_fold unexpired_map_of merge_fold_lookup split: option.splits)

lemma merged_udpOnly:
  assumes "visits es entries" "visits olds (dcs_relays (fold (merge_entry now) es c))"
  shows "fmlookup (dcs_udpOnly (merge_entries now es olds c)) u =
      (case fmlookup entries u of
         None \<Rightarrow> (case fmlookup (dcs_relays c) u of Some at \<Rightarrow> if now < at then fmlookup (dcs_udpOnly c) u else None
                  | None \<Rightarrow> fmlookup (dcs_udpOnly c) u)
       | Some e \<Rightarrow> if now < dc_expiresAt e then Some (dc_supportsUDP e) else None)"
  using assms by (simp add: merge_entries_def visits_def expire_fold unexpired_map_of merge_fold_lookup split: option.splits)

lemma merged_seen:
  assumes "visits es entries"
  shows "u |\<in>| dcs_seen (merge_entries now es olds c) \<longleftrightarrow>
       u |\<in>| dcs_seen c \<or> (\<exists>e. fmlookup entries u = Some e \<and> now < dc_expiresAt e)"
  using assms by (simp add: merge_entries_def visits_def expire_fold merge_fold_lookup)

lemma merge_lookup:
  "fmlookup (dcs_relays (merge_candidates now entries c)) u =
      (case fmlookup entries u of
         None \<Rightarrow> (case fmlookup (dcs_relays c) u of Some at \<Rightarrow> if now < at then Some at else None | None \<Rightarrow> None)
       | Some e \<Rightarrow> if now < dc_expiresAt e then Some (dc_expiresAt e) else None)"
  unfolding merge_candidates_def Let_def by (rule merged_relays [OF visits_sorted visits_sorted])

lemma fmdom_iff: "u |\<in>| fmdom m \<longleftrightarrow> fmlookup m u \<noteq> None"
  by (cases "fmlookup m u") (auto dest: fmdomI)

lemma wf_candidates_iff:
  "wf_candidates c \<longleftrightarrow>
     (\<forall>u. (fmlookup (dcs_udpOnly c) u = None \<longleftrightarrow> fmlookup (dcs_relays c) u = None) \<and>
          (fmlookup (dcs_relays c) u \<noteq> None \<longrightarrow> u |\<in>| dcs_seen c))"
  unfolding wf_candidates_def fset_eq_iff fsubset_iff fmdom_iff by (auto simp del: not_None_eq)

lemma wf_newDiscoveryCandidates: "wf_candidates newDiscoveryCandidates"
  by (simp add: wf_candidates_def newDiscoveryCandidates_def)

text \<open>C32. The result of a merge, in whatever order its two loops visit the maps: a relay that the
  document mentions is a candidate exactly if its entry is fresh, with the expiry and the UDP flag of that
  entry; any other relay stays a candidate, with its expiry and flag, exactly if it is still fresh; the
  relays ever seen are the earlier ones and the fresh ones of the document.\<close>

theorem merge_exact:
  assumes "wf_candidates c" "visits es entries" "visits olds (dcs_relays (fold (merge_entry now) es c))"
  shows "fmlookup (dcs_relays (merge_entries now es olds c)) u =
      (case fmlookup entries u of
         Some e \<Rightarrow> if now < dc_expiresAt e then Some (dc_expiresAt e) else None
       | None \<Rightarrow> (case fmlookup (dcs_relays c) u of Some at \<Rightarrow> if now < at then Some at else None | None \<Rightarrow> None)) \<and>
    fmlookup (dcs_udpOnly (merge_entries now es olds c)) u =
      (case fmlookup (dcs_relays (merge_entries now es olds c)) u of
         None \<Rightarrow> None
       | Some _ \<Rightarrow> (case fmlookup entries u of Some e \<Rightarrow> Some (dc_supportsUDP e) | None \<Rightarrow> fmlookup (dcs_udpOnly c) u)) \<and>
    (known (merge_entries now es olds c) u \<longleftrightarrow> known c u \<or> (\<exists>e. fmlookup entries u = Some e \<and> now < dc_expiresAt e)) \<and>
    wf_candidates (merge_entries now es olds c)"
proof -
  note l = merged_relays [OF assms(2,3)] merged_udpOnly [OF assms(2,3)] merged_seen [OF assms(2)]
  have "wf_candidates (merge_entries now es olds c)"
    using assms(1) by (auto simp: wf_candidates_iff l split: option.splits if_splits)
  moreover have "fmlookup (dcs_relays c) u = None \<longrightarrow> fmlookup (dcs_udpOnly c) u = None"
    using assms(1) by (simp add: wf_candidates_iff)
  ultimately show ?thesis unfolding known_def l by (auto split: option.splits)
qed

text \<open>A document with a fresh and a stale entry, in either order, on a set with a stale candidate.\<close>

theorem merge_exact_witness:
  "fmlookup (dcs_relays (merge_entries 5
      [(''b'', \<lparr>dc_expiresAt = 9, dc_supportsUDP = True\<rparr>), (''a'', \<lparr>dc_expiresAt = 3, dc_supportsUDP = True\<rparr>)]
      [(''c'', 4), (''b'', 9)]
      \<lparr>dcs_relays = fmupd ''a'' 8 (fmupd ''c'' 4 fmempty), dcs_udpOnly = fmupd ''a'' True (fmupd ''c'' True fmempty),
        dcs_seen = {|''a'', ''c''|}\<rparr>)) ''b'' = Some 9"
proof -
  let ?c = "\<lparr>dcs_relays = fmupd ''a'' 8 (fmupd ''c'' 4 fmempty), dcs_udpOnly = fmupd ''a'' True (fmupd ''c'' True fmempty),
        dcs_seen = {|''a'', ''c''|}\<rparr>"
  let ?a = "\<lparr>dc_expiresAt = 3, dc_supportsUDP = True\<rparr>" and ?b = "\<lparr>dc_expiresAt = 9, dc_supportsUDP = True\<rparr>"
  let ?m = "fmupd ''a'' ?a (fmupd ''b'' ?b fmempty)"
  have w: "wf_candidates ?c" by (auto simp: wf_candidates_def)
  have v: "visits [(''b'', ?b), (''a'', ?a)] ?m" by (auto simp: visits_def fun_eq_iff)
  have o: "visits [(''c'', 4), (''b'', 9)] (dcs_relays (fold (merge_entry 5) [(''b'', ?b), (''a'', ?a)] ?c))"
    by (auto simp: visits_def fun_eq_iff candidate_defs)
  from merge_exact [OF w v o, of "''b''"] show ?thesis by simp
qed

text \<open>\<open>selectRelays\<close> returns, in ascending order and without repetition, exactly the fresh
  candidates that are not members already and, when UDP is required, advertise it.\<close>

theorem selectRelays_exact:
  "sorted (selectRelays now active requireUDP c) \<and> distinct (selectRelays now active requireUDP c) \<and>
   set (selectRelays now active requireUDP c) =
     {u. (\<exists>at. fmlookup (dcs_relays c) u = Some at \<and> now < at) \<and> u |\<notin>| active \<and>
         (requireUDP \<longrightarrow> fmlookup (dcs_udpOnly c) u = Some True)}"
proof -
  have "distinct (map fst (filter P (sorted_list_of_fmap m)))" for P and m :: "(string, instant) fmap"
    by (rule distinct_map_filter) simp
  then show ?thesis
    by (auto simp: selectRelays_def selectable_def set_sorted_list_of_fmap image_iff)
qed

theorem selectRelays_exact_witness:
  "set (selectRelays 5 {|''b''|} True \<lparr>dcs_relays = fmupd ''a'' 9 (fmupd ''b'' 9 fmempty),
      dcs_udpOnly = fmupd ''a'' True (fmupd ''b'' True fmempty), dcs_seen = {|''a'', ''b''|}\<rparr>) = {''a''}"
  using selectRelays_exact [of 5 "{|''b''|}" True "\<lparr>dcs_relays = fmupd ''a'' 9 (fmupd ''b'' 9 fmempty),
      dcs_udpOnly = fmupd ''a'' True (fmupd ''b'' True fmempty), dcs_seen = {|''a'', ''b''|}\<rparr>"]
  by (auto split: if_splits)

section \<open>Properties of fetching\<close>

definition advertises :: "'key discovery_env \<Rightarrow> instant \<Rightarrow> relayDescriptor list \<Rightarrow> string \<Rightarrow> discoveryCandidate \<Rightarrow> bool" where
  "advertises env now ds u x \<longleftrightarrow>
     (\<exists>d\<in>set ds. verifyRelayDescriptor env d now = None \<and> normalizeRelay (rd_APIHTTPSAddr d) = Inr u \<and>
        x = \<lparr>dc_expiresAt = rd_ExpiresAt d, dc_supportsUDP = rd_SupportsUDP d\<rparr>)"

lemma adopt_descriptor_lookup:
  "fmlookup (adopt_descriptor env now d m) u =
     (if verifyRelayDescriptor env d now = None \<and> normalizeRelay (rd_APIHTTPSAddr d) = Inr u
      then Some \<lparr>dc_expiresAt = rd_ExpiresAt d, dc_supportsUDP = rd_SupportsUDP d\<rparr> else fmlookup m u)"
  by (auto simp: adopt_descriptor_def split: option.splits sum.splits)

lemma adopt_fold_sound:
  "fmlookup (fold (adopt_descriptor env now) ds m) u = Some x \<Longrightarrow>
     fmlookup m u = Some x \<or> advertises env now ds u x"
proof (induction ds arbitrary: m)
  case (Cons d ds)
  then have "fmlookup (adopt_descriptor env now d m) u = Some x \<or> advertises env now ds u x" by simp
  then show ?case by (auto simp: adopt_descriptor_lookup advertises_def split: if_splits)
qed simp

lemma adopt_fold_keeps:
  "fmlookup m u \<noteq> None \<Longrightarrow> fmlookup (fold (adopt_descriptor env now) ds m) u \<noteq> None"
  by (induction ds arbitrary: m) (simp_all add: adopt_descriptor_lookup)

lemma adopt_fold_complete:
  "advertises env now ds u x \<Longrightarrow> fmlookup (fold (adopt_descriptor env now) ds m) u \<noteq> None"
proof (induction ds arbitrary: m)
  case (Cons d ds)
  show ?case
  proof (cases "advertises env now ds u x")
    case True
    with Cons.IH show ?thesis by simp
  next
    case False
    with Cons.prems have "fmlookup (adopt_descriptor env now d m) u \<noteq> None"
      by (auto simp: adopt_descriptor_lookup advertises_def)
    then show ?thesis using adopt_fold_keeps by simp
  qed
qed (simp add: advertises_def)

lemma fetch_discovery_Inr:
  assumes "fetch_discovery env c relayURL now = Inr cs"
  obtains parsed response document where "url_parse relayURL = Some parsed"
    "discovery_Do env (discovery_client_for c (url_hostname parsed)) (HttpRequest MethodGet (relayURL @ pathDiscovery) None) = Inr response"
    "decodeDiscovery env response = Inr document"
    "cs = fold (adopt_descriptor env now) (dr_Relays document) fmempty" "cs \<noteq> fmempty"
  using assms by (auto simp: fetch_discovery_def Let_def split: option.splits if_splits sum.splits)

lemma verified_fresh: "verifyRelayDescriptor env d now = None \<Longrightarrow> now < rd_ExpiresAt d"
  by (auto simp: verifyRelayDescriptor_None)

lemma decodeDiscovery_Inr:
  assumes "decodeDiscovery env response = Inr document"
  shows "200 \<le> rsp_status response" "rsp_status response < 300" "length (rsp_body response) \<le> 1048576"
    "trim_space (dr_ProtocolVersion document) = ''9''"
  using assms
  by (auto simp: decodeDiscovery_def readDiscoveryBody_def Let_def maxDiscoveryResponseBytes_def discoveryProtocolVersion_def
      split: sum.splits if_splits option.splits)

text \<open>C31. The candidates that \<open>fetch\<close> returns come from the answer of this relay: they are exactly the
  relays that the document in the answer to the request for \<open>/discovery\<close> on the given origin, made with
  the client for its host, with a success status, within the size limit and of the supported version,
  advertises with a descriptor that verifies and whose address is a valid relay origin; there is at
  least one, every key is a canonical origin and every candidate is still in force.\<close>

theorem fetch_discovery_candidates:
  assumes "fetch_discovery env c relayURL now = Inr cs"
  shows "\<exists>parsed response document. url_parse relayURL = Some parsed \<and>
    discovery_Do env (discovery_client_for c (url_hostname parsed)) (HttpRequest MethodGet (relayURL @ ''/discovery'') None) =
      Inr response \<and>
    decodeDiscovery env response = Inr document \<and> 200 \<le> rsp_status response \<and> rsp_status response < 300 \<and>
    length (rsp_body response) \<le> 1048576 \<and> trim_space (dr_ProtocolVersion document) = ''9'' \<and> cs \<noteq> fmempty \<and>
    (\<forall>u. fmlookup cs u \<noteq> None \<longleftrightarrow> (\<exists>x. advertises env now (dr_Relays document) u x)) \<and>
    (\<forall>u x. fmlookup cs u = Some x \<longrightarrow>
       advertises env now (dr_Relays document) u x \<and> normalizeRelay u = Inr u \<and> now < dc_expiresAt x)"
proof -
  from assms obtain parsed response document where r: "url_parse relayURL = Some parsed"
    "discovery_Do env (discovery_client_for c (url_hostname parsed)) (HttpRequest MethodGet (relayURL @ ''/discovery'') None) = Inr response"
    "decodeDiscovery env response = Inr document"
    and cs: "cs = fold (adopt_descriptor env now) (dr_Relays document) fmempty" "cs \<noteq> fmempty"
    by (rule fetch_discovery_Inr) (simp add: pathDiscovery_def)
  note doc = decodeDiscovery_Inr [OF r(3)]
  have s: "advertises env now (dr_Relays document) u x" if "fmlookup cs u = Some x" for u x
    using adopt_fold_sound [of env now "dr_Relays document" fmempty u x] that by (simp add: cs(1))
  have "normalizeRelay u = Inr u \<and> now < dc_expiresAt x" if "advertises env now (dr_Relays document) u x" for u x
    using that by (auto simp: advertises_def intro: relay.norm_fixed dest: verified_fresh)
  moreover have "fmlookup cs u \<noteq> None" if "advertises env now (dr_Relays document) u x" for u x
    using adopt_fold_complete [OF that, of fmempty] by (simp add: cs(1))
  ultimately show ?thesis using r doc cs(2) s by blast
qed

lemma rly_best_discovery_url:
  "url_parse ''https://rly.best/discovery'' =
     Some (empty_url\<lparr>url_scheme := ''https'', url_host := ''rly.best'', url_path := ''/discovery''\<rparr>)"
proof -
  have "plain_path ''/discovery''" by (simp add: plain_path_def path_char_def char_class_defs)
  from url_parse_origin_path [OF rly_best_origin this] show ?thesis by simp
qed

lemma sample_fetch:
  "fetch_discovery sample_discovery c ''https://rly.best'' 0 =
     Inr (fmupd ''https://rly.best'' \<lparr>dc_expiresAt = minute, dc_supportsUDP = True\<rparr> fmempty)"
proof -
  have d: "decodeDiscovery sample_discovery \<lparr>rsp_status = 200, rsp_retry_after = [], rsp_body = [], rsp_body_error = None\<rparr> =
      Inr \<lparr>dr_ProtocolVersion = ''9'', dr_GeneratedAt = 0, dr_Relays = [sample_descriptor], dr_IncompatibleRelays = []\<rparr>"
    by (simp add: decodeDiscovery_def readDiscoveryBody_def sample_discovery_def discoveryProtocolVersion_def
        trim_space_all_graphic is_graphic_def maxDiscoveryResponseBytes_def)
  have x: "discovery_Do sample_discovery cl r =
      Inr \<lparr>rsp_status = 200, rsp_retry_after = [], rsp_body = [], rsp_body_error = None\<rparr>" for cl r
    by (simp add: sample_discovery_def)
  have "fmupd u v m \<noteq> fmempty" for u :: string and v :: discoveryCandidate and m
    by (metis fmempty_lookup fmupd_lookup option.distinct(1))
  then show ?thesis
    by (simp add: fetch_discovery_def rly_best_url rly_best_discovery_url url_hostname_def pathDiscovery_def x d adopt_descriptor_def
        sample_verified normalizeRelay_rly_best)
qed

lemma sample_document:
  "decodeDiscovery sample_discovery response = Inr document \<Longrightarrow> dr_Relays document = [sample_descriptor]"
  by (auto simp: decodeDiscovery_def sample_discovery_def split: sum.splits if_splits)

theorem fetch_discovery_candidates_witness:
  "\<exists>x. advertises sample_discovery 0 [sample_descriptor] ''https://rly.best'' x"
proof -
  have "fmlookup (fmupd u v m) u \<noteq> None" for u :: string and v :: discoveryCandidate and m by simp
  then show ?thesis using fetch_discovery_candidates [OF sample_fetch] sample_document by metis
qed

text \<open>Only a relay on a loopback host is contacted without certificate verification: for any other
  host the exchange of \<open>fetch\<close> goes through the client that \<open>newDiscoveryClient\<close> made, whatever
  a client that skips verification would be answered.\<close>

theorem fetch_discovery_verifies_tls:
  assumes "url_parse relayURL = Some parsed" "\<not> isLocalRelayHostname (url_hostname parsed)"
  shows "fetch_discovery (env\<lparr>discovery_Do := \<lambda>c. if tr_TLSClientConfig (hc_Transport c) = None
        then discovery_Do env c else answer c\<rparr>) (newDiscoveryClient timeout) relayURL now =
    fetch_discovery env (newDiscoveryClient timeout) relayURL now"
proof -
  have b: "adopt_descriptor (env\<lparr>discovery_Do := f\<rparr>) = adopt_descriptor env" for f
    by (intro ext fmap_ext) (simp add: adopt_descriptor_lookup verifyRelayDescriptor_None)
  have c: "decodeDiscovery (env\<lparr>discovery_Do := f\<rparr>) = decodeDiscovery env" for f
    by (intro ext, cases env, hypsubst) (unfold decodeDiscovery_def discovery_env.simps, rule refl)
  show ?thesis
    unfolding fetch_discovery_def b c assms(1) option.case Let_def discovery_client_for_def newDiscoveryClient_def
    using assms(2) by simp
qed

theorem fetch_discovery_verifies_tls_witness:
  "fetch_discovery (sample_discovery\<lparr>discovery_Do := \<lambda>c. if tr_TLSClientConfig (hc_Transport c) = None
        then discovery_Do sample_discovery c else (\<lambda>_. Inl EOF)\<rparr>) (newDiscoveryClient second) ''https://rly.best'' 0 =
    fetch_discovery sample_discovery (newDiscoveryClient second) ''https://rly.best'' 0"
proof -
  have "\<not> isLocalRelayHostname ''rly.best''"
    by (simp add: isLocalRelayHostname_def trim_suffix_def suffix_def equal_fold_ascii char_class_defs lower_char_def
        parse_ip_loopback_def parse_addr_def parse_ipv4_fields_def)
  then show ?thesis
    by (intro fetch_discovery_verifies_tls [OF rly_best_url(1), where answer = "\<lambda>_ _. Inl EOF"])
      (simp add: url_hostname_def rly_best_url(2))
qed

end
