(* ===== verification/Exposure.thy ===== *)
theory Exposure
  imports Supervisor Discovery "HOL-Library.Multiset"
begin

text \<open>
  The exposure (\<open>src/exposure.go\<close>): a listener that fans in the connections and datagrams of all
  relays, keeps their status, adopts discovered relays and shuts everything down.

  The state is the record \<open>Exposure\<close>. An operation that takes the mutex is one atomic region followed
  by the actions it performs after unlocking: its definition with the suffix \<open>_locked\<close> returns the
  new state and those actions, and the operation itself runs them at once. The step relation of the
  theory \<open>ExposureSteps\<close> interleaves regions and actions of all goroutines. A channel is its buffered
  contents with its capacity; a channel that is only ever closed is a flag, and the channel
  \<open>stateChanged\<close>, which is closed and replaced at every change, is the number of its replacements. A
  \<open>select\<close> returns the list of the outcomes of its ready cases, of which Go takes any; an empty
  list means that it blocks.

  Fields from \<open>ex_started\<close> on are a history that the code does not keep.
\<close>

section \<open>State\<close>

datatype RelayState = RelayConnecting | RelayReady | RelayUDPReady | RelayFailed

fun RelayState_text :: "RelayState \<Rightarrow> string" where
  "RelayState_text RelayConnecting = ''connecting''"
| "RelayState_text RelayReady = ''ready''"
| "RelayState_text RelayUDPReady = ''udp_ready''"
| "RelayState_text RelayFailed = ''failed''"

record RelayStatus =
  rs_RelayURL :: string
  rs_PublicURL :: string
  rs_UDPAddr :: string
  rs_State :: RelayState
  rs_Err :: "go_error option"

record 'k ExposeConfig =
  ec_Relays :: "string list"
  ec_Identity :: "'k Identity"
  ec_UDPEnabled :: bool
  ec_DisableDiscovery :: bool
  ec_MaxActiveRelays :: int

record ('k, 'p) Exposure =
  ex_ctxDone :: bool
  ex_addr :: string
  ex_accepted :: "nat list"
  ex_acceptCapacity :: nat
  ex_updates :: "RelayStatus list"
  ex_updatesCapacity :: nat
  ex_updatesClosed :: bool
  ex_datagrams :: "DatagramFrame list"
  ex_datagramCapacity :: nat
  ex_statuses :: "(string, RelayStatus) fmap"
  ex_relayCount :: int
  ex_failedCount :: int
  ex_udpEnabled :: bool
  ex_closing :: bool
  ex_allFailed :: bool
  ex_stateChanged :: nat
  ex_failedOnce :: bool
  ex_rejected :: "string fset"
  ex_cleanupErrs :: "go_error list"
  ex_supervisors :: "(string, ('k, 'p) relaySupervisor) fmap"
  ex_identity :: "'k Identity"
  ex_timings :: relayTimings
  ex_discoveryEnabled :: bool
  ex_maxDiscovered :: int
  ex_discoveredCount :: int
  ex_candidates :: discoveryCandidates
  ex_discoveryClient :: "discovery_http option"
  ex_discoveryPoll :: duration
  ex_discoveryKick :: bool
  ex_closeDone :: bool
  ex_closeErr :: "go_error option"
  ex_started :: "string list"
  ex_offered :: "nat list"
  ex_delivered :: "nat list"
  ex_discarded :: "nat list"
  ex_sent :: "RelayStatus list"
  ex_panicked :: bool

definition exposureAddr_Network :: string where "exposureAddr_Network = ''portalite''"
definition exposureAddr_String :: "string \<Rightarrow> string" where "exposureAddr_String a = ''portalite:'' @ a"

section \<open>Signals and actions\<close>

definition exposure_closed :: "('k, 'p) Exposure \<Rightarrow> bool" where
  "exposure_closed e \<longleftrightarrow> ex_closing e \<or> ex_ctxDone e"

text \<open>\<open>exhausted\<close>; \<open>exhaustedSignal\<close> returns the closed channel exactly then and nil otherwise.\<close>

definition exhausted :: "('k, 'p) Exposure \<Rightarrow> bool" where
  "exhausted e \<longleftrightarrow> ex_failedCount e \<ge> ex_relayCount e \<and> ex_relayCount e > 0 \<and> ex_allFailed e"

definition terminalState :: "('k, 'p) Exposure \<Rightarrow> bool \<times> bool" where
  "terminalState e = (exposure_closed e, exhausted e)"

definition notifyStateChangedLocked :: "('k, 'p) Exposure \<Rightarrow> ('k, 'p) Exposure" where
  "notifyStateChangedLocked e = e\<lparr>ex_stateChanged := ex_stateChanged e + 1\<rparr>"

definition rearmAllFailedLocked :: "('k, 'p) Exposure \<Rightarrow> ('k, 'p) Exposure" where
  "rearmAllFailedLocked e = (if ex_allFailed e then e\<lparr>ex_allFailed := False, ex_failedOnce := False\<rparr> else e)"

text \<open>\<open>publishUpdate\<close> is three \<open>select\<close> statements without a lock: a send that gives up when the buffer is
  full, then a receive that drops the oldest notification, then a second send that gives up. A send on a
  closed channel panics. \<open>publishUpdate\<close> itself is the three without interference; goroutines may
  interleave them.\<close>

definition send_update :: "RelayStatus \<Rightarrow> ('k, 'p) Exposure \<Rightarrow> ('k, 'p) Exposure" where
  "send_update status e =
     (if ex_updatesClosed e then e\<lparr>ex_panicked := True\<rparr>
      else if length (ex_updates e) < ex_updatesCapacity e
      then e\<lparr>ex_updates := ex_updates e @ [status], ex_sent := ex_sent e @ [status]\<rparr>
      else e)"

definition drop_update :: "('k, 'p) Exposure \<Rightarrow> ('k, 'p) Exposure" where
  "drop_update e = e\<lparr>ex_updates := drop 1 (ex_updates e)\<rparr>"

definition publishUpdate :: "RelayStatus \<Rightarrow> ('k, 'p) Exposure \<Rightarrow> ('k, 'p) Exposure" where
  "publishUpdate status e =
     (if ex_updatesClosed e \<or> length (ex_updates e) < ex_updatesCapacity e then send_update status e
      else send_update status (drop_update e))"

lemmas publish_defs = publishUpdate_def send_update_def drop_update_def

definition drainAccepted :: "('k, 'p) Exposure \<Rightarrow> ('k, 'p) Exposure" where
  "drainAccepted e = e\<lparr>ex_accepted := [], ex_discarded := ex_discarded e @ ex_accepted e\<rparr>"

text \<open>The call \<open>failedOnce.Do(func() { close(e.allFailed) })\<close>.\<close>

definition closeAllFailed :: "('k, 'p) Exposure \<Rightarrow> ('k, 'p) Exposure" where
  "closeAllFailed e =
     (if ex_failedOnce e then e
      else if ex_allFailed e then e\<lparr>ex_panicked := True\<rparr>
      else e\<lparr>ex_failedOnce := True, ex_allFailed := True\<rparr>)"

text \<open>What a goroutine does after it has released the mutex.\<close>

datatype action = Publish RelayStatus | PublishDrop RelayStatus | PublishAgain RelayStatus
  | KickDiscovery | CloseAllFailed | NotifyState | DrainAccepted

text \<open>An action without interference. \<open>PublishDrop\<close> and \<open>PublishAgain\<close> are what is left of a publication
  after its first and after its second \<open>select\<close>.\<close>

fun perform :: "action \<Rightarrow> ('k, 'p) Exposure \<Rightarrow> ('k, 'p) Exposure" where
  "perform (Publish status) e = publishUpdate status e"
| "perform (PublishDrop status) e = send_update status (drop_update e)"
| "perform (PublishAgain status) e = send_update status e"
| "perform KickDiscovery e = e\<lparr>ex_discoveryKick := True\<rparr>"
| "perform CloseAllFailed e = closeAllFailed e"
| "perform NotifyState e = notifyStateChangedLocked e"
| "perform DrainAccepted e = drainAccepted e"

text \<open>The next atomic part of an action, and what it leaves to do.\<close>

fun act_once :: "action \<Rightarrow> ('k, 'p) Exposure \<Rightarrow> ('k, 'p) Exposure \<times> action list" where
  "act_once (Publish status) e =
     (send_update status e,
      if ex_updatesClosed e \<or> length (ex_updates e) < ex_updatesCapacity e then [] else [PublishDrop status])"
| "act_once (PublishDrop status) e = (drop_update e, [PublishAgain status])"
| "act_once (PublishAgain status) e = (send_update status e, [])"
| "act_once a e = (perform a e, [])"

definition perform_all :: "action list \<Rightarrow> ('k, 'p) Exposure \<Rightarrow> ('k, 'p) Exposure" where
  "perform_all as e = fold perform as e"

definition exhaust_actions :: "action list" where
  "exhaust_actions = [CloseAllFailed, NotifyState, DrainAccepted]"

definition markExhausted :: "('k, 'p) Exposure \<Rightarrow> ('k, 'p) Exposure" where
  "markExhausted e = perform_all exhaust_actions e"

section \<open>Membership\<close>

definition activeRelaysLocked :: "('k, 'p) Exposure \<Rightarrow> string fset" where
  "activeRelaysLocked e = fmdom (ex_statuses e) |\<union>| ex_rejected e"

definition connecting :: "string \<Rightarrow> RelayStatus" where
  "connecting relayURL = \<lparr>rs_RelayURL = relayURL, rs_PublicURL = [], rs_UDPAddr = [], rs_State = RelayConnecting, rs_Err = None\<rparr>"

definition addRelay_locked :: "string \<Rightarrow> ('k, 'p) relaySupervisor \<Rightarrow> bool \<Rightarrow> ('k, 'p) Exposure \<Rightarrow>
    ('k, 'p) Exposure \<times> action list option" where
  "addRelay_locked relayURL supervisor explicit e =
     (if ex_closing e \<or> ex_ctxDone e then (e, None)
      else if relayURL |\<in>| fmdom (ex_statuses e) then (e, None)
      else if relayURL |\<in>| ex_rejected e then (e, None)
      else if \<not> explicit \<and> ex_discoveredCount e \<ge> ex_maxDiscovered e then (e, None)
      else
        (let status = connecting relayURL;
             e = e\<lparr>ex_statuses := fmupd relayURL status (ex_statuses e),
                   ex_supervisors := fmupd relayURL supervisor (ex_supervisors e),
                   ex_relayCount := ex_relayCount e + 1,
                   ex_discoveredCount := (if \<not> explicit then ex_discoveredCount e + 1 else ex_discoveredCount e)\<rparr>;
             e = notifyStateChangedLocked (rearmAllFailedLocked e)
         in (e\<lparr>ex_started := ex_started e @ [relayURL]\<rparr>, Some [Publish status])))"

text \<open>\<open>addRelay\<close>. The supervisor that it starts runs concurrently: \<open>ex_started\<close> records the start.\<close>

definition addRelay :: "string \<Rightarrow> bool \<Rightarrow> ('k, 'p) Exposure \<Rightarrow> ('k, 'p) Exposure \<times> go_error option" where
  "addRelay relayURL explicit e =
     (case newRelaySupervisor relayURL (ex_identity e) (ex_timings e) of
        Inl err \<Rightarrow> (e, Some (Wrapped (''portalite: relay '' @ relayURL) err))
      | Inr supervisor \<Rightarrow>
          (case addRelay_locked relayURL (supervisor\<lparr>udpEnabled := ex_udpEnabled e\<rparr>) explicit e of
             (e', None) \<Rightarrow> (e', None)
           | (e', Some as) \<Rightarrow> (perform_all as e', None)))"

fun addRelays :: "string list \<Rightarrow> ('k, 'p) Exposure \<Rightarrow> ('k, 'p) Exposure \<times> go_error option" where
  "addRelays [] e = (e, None)"
| "addRelays (relayURL # rest) e =
     (case addRelay relayURL True e of
        (e', Some err) \<Rightarrow> (e', Some err)
      | (e', None) \<Rightarrow> addRelays rest e')"

section \<open>Relay status\<close>

text \<open>The guard that all three status reports share.\<close>

definition reportable :: "string \<Rightarrow> ('k, 'p) Exposure \<Rightarrow> RelayStatus option" where
  "reportable relayURL e =
     (case fmlookup (ex_statuses e) relayURL of
        None \<Rightarrow> None
      | Some status \<Rightarrow>
          if ex_closing e \<or> ex_ctxDone e \<or> rs_State status = RelayFailed then None else Some status)"

definition set_status :: "string \<Rightarrow> RelayStatus \<Rightarrow> ('k, 'p) Exposure \<Rightarrow> ('k, 'p) Exposure" where
  "set_status relayURL status e =
     notifyStateChangedLocked (e\<lparr>ex_statuses := fmupd relayURL status (ex_statuses e)\<rparr>)"

definition markReady_locked :: "string \<Rightarrow> string \<Rightarrow> ('k, 'p) Exposure \<Rightarrow> ('k, 'p) Exposure \<times> action list" where
  "markReady_locked relayURL url e =
     (case reportable relayURL e of
        None \<Rightarrow> (e, [])
      | Some status \<Rightarrow>
          (let status = status\<lparr>rs_PublicURL := url, rs_Err := None\<rparr> in
           if rs_State status = RelayReady then (set_status relayURL status e, [])
           else let status = status\<lparr>rs_State := RelayReady\<rparr> in (set_status relayURL status e, [Publish status])))"

definition markReady :: "string \<Rightarrow> string \<Rightarrow> ('k, 'p) Exposure \<Rightarrow> ('k, 'p) Exposure" where
  "markReady relayURL url e = (case markReady_locked relayURL url e of (e', as) \<Rightarrow> perform_all as e')"

definition markFailed_locked :: "string \<Rightarrow> go_error \<Rightarrow> ('k, 'p) Exposure \<Rightarrow> ('k, 'p) Exposure \<times> action list" where
  "markFailed_locked relayURL relayErr e =
     (case reportable relayURL e of
        None \<Rightarrow> (e, [])
      | Some status \<Rightarrow>
          (let status = status\<lparr>rs_State := RelayFailed, rs_Err := Some relayErr\<rparr>;
               e = set_status relayURL status
                 (e\<lparr>ex_failedCount := ex_failedCount e + 1, ex_rejected := finsert relayURL (ex_rejected e)\<rparr>)
           in (e, Publish status #
                (if \<not> ex_failedCount e \<ge> ex_relayCount e then []
                 else if ex_discoveryEnabled e then [KickDiscovery]
                 else exhaust_actions))))"

definition markFailed :: "string \<Rightarrow> go_error \<Rightarrow> ('k, 'p) Exposure \<Rightarrow> ('k, 'p) Exposure" where
  "markFailed relayURL relayErr e = (case markFailed_locked relayURL relayErr e of (e', as) \<Rightarrow> perform_all as e')"

definition markDatagramReady_locked :: "string \<Rightarrow> string \<Rightarrow> ('k, 'p) Exposure \<Rightarrow> ('k, 'p) Exposure \<times> action list" where
  "markDatagramReady_locked relayURL addr e =
     (case reportable relayURL e of
        None \<Rightarrow> (e, [])
      | Some status \<Rightarrow>
          (let announce = (addr \<noteq> [] \<and> rs_UDPAddr status \<noteq> addr);
               status = status\<lparr>rs_UDPAddr := addr\<rparr>
           in (set_status relayURL status e,
               if announce then [Publish (status\<lparr>rs_State := RelayUDPReady\<rparr>)] else [])))"

definition markDatagramReady :: "string \<Rightarrow> string \<Rightarrow> ('k, 'p) Exposure \<Rightarrow> ('k, 'p) Exposure" where
  "markDatagramReady relayURL addr e =
     (case markDatagramReady_locked relayURL addr e of (e', as) \<Rightarrow> perform_all as e')"

text \<open>The end of \<open>runSupervisor\<close>, when \<open>supervisor.run\<close> has returned \<open>(runErr, cleanupErr)\<close>.\<close>

definition record_cleanup :: "string \<Rightarrow> go_error option \<Rightarrow> ('k, 'p) Exposure \<Rightarrow> ('k, 'p) Exposure" where
  "record_cleanup relayURL cleanupErr e =
     (case cleanupErr of
        None \<Rightarrow> e
      | Some err \<Rightarrow> e\<lparr>ex_cleanupErrs := ex_cleanupErrs e @ [Wrapped (''relay '' @ relayURL @ '' cleanup'') err]\<rparr>)"

definition runSupervisor_end :: "string \<Rightarrow> go_error option \<Rightarrow> go_error option \<Rightarrow> ('k, 'p) Exposure \<Rightarrow> ('k, 'p) Exposure" where
  "runSupervisor_end relayURL runErr cleanupErr e =
     (let e = record_cleanup relayURL cleanupErr e in
      case runErr of
        Some err \<Rightarrow> if \<not> ex_ctxDone e then markFailed relayURL err e else e
      | None \<Rightarrow> e)"

section \<open>Fan-in\<close>

definition offer :: "bool \<Rightarrow> nat option \<Rightarrow> ('k, 'p) Exposure \<Rightarrow> (('k, 'p) Exposure \<times> bool) list" where
  "offer relayDone conn e =
     (case conn of
        None \<Rightarrow> [(e, False)]
      | Some c \<Rightarrow>
          (if relayDone then [(e, False)] else []) @
          (if ex_ctxDone e then [(e, False)] else []) @
          (if length (ex_accepted e) < ex_acceptCapacity e
           then [(e\<lparr>ex_accepted := ex_accepted e @ [c], ex_offered := ex_offered e @ [c]\<rparr>, True)] else []))"

definition offerDatagram :: "bool \<Rightarrow> DatagramFrame \<Rightarrow> ('k, 'p) Exposure \<Rightarrow> (('k, 'p) Exposure \<times> bool) list" where
  "offerDatagram relayDone frame e =
     (let cases =
        (if relayDone then [(e, False)] else []) @
        (if ex_ctxDone e then [(e, False)] else []) @
        (if length (ex_datagrams e) < ex_datagramCapacity e
         then [(e\<lparr>ex_datagrams := ex_datagrams e @ [frame]\<rparr>, True)] else [])
      in if cases = [] then [(e, False)] else cases)"

text \<open>One round of \<open>Accept\<close> (and of \<open>AcceptDatagram\<close>) on an exposure that is not nil: the check
  before the \<open>select\<close>; the two channels that the \<open>select\<close> waits on, each read in a critical section of
  its own, as the arguments \<open>changed\<close> (the value of \<open>ex_stateChanged\<close> at that time) and \<open>signal\<close> (whether
  the exposure was exhausted at that time); and the \<open>select\<close> in a possibly later state, together with
  what the chosen case does. \<open>Inr None\<close> is the \<open>continue\<close> of the loop.\<close>

definition accept_check :: "('k, 'p) Exposure \<Rightarrow> go_error option" where
  "accept_check e =
     (case terminalState e of (closed, failed) \<Rightarrow>
        if closed then Some NetErrClosed else if failed then Some ErrNoRelays else None)"

definition accept_signals :: "nat \<Rightarrow> bool \<Rightarrow> ('k, 'p) Exposure \<Rightarrow> (go_error + 'r option) list" where
  "accept_signals changed signal e =
     (if ex_ctxDone e then [Inl NetErrClosed] else []) @
     (if ex_stateChanged e \<noteq> changed then [Inr None] else []) @
     (if signal then [Inl (if exposure_closed e then NetErrClosed else ErrNoRelays)] else [])"

definition accept_select :: "nat \<Rightarrow> bool \<Rightarrow> ('k, 'p) Exposure \<Rightarrow>
    (('k, 'p) Exposure \<times> (go_error + nat option)) list" where
  "accept_select changed signal e =
     map (\<lambda>r. (e, r)) (accept_signals changed signal e) @
     (case ex_accepted e of
        [] \<Rightarrow> []
      | conn # rest \<Rightarrow>
          (let e = e\<lparr>ex_accepted := rest\<rparr> in
           case accept_check e of
             Some err \<Rightarrow> [(e\<lparr>ex_discarded := ex_discarded e @ [conn]\<rparr>, Inl err)]
           | None \<Rightarrow> [(e\<lparr>ex_delivered := ex_delivered e @ [conn]\<rparr>, Inr (Some conn))]))"

definition accept_datagram_check :: "('k, 'p) Exposure \<Rightarrow> go_error option" where
  "accept_datagram_check e = (if \<not> ex_udpEnabled e then Some NetErrClosed else accept_check e)"

definition accept_datagram_select :: "nat \<Rightarrow> bool \<Rightarrow> ('k, 'p) Exposure \<Rightarrow>
    (('k, 'p) Exposure \<times> (go_error + DatagramFrame option)) list" where
  "accept_datagram_select changed signal e =
     map (\<lambda>r. (e, r)) (accept_signals changed signal e) @
     (case ex_datagrams e of
        [] \<Rightarrow> []
      | frame # rest \<Rightarrow> [(e\<lparr>ex_datagrams := rest\<rparr>, Inr (Some frame))])"

text \<open>\<open>SendDatagram\<close>; the outcome of the QUIC library is an argument, and \<open>None\<close> would be a panic of
  the encoder.\<close>

definition SendDatagram :: "go_error option \<Rightarrow> DatagramFrame \<Rightarrow> ('k, 'p) Exposure \<Rightarrow>
    (('k, 'p) Exposure \<times> go_error option) option" where
  "SendDatagram outcome frame e =
     (if \<not> ex_udpEnabled e then Some (e, Some NetErrClosed)
      else if exposure_closed e then Some (e, Some NetErrClosed)
      else if exhausted e then Some (e, Some ErrNoRelays)
      else (case fmlookup (ex_supervisors e) (RelayURL frame) of
          None \<Rightarrow> Some (e, Some (ErrorText ''portalite: datagram frame references an unknown relay''))
        | Some supervisor \<Rightarrow>
            map_option (\<lambda>(s', err). (e\<lparr>ex_supervisors := fmupd (RelayURL frame) s' (ex_supervisors e)\<rparr>, err))
              (sendDatagram outcome frame supervisor)))"

section \<open>Waiting and snapshots\<close>

definition statuses_where :: "(RelayStatus \<Rightarrow> bool) \<Rightarrow> ('k, 'p) Exposure \<Rightarrow> RelayStatus list" where
  "statuses_where P e = sort_key rs_RelayURL (filter P (map snd (sorted_list_of_fmap (ex_statuses e))))"

datatype 'r waiting = WaitReturns 'r | WaitFails go_error | WaitOn nat

text \<open>One round of \<open>WaitReady\<close> and \<open>WaitDatagramReady\<close> up to the \<open>select\<close>, and the \<open>select\<close>;
  \<open>Some err\<close> returns it, \<open>None\<close> goes round again. The caller's context is nil or has an error or none.\<close>

definition wait_round :: "(RelayStatus \<Rightarrow> bool) \<Rightarrow> ('k, 'p) Exposure \<Rightarrow> RelayStatus list waiting" where
  "wait_round P e =
     (let ready = statuses_where P e in
      if length ready \<noteq> 0 then WaitReturns ready
      else if exposure_closed e then WaitFails NetErrClosed
      else if exhausted e then WaitFails ErrNoRelays
      else WaitOn (ex_stateChanged e))"

definition wait_select :: "go_error option \<Rightarrow> nat \<Rightarrow> ('k, 'p) Exposure \<Rightarrow> go_error option list" where
  "wait_select ctxErr changed e =
     (case ctxErr of Some err \<Rightarrow> [Some err] | None \<Rightarrow> []) @
     (if ex_ctxDone e then [Some NetErrClosed] else []) @
     (if ex_stateChanged e \<noteq> changed then [None] else [])"

definition WaitReady_round :: "bool \<Rightarrow> ('k, 'p) Exposure \<Rightarrow> RelayStatus list waiting" where
  "WaitReady_round ctx_nil e =
     (if ctx_nil then WaitFails (ErrorText ''portalite: context is nil'')
      else wait_round (\<lambda>status. rs_State status = RelayReady) e)"

definition WaitDatagramReady_round :: "bool \<Rightarrow> ('k, 'p) Exposure \<Rightarrow> RelayStatus list waiting" where
  "WaitDatagramReady_round ctx_nil e =
     (if ctx_nil then WaitFails (ErrorText ''portalite: context is nil'')
      else if \<not> ex_udpEnabled e then WaitFails (ErrorText ''portalite: UDP is not enabled'')
      else wait_round (\<lambda>status. rs_UDPAddr status \<noteq> [] \<and> rs_State status \<noteq> RelayFailed) e)"

definition Relays :: "('k, 'p) Exposure \<Rightarrow> RelayStatus list" where
  "Relays e = statuses_where (\<lambda>_. True) e"

definition Addr :: "('k, 'p) Exposure \<Rightarrow> string" where
  "Addr e = exposureAddr_String (ex_addr e)"

section \<open>Discovery\<close>

text \<open>The loop over the seeds: \<open>Inl\<close> returns from \<open>refreshDiscovery\<close>. The call on a nil client panics.\<close>

fun merge_seeds :: "'d discovery_env \<Rightarrow> instant \<Rightarrow> string list \<Rightarrow> ('k, 'p) Exposure \<Rightarrow>
    ('k, 'p) Exposure + ('k, 'p) Exposure" where
  "merge_seeds env now [] e = Inr e"
| "merge_seeds env now (seed # seeds) e =
     (if ex_ctxDone e then Inl e
      else (case ex_discoveryClient e of
          None \<Rightarrow> Inl (e\<lparr>ex_panicked := True\<rparr>)
        | Some c \<Rightarrow>
            (case fetch_discovery env c seed now of
               Inl _ \<Rightarrow> merge_seeds env now seeds e
             | Inr candidates \<Rightarrow>
                 merge_seeds env now seeds
                   (e\<lparr>ex_candidates := merge_candidates now candidates (ex_candidates e)\<rparr>))))"

fun adopt_relays :: "string list \<Rightarrow> ('k, 'p) Exposure \<Rightarrow> ('k, 'p) Exposure" where
  "adopt_relays [] e = e"
| "adopt_relays (relayURL # rest) e =
     (if ex_ctxDone e then e else adopt_relays rest (fst (addRelay relayURL False e)))"

definition adoptDiscoveredRelays :: "instant \<Rightarrow> bool \<Rightarrow> ('k, 'p) Exposure \<Rightarrow> ('k, 'p) Exposure" where
  "adoptDiscoveredRelays now requireUDP e =
     adopt_relays (selectRelays now (activeRelaysLocked e) requireUDP (ex_candidates e)) e"

definition all_failed :: "('k, 'p) Exposure \<Rightarrow> bool" where
  "all_failed e \<longleftrightarrow> ex_relayCount e > 0 \<and> ex_failedCount e \<ge> ex_relayCount e \<and> \<not> ex_closing e \<and> \<not> ex_ctxDone e"

text \<open>\<open>refreshDiscovery\<close>, run without interference.\<close>

definition refreshDiscovery :: "'d discovery_env \<Rightarrow> instant \<Rightarrow> ('k, 'p) Exposure \<Rightarrow> ('k, 'p) Exposure" where
  "refreshDiscovery env now e =
     (if ex_ctxDone e then e
      else
        (let seeds = discoverySeeds (activeRelaysLocked e); requireUDP = ex_udpEnabled e in
         case merge_seeds env now seeds e of
           Inl e \<Rightarrow> e
         | Inr e \<Rightarrow>
             (let e = adoptDiscoveredRelays now requireUDP e in
              if all_failed e then markExhausted e else e)))"

text \<open>One turn of the loop of \<open>runDiscovery\<close>: \<open>None\<close> returns; \<open>kicked\<close> tells which of the two wake-ups
  Go took.\<close>

definition runDiscovery_round :: "'d discovery_env \<Rightarrow> instant \<Rightarrow> bool \<Rightarrow> ('k, 'p) Exposure \<Rightarrow> ('k, 'p) Exposure option" where
  "runDiscovery_round env now kicked e =
     (if ex_ctxDone e then None
      else Some (refreshDiscovery env now (if kicked then e\<lparr>ex_discoveryKick := False\<rparr> else e)))"

section \<open>Construction and shutdown\<close>

definition int64 :: "int \<Rightarrow> int" where
  "int64 n = sint (word_of_int n :: 64 word)"

text \<open>\<open>make(chan T, n)\<close> panics on a negative size, and when the buffer would need more memory than a
  64-bit runtime can allocate (\<open>maxAlloc\<close>, less the channel's header). A \<open>net.Conn\<close> takes 16 bytes, a
  \<open>RelayStatus\<close> 80 and a \<open>DatagramFrame\<close> 64.\<close>

definition maxAlloc :: int where "maxAlloc = 2 ^ 48"
definition hchanSize :: int where "hchanSize = 96"

definition makechan :: "int \<Rightarrow> int \<Rightarrow> nat option" where
  "makechan elem n = (if n < 0 \<or> elem * n > maxAlloc - hchanSize then None else Some (nat n))"

definition at_least_one :: "int \<Rightarrow> int" where
  "at_least_one n = (if n < 1 then 1 else n)"

definition max_discovered :: "int \<Rightarrow> int" where
  "max_discovered n = (if n \<le> 0 then defaultMaxActiveRelays else n)"

text \<open>The literal of \<open>exposeWithTimings\<close>, before any relay is added; \<open>None\<close> is a panic.\<close>

definition new_exposure :: "'k ExposeConfig \<Rightarrow> relayTimings \<Rightarrow> nat \<Rightarrow> ('k, 'p) Exposure option" where
  "new_exposure cfg tm n =
     (let maxDiscovered = max_discovered (ec_MaxActiveRelays cfg);
          discoveryEnabled = \<not> ec_DisableDiscovery cfg;
          capacity = int64 (int n + maxDiscovered);
          acceptCapacity = at_least_one (int64 (2 * capacity));
          datagramCapacity = at_least_one (int64 (int datagramQueuePerRelay * capacity))
      in case (makechan 16 acceptCapacity, makechan 80 (int64 (4 * capacity)), makechan 64 datagramCapacity) of
           (Some ac, Some uc, Some dc) \<Rightarrow>
             Some \<lparr>ex_ctxDone = False, ex_addr = id_address (ec_Identity cfg), ex_accepted = [], ex_acceptCapacity = ac,
               ex_updates = [], ex_updatesCapacity = uc, ex_updatesClosed = False, ex_datagrams = [],
               ex_datagramCapacity = dc, ex_statuses = fmempty, ex_relayCount = 0, ex_failedCount = 0,
               ex_udpEnabled = ec_UDPEnabled cfg, ex_closing = False, ex_allFailed = False, ex_stateChanged = 0,
               ex_failedOnce = False, ex_rejected = {||}, ex_cleanupErrs = [], ex_supervisors = fmempty,
               ex_identity = ec_Identity cfg, ex_timings = tm, ex_discoveryEnabled = discoveryEnabled,
               ex_maxDiscovered = maxDiscovered, ex_discoveredCount = 0, ex_candidates = newDiscoveryCandidates,
               ex_discoveryClient = (if discoveryEnabled then Some (newDiscoveryClient (requestTimeout tm)) else None),
               ex_discoveryPoll = discoveryPoll tm, ex_discoveryKick = False, ex_closeDone = False, ex_closeErr = None,
               ex_started = [], ex_offered = [], ex_delivered = [], ex_discarded = [], ex_sent = [], ex_panicked = False\<rparr>
         | _ \<Rightarrow> None)"

text \<open>\<open>exposeWithTimings\<close>: the context is nil (\<open>None\<close>) or given with its error. The outer option is a
  panic. The goroutines that it starts are the steps of \<open>ExposureSteps\<close>.\<close>

definition exposeWithTimings :: "go_error option option \<Rightarrow> 'k ExposeConfig \<Rightarrow> relayTimings \<Rightarrow>
    (go_error + ('k, 'p) Exposure) option" where
  "exposeWithTimings ctx cfg tm =
     (case ctx of
        None \<Rightarrow> Some (Inl (ErrorText ''portalite: context is nil''))
      | Some (Some err) \<Rightarrow> Some (Inl err)
      | Some None \<Rightarrow>
          if id_name (ec_Identity cfg) = [] \<or> id_address (ec_Identity cfg) = [] \<or> id_publicKey (ec_Identity cfg) = []
          then Some (Inl (ErrorText ''portalite: invalid identity''))
          else
            (let tm = withDefaults tm in
             case NormalizeRelays (ec_Relays cfg) of
               Inl err \<Rightarrow> Some (Inl (NormError err))
             | Inr relays \<Rightarrow>
                 if length relays = 0 then Some (Inl (ErrorText ''portalite: at least one relay is required''))
                 else
                   (case new_exposure cfg tm (length relays) of
                      None \<Rightarrow> None
                    | Some e \<Rightarrow>
                        (case addRelays relays e of
                           (_, Some err) \<Rightarrow> Some (Inl err)
                         | (e', None) \<Rightarrow> Some (Inr e')))))"

definition Expose :: "go_error option option \<Rightarrow> 'k ExposeConfig \<Rightarrow> (go_error + ('k, 'p) Exposure) option" where
  "Expose ctx cfg = exposeWithTimings ctx cfg defaultRelayTimings"

text \<open>\<open>errors.Join\<close>: nil without errors.\<close>

definition errors_Join :: "go_error list \<Rightarrow> go_error option" where
  "errors_Join es = (if es = [] then None else Some (Joined es))"

text \<open>The parts of the function that \<open>closeOnce\<close> runs: before and after the two waits.\<close>

definition Close_begin :: "('k, 'p) Exposure \<Rightarrow> ('k, 'p) Exposure" where
  "Close_begin e = e\<lparr>ex_closing := True\<rparr>"

definition Close_finish :: "('k, 'p) Exposure \<Rightarrow> ('k, 'p) Exposure" where
  "Close_finish e =
     (let e = drainAccepted e
      in e\<lparr>ex_closeErr := errors_Join (ex_cleanupErrs e), ex_updatesClosed := True, ex_closeDone := True\<rparr>)"

section \<open>Invariants of the state\<close>

text \<open>Membership: the counters count, the rejected relays are the failed ones, every member has a
  supervisor that was started once, and discovery stays within its cap.\<close>

definition wf_status :: "string \<Rightarrow> RelayStatus \<Rightarrow> bool" where
  "wf_status u st \<longleftrightarrow> rs_RelayURL st = u \<and> rs_State st \<noteq> RelayUDPReady \<and>
     (rs_Err st \<noteq> None \<longleftrightarrow> rs_State st = RelayFailed)"

definition wf_members :: "('k, 'p) Exposure \<Rightarrow> bool" where
  "wf_members e \<longleftrightarrow>
     ex_relayCount e = int (fcard (fmdom (ex_statuses e))) \<and>
     ex_failedCount e = int (fcard (ex_rejected e)) \<and>
     fmdom (ex_supervisors e) = fmdom (ex_statuses e) \<and>
     (\<forall>u. u |\<in>| ex_rejected e \<longleftrightarrow> (\<exists>st. fmlookup (ex_statuses e) u = Some st \<and> rs_State st = RelayFailed)) \<and>
     (\<forall>u st. fmlookup (ex_statuses e) u = Some st \<longrightarrow> wf_status u st) \<and>
     0 \<le> ex_discoveredCount e \<and> ex_discoveredCount e \<le> ex_maxDiscovered e \<and>
     distinct (ex_started e) \<and> set (ex_started e) = fset (fmdom (ex_statuses e))"

text \<open>Queues, signals and connections: no queue exceeds its buffer, the all-failed channel is closed
  exactly when its \<open>sync.Once\<close> has run, every connection that was taken over is queued, delivered or
  closed, once, and the updates channel holds the end of what was sent on it, in order.\<close>

definition wf_channels :: "('k, 'p) Exposure \<Rightarrow> bool" where
  "wf_channels e \<longleftrightarrow>
     length (ex_accepted e) \<le> ex_acceptCapacity e \<and>
     length (ex_updates e) \<le> ex_updatesCapacity e \<and>
     length (ex_datagrams e) \<le> ex_datagramCapacity e \<and>
     (ex_allFailed e \<longleftrightarrow> ex_failedOnce e) \<and>
     mset (ex_offered e) = mset (ex_accepted e) + mset (ex_delivered e) + mset (ex_discarded e) \<and>
     suffix (ex_updates e) (ex_sent e)"

text \<open>Two states that agree on what \<open>wf_members\<close> reads.\<close>

definition members_of :: "('k, 'p) Exposure \<Rightarrow> _" where
  "members_of e = (ex_relayCount e, ex_failedCount e, ex_supervisors e, ex_statuses e, ex_rejected e,
     ex_discoveredCount e, ex_maxDiscovered e, ex_started e)"

definition channels_of :: "('k, 'p) Exposure \<Rightarrow> _" where
  "channels_of e = (ex_accepted e, ex_acceptCapacity e, ex_updates e, ex_updatesCapacity e, ex_datagrams e,
     ex_datagramCapacity e, ex_allFailed e, ex_failedOnce e, ex_offered e, ex_delivered e, ex_discarded e, ex_sent e)"

lemma wf_members_cong: "members_of e = members_of e' \<Longrightarrow> wf_members e = wf_members e'"
  by (simp add: members_of_def wf_members_def)

lemma wf_channels_cong: "channels_of e = channels_of e' \<Longrightarrow> wf_channels e = wf_channels e'"
  by (simp add: channels_of_def wf_channels_def)

lemma perform_members: "members_of (perform a e) = members_of e"
  by (cases a) (simp_all add: members_of_def publish_defs closeAllFailed_def notifyStateChangedLocked_def drainAccepted_def)

lemma wf_members_perform [simp]: "wf_members (perform a e) = wf_members e"
  by (rule wf_members_cong) (rule perform_members)

lemma wf_members_perform_all [simp]: "wf_members (perform_all as e) = wf_members e"
  unfolding perform_all_def by (induction as arbitrary: e) simp_all

lemma wf_channels_drop_update: "wf_channels e \<Longrightarrow> wf_channels (drop_update e)"
  by (auto simp: wf_channels_def drop_update_def intro: suffix_order.trans [OF suffix_drop])

lemma wf_channels_send_update: "wf_channels e \<Longrightarrow> wf_channels (send_update st e)"
  by (auto simp: wf_channels_def send_update_def)

lemma wf_channels_perform: "wf_channels e \<Longrightarrow> wf_channels (perform a e)"
  by (cases a) (auto simp: publishUpdate_def wf_channels_send_update wf_channels_drop_update,
    auto simp: wf_channels_def closeAllFailed_def notifyStateChangedLocked_def drainAccepted_def)

lemma wf_channels_perform_all: "wf_channels e \<Longrightarrow> wf_channels (perform_all as e)"
  unfolding perform_all_def by (induction as arbitrary: e) (simp_all add: wf_channels_perform)

lemma wf_members_status:
  assumes "wf_members e" "fmlookup (ex_statuses e) u = Some st"
  shows "u |\<in>| fmdom (ex_statuses e)" "wf_status u st" "u |\<in>| ex_rejected e \<longleftrightarrow> rs_State st = RelayFailed"
  using assms by (auto simp: wf_members_def dest: fmdomI)

lemma reportable_Some:
  "reportable u e = Some st \<longleftrightarrow>
     fmlookup (ex_statuses e) u = Some st \<and> \<not> exposure_closed e \<and> rs_State st \<noteq> RelayFailed"
  by (auto simp: reportable_def exposure_closed_def split: option.splits)

lemma finsert_dom [simp]: "fmlookup m u = Some x \<Longrightarrow> finsert u (fmdom m) = fmdom m"
  by (auto dest: fmdomI)

text \<open>Replacing the status of a live member by another live status.\<close>

lemma wf_members_set_status:
  assumes "wf_members e" "reportable u e = Some st" "wf_status u st'" "rs_State st' \<noteq> RelayFailed"
  shows "wf_members (set_status u st' e)"
  using assms wf_members_status [OF assms(1), of u st]
  by (auto simp: reportable_Some wf_members_def set_status_def notifyStateChangedLocked_def)

lemma wf_members_fail:
  assumes "wf_members e" "reportable u e = Some st" "wf_status u st'" "rs_State st' = RelayFailed"
  shows "wf_members (set_status u st' (e\<lparr>ex_failedCount := ex_failedCount e + 1, ex_rejected := finsert u (ex_rejected e)\<rparr>))"
  using assms wf_members_status [OF assms(1), of u st]
  by (auto simp: reportable_Some wf_members_def set_status_def notifyStateChangedLocked_def fcard_finsert_disjoint)

lemma wf_members_markReady_locked:
  "wf_members e \<Longrightarrow> wf_members (fst (markReady_locked u url e))"
  using wf_members_status [of e u]
  by (auto simp: markReady_locked_def Let_def wf_status_def reportable_Some intro!: wf_members_set_status split: option.splits)

lemma wf_members_markDatagramReady_locked:
  "wf_members e \<Longrightarrow> wf_members (fst (markDatagramReady_locked u addr e))"
  using wf_members_status [of e u]
  by (auto simp: markDatagramReady_locked_def Let_def wf_status_def reportable_Some intro!: wf_members_set_status
      split: option.splits)

lemma wf_members_markFailed_locked:
  "wf_members e \<Longrightarrow> wf_members (fst (markFailed_locked u err e))"
  using wf_members_status [of e u]
  by (auto simp: markFailed_locked_def Let_def wf_status_def reportable_Some intro!: wf_members_fail split: option.splits)

lemma addRelay_locked_Some:
  assumes "addRelay_locked u sv explicit e = (e', Some as)"
  shows "\<not> exposure_closed e" "u |\<notin>| fmdom (ex_statuses e)" "u |\<notin>| ex_rejected e"
    "explicit \<or> ex_discoveredCount e < ex_maxDiscovered e" "as = [Publish (connecting u)]"
  using assms by (auto simp: addRelay_locked_def exposure_closed_def Let_def split: if_splits)

lemma addRelay_locked_None: "addRelay_locked u sv explicit e = (e', None) \<Longrightarrow> e' = e"
  by (auto simp: addRelay_locked_def Let_def split: if_splits)

lemma wf_members_addRelay_locked:
  "wf_members e \<Longrightarrow> wf_members (fst (addRelay_locked u sv explicit e))"
  by (auto simp: addRelay_locked_def Let_def wf_members_def wf_status_def connecting_def notifyStateChangedLocked_def
      rearmAllFailedLocked_def fcard_finsert_disjoint fmdom_iff)

lemma wf_channels_set_status [simp]: "wf_channels (set_status u st e) = wf_channels e"
  by (rule wf_channels_cong) (simp add: channels_of_def set_status_def notifyStateChangedLocked_def)

lemma wf_channels_count [simp]: "wf_channels (e\<lparr>ex_failedCount := n, ex_rejected := r\<rparr>) = wf_channels e"
  by (rule wf_channels_cong) (simp add: channels_of_def)

lemma wf_channels_locked:
  "wf_channels e \<Longrightarrow> wf_channels (fst (markReady_locked u url e))"
  "wf_channels e \<Longrightarrow> wf_channels (fst (markDatagramReady_locked u addr e))"
  "wf_channels e \<Longrightarrow> wf_channels (fst (markFailed_locked u err e))"
  "wf_channels e \<Longrightarrow> wf_channels (fst (addRelay_locked u sv explicit e))"
  by (auto simp: markReady_locked_def markDatagramReady_locked_def markFailed_locked_def Let_def split: option.splits)
    (auto simp: addRelay_locked_def Let_def wf_channels_def notifyStateChangedLocked_def rearmAllFailedLocked_def)

lemmas wf_members_locked = wf_members_markReady_locked wf_members_markDatagramReady_locked
  wf_members_markFailed_locked wf_members_addRelay_locked

lemma wf_mark:
  assumes "wf_members e" "wf_channels e"
  shows "wf_members (markReady u url e)" "wf_channels (markReady u url e)"
    "wf_members (markDatagramReady u addr e)" "wf_channels (markDatagramReady u addr e)"
    "wf_members (markFailed u err e)" "wf_channels (markFailed u err e)"
  using wf_members_locked(1-3) [OF assms(1)] wf_channels_locked(1-3) [OF assms(2)]
  by (auto simp: markReady_def markDatagramReady_def markFailed_def split: prod.splits
      intro!: wf_channels_perform_all) (metis fst_conv)+

lemma addRelay_fst:
  "fst (addRelay u explicit e) =
     (case newRelaySupervisor u (ex_identity e) (ex_timings e) of
        Inl _ \<Rightarrow> e
      | Inr s \<Rightarrow>
          (let r = addRelay_locked u (s\<lparr>udpEnabled := ex_udpEnabled e\<rparr>) explicit e
           in case snd r of None \<Rightarrow> fst r | Some as \<Rightarrow> perform_all as (fst r)))"
  by (simp add: addRelay_def Let_def split: sum.split prod.split option.split)

lemma wf_addRelay:
  assumes "wf_members e" "wf_channels e"
  shows "wf_members (fst (addRelay u explicit e))" "wf_channels (fst (addRelay u explicit e))"
  using wf_members_locked(4) [OF assms(1), of u _ explicit] wf_channels_locked(4) [OF assms(2), of u _ explicit] assms
  by (simp_all add: addRelay_fst Let_def wf_channels_perform_all split: sum.split option.split)

section \<open>Snapshots and waiting\<close>

lemma statuses_listed: "st \<in> set (map snd (sorted_list_of_fmap m)) \<longleftrightarrow> (\<exists>u. fmlookup m u = Some st)"
  by (simp add: set_sorted_list_of_fmap image_iff Bex_def split_paired_Ex)

lemma set_statuses_where: "set (statuses_where P e) = {st. P st \<and> (\<exists>u. fmlookup (ex_statuses e) u = Some st)}"
  by (auto simp: statuses_where_def statuses_listed simp del: set_map)

lemma sorted_statuses_where: "sorted (map rs_RelayURL (statuses_where P e))"
  by (simp add: statuses_where_def)

lemma status_urls:
  "wf_members e \<Longrightarrow> map rs_RelayURL (map snd (sorted_list_of_fmap (ex_statuses e))) = sorted_list_of_fset (fmdom (ex_statuses e))"
  by (auto simp: sorted_list_of_fmap_def wf_members_def wf_status_def fmdom_iff intro!: map_idI)

lemma distinct_statuses_where:
  assumes "wf_members e"
  shows "distinct (map rs_RelayURL (statuses_where P e))"
proof -
  have "distinct (map rs_RelayURL (filter P (map snd (sorted_list_of_fmap (ex_statuses e)))))"
    by (rule distinct_map_filter) (simp only: status_urls [OF assms] distinct_sorted_list_of_fset)
  then show ?thesis by (simp add: statuses_where_def distinct_map)
qed

lemma length_Relays:
  assumes "wf_members e"
  shows "int (length (Relays e)) = ex_relayCount e"
proof -
  have "length (Relays e) = length (sorted_list_of_fset (fmdom (ex_statuses e)))"
    by (simp add: Relays_def statuses_where_def sorted_list_of_fmap_def)
  also have "\<dots> = fcard (fmdom (ex_statuses e))"
    by (metis distinct_card distinct_sorted_list_of_fset fcard.rep_eq sorted_list_of_fset_simps(1))
  finally show ?thesis using assms by (simp add: wf_members_def)
qed

text \<open>\<open>Relays\<close> is a complete snapshot: it lists the status of every member exactly once, in
  ascending order of the relay URL, under the URL it is kept for.\<close>

theorem Relays_snapshot:
  assumes "wf_members e"
  shows "sorted (map rs_RelayURL (Relays e)) \<and> distinct (map rs_RelayURL (Relays e)) \<and>
    int (length (Relays e)) = ex_relayCount e \<and>
    (\<forall>st. st \<in> set (Relays e) \<longleftrightarrow> fmlookup (ex_statuses e) (rs_RelayURL st) = Some st)"
proof -
  have "(\<exists>u. fmlookup (ex_statuses e) u = Some st) \<longleftrightarrow> fmlookup (ex_statuses e) (rs_RelayURL st) = Some st" for st
    using assms by (auto simp: wf_members_def wf_status_def)
  then show ?thesis
    using sorted_statuses_where [of "\<lambda>_. True" e] distinct_statuses_where [OF assms, of "\<lambda>_. True"] length_Relays [OF assms]
    by (simp add: Relays_def set_statuses_where)
qed

text \<open>A round of \<open>WaitReady\<close> returns exactly when some relay is ready, and then the sorted
  statuses of all ready relays, even if the exposure is closing; otherwise closing wins over exhaustion,
  and it blocks only while the exposure is live.\<close>

theorem WaitReady_round_spec:
  "case WaitReady_round False e of
     WaitReturns ready \<Rightarrow> ready \<noteq> [] \<and> sorted (map rs_RelayURL ready) \<and>
       set ready = {st. rs_State st = RelayReady \<and> (\<exists>u. fmlookup (ex_statuses e) u = Some st)}
   | WaitFails err \<Rightarrow> (\<nexists>u st. fmlookup (ex_statuses e) u = Some st \<and> rs_State st = RelayReady) \<and>
       (if exposure_closed e then err = NetErrClosed else exhausted e \<and> err = ErrNoRelays)
   | WaitOn changed \<Rightarrow> (\<nexists>u st. fmlookup (ex_statuses e) u = Some st \<and> rs_State st = RelayReady) \<and>
       \<not> exposure_closed e \<and> \<not> exhausted e \<and> changed = ex_stateChanged e"
proof -
  let ?P = "\<lambda>st. rs_State st = RelayReady"
  have "statuses_where ?P e = [] \<longleftrightarrow> (\<nexists>u st. fmlookup (ex_statuses e) u = Some st \<and> ?P st)"
    using set_statuses_where [of ?P e] by (auto simp flip: set_empty)
  then show ?thesis
    using sorted_statuses_where [of ?P e] set_statuses_where [of ?P e]
    by (auto simp: WaitReady_round_def wait_round_def Let_def)
qed

text \<open>The exposure reports exhaustion only when every member has failed terminally.\<close>

theorem exhausted_all_members_failed:
  assumes "wf_members e" "exhausted e" "fmlookup (ex_statuses e) u = Some st"
  shows "rs_State st = RelayFailed \<and> rs_Err st \<noteq> None"
proof -
  have sub: "ex_rejected e |\<subseteq>| fmdom (ex_statuses e)"
    using assms(1) by (auto simp: wf_members_def dest: fmdomI)
  have "fcard (fmdom (ex_statuses e)) \<le> fcard (ex_rejected e)"
    using assms(1,2) by (simp add: wf_members_def exhausted_def)
  with sub have "ex_rejected e = fmdom (ex_statuses e)" by (rule fcard_seteq)
  with wf_members_status [OF assms(1,3)] show ?thesis by (auto simp: wf_status_def)
qed

section \<open>Adding relays\<close>

lemma newRelaySupervisor_ok:
  assumes "normalizeRelay u = Inr u"
  obtains s where "newRelaySupervisor u ident tm = Inr (s :: ('k, 'p) relaySupervisor)"
  using newRelaySupervisor_normalised [OF assms sample_name] by blast

text \<open>What does not change when relays are added.\<close>

definition settings_of :: "('k, 'p) Exposure \<Rightarrow> _" where
  "settings_of e = ((ex_ctxDone e, ex_closing e, ex_updatesClosed e, ex_updatesCapacity e, ex_acceptCapacity e, ex_datagramCapacity e),
     (ex_identity e, ex_timings e, ex_udpEnabled e, ex_discoveryEnabled e, ex_maxDiscovered e),
     (ex_rejected e, ex_failedCount e, ex_candidates e, ex_discoveryClient e, ex_accepted e, ex_addr e))"

text \<open>A publication without interference on the buffer.\<close>

definition publish :: "nat \<Rightarrow> 'u \<Rightarrow> 'u list \<Rightarrow> 'u list" where
  "publish capacity status q =
     (if length q < capacity then q @ [status]
      else let q = drop 1 q in if length q < capacity then q @ [status] else q)"

lemma publishUpdate_open:
  assumes "\<not> ex_updatesClosed e"
  shows "\<exists>h. publishUpdate st e = e\<lparr>ex_updates := publish (ex_updatesCapacity e) st (ex_updates e), ex_sent := h\<rparr>"
proof -
  have same: "e\<lparr>ex_updates := q, ex_sent := ex_sent e\<rparr> = e\<lparr>ex_updates := q\<rparr>" for q by simp
  consider (room) "length (ex_updates e) < ex_updatesCapacity e"
    | (dropped) "\<not> length (ex_updates e) < ex_updatesCapacity e" "length (drop 1 (ex_updates e)) < ex_updatesCapacity e"
    | (full) "\<not> length (ex_updates e) < ex_updatesCapacity e" "\<not> length (drop 1 (ex_updates e)) < ex_updatesCapacity e"
    by blast
  then show ?thesis
  proof cases
    case room
    with assms show ?thesis by (intro exI [of _ "ex_sent e @ [st]"]) (simp add: publish_defs publish_def)
  next
    case dropped
    with assms show ?thesis by (intro exI [of _ "ex_sent e @ [st]"]) (simp add: publish_defs publish_def)
  next
    case full
    with assms show ?thesis by (intro exI [of _ "ex_sent e"]) (simp add: same publish_defs publish_def)
  qed
qed

text \<open>A relay that is added: the exposure after \<open>addRelay\<close> relative to the one before.\<close>

definition added :: "string \<Rightarrow> bool \<Rightarrow> ('k, 'p) Exposure \<Rightarrow> ('k, 'p) Exposure \<Rightarrow> bool" where
  "added u explicit e e' \<longleftrightarrow>
     settings_of e' = settings_of e \<and>
     ex_statuses e' = fmupd u (connecting u) (ex_statuses e) \<and>
     ex_started e' = ex_started e @ [u] \<and>
     ex_discoveredCount e' = ex_discoveredCount e + (if explicit then 0 else 1) \<and>
     ex_relayCount e' = ex_relayCount e + 1 \<and>
     ex_updates e' = publish (ex_updatesCapacity e) (connecting u) (ex_updates e) \<and>
     \<not> ex_allFailed e' \<and> ex_panicked e' = ex_panicked e"

lemma addRelay_added:
  fixes e :: "('k, 'p) Exposure"
  assumes "normalizeRelay u = Inr u" "\<not> exposure_closed e" "\<not> ex_updatesClosed e"
    "u |\<notin>| fmdom (ex_statuses e)" "u |\<notin>| ex_rejected e" "explicit \<or> ex_discoveredCount e < ex_maxDiscovered e"
  shows "\<exists>e'. addRelay u explicit e = (e', None) \<and> added u explicit e e'"
proof -
  obtain s :: "('k, 'p) relaySupervisor" where s: "newRelaySupervisor u (ex_identity e) (ex_timings e) = Inr s"
    by (rule newRelaySupervisor_ok [OF assms(1)])
  let ?s = "s\<lparr>udpEnabled := ex_udpEnabled e\<rparr>"
  obtain e1 where l: "addRelay_locked u ?s explicit e = (e1, Some [Publish (connecting u)])"
    and f: "settings_of e1 = settings_of e" "ex_statuses e1 = fmupd u (connecting u) (ex_statuses e)"
      "ex_started e1 = ex_started e @ [u]" "ex_discoveredCount e1 = ex_discoveredCount e + (if explicit then 0 else 1)"
      "ex_relayCount e1 = ex_relayCount e + 1" "ex_updates e1 = ex_updates e" "\<not> ex_allFailed e1" "ex_panicked e1 = ex_panicked e"
    using assms(2-6)
    by (auto simp: addRelay_locked_def exposure_closed_def settings_of_def Let_def notifyStateChangedLocked_def rearmAllFailedLocked_def)
  have c: "\<not> ex_updatesClosed e1" "ex_updatesCapacity e1 = ex_updatesCapacity e" using f(1) assms(3) by (simp_all add: settings_of_def)
  from publishUpdate_open [OF c(1)] obtain h where
    p: "publishUpdate (connecting u) e1 = e1\<lparr>ex_updates := publish (ex_updatesCapacity e) (connecting u) (ex_updates e), ex_sent := h\<rparr>"
    using c(2) f(6) by metis
  have a: "addRelay u explicit e = (publishUpdate (connecting u) e1, None)"
    by (simp add: addRelay_def s Let_def l perform_all_def)
  show ?thesis unfolding a p using f by (simp add: added_def settings_of_def)
qed

lemma addRelay_refused:
  fixes e :: "('k, 'p) Exposure"
  assumes "normalizeRelay u = Inr u"
    "exposure_closed e \<or> u |\<in>| fmdom (ex_statuses e) \<or> u |\<in>| ex_rejected e \<or>
     (\<not> explicit \<and> ex_discoveredCount e \<ge> ex_maxDiscovered e)"
  shows "addRelay u explicit e = (e, None)"
proof -
  obtain s :: "('k, 'p) relaySupervisor" where s: "newRelaySupervisor u (ex_identity e) (ex_timings e) = Inr s"
    by (rule newRelaySupervisor_ok [OF assms(1)])
  show ?thesis using assms(2) by (auto simp: addRelay_def s addRelay_locked_def exposure_closed_def)
qed

text \<open>Several relays added one after the other.\<close>

fun added_list :: "string list \<Rightarrow> bool \<Rightarrow> ('k, 'p) Exposure \<Rightarrow> ('k, 'p) Exposure \<Rightarrow> bool" where
  "added_list [] explicit e e' \<longleftrightarrow> e' = e"
| "added_list (u # us) explicit e e' \<longleftrightarrow> (\<exists>e1. added u explicit e e1 \<and> added_list us explicit e1 e')"

lemma added_list_fields:
  "added_list us explicit e e' \<Longrightarrow> settings_of e' = settings_of e \<and> ex_started e' = ex_started e @ us \<and>
     (\<forall>u. fmlookup (ex_statuses e') u = (if u \<in> set us then Some (connecting u) else fmlookup (ex_statuses e) u)) \<and>
     ex_relayCount e' = ex_relayCount e + int (length us) \<and>
     ex_updates e' = fold (\<lambda>u. publish (ex_updatesCapacity e) (connecting u)) us (ex_updates e) \<and>
     (us \<noteq> [] \<longrightarrow> \<not> ex_allFailed e') \<and> ex_panicked e' = ex_panicked e \<and>
     ex_discoveredCount e' = ex_discoveredCount e + (if explicit then 0 else int (length us))"
proof (induction us arbitrary: e)
  case (Cons u us)
  then obtain e1 where a: "added u explicit e e1" and b: "added_list us explicit e1 e'" by auto
  have "ex_updatesCapacity e1 = ex_updatesCapacity e" using a by (simp add: added_def settings_of_def)
  with Cons.IH [OF b] a b show ?case
    by (cases us) (auto simp: added_def fmdom_iff)
qed simp

lemma added_list_explicit:
  assumes "list_all (\<lambda>u. normalizeRelay u = Inr u) us" "\<not> exposure_closed e" "\<not> ex_updatesClosed e" "distinct us"
    "\<And>u. u \<in> set us \<Longrightarrow> u |\<notin>| fmdom (ex_statuses e) \<and> u |\<notin>| ex_rejected e"
  shows "\<exists>e'. addRelays us e = (e', None) \<and> added_list us True e e'"
  using assms
proof (induction us arbitrary: e)
  case (Cons u us)
  obtain e1 where a: "addRelay u True e = (e1, None)" "added u True e e1"
    using addRelay_added [of u e True] Cons.prems by auto
  then have "\<not> exposure_closed e1" "\<not> ex_updatesClosed e1"
    "\<And>v. v \<in> set us \<Longrightarrow> v |\<notin>| fmdom (ex_statuses e1) \<and> v |\<notin>| ex_rejected e1"
    using Cons.prems by (auto simp: added_def settings_of_def exposure_closed_def)
  with Cons.IH [of e1] Cons.prems(1,4) a show ?case by fastforce
qed simp

lemma adopt_relays_full:
  "list_all (\<lambda>u. normalizeRelay u = Inr u) us \<Longrightarrow> ex_discoveredCount e \<ge> ex_maxDiscovered e \<Longrightarrow> adopt_relays us e = e"
  by (induction us) (simp_all add: addRelay_refused)

lemma adopt_relays_takes:
  assumes "list_all (\<lambda>u. normalizeRelay u = Inr u) us" "\<not> exposure_closed e" "\<not> ex_updatesClosed e" "distinct us"
    "\<And>u. u \<in> set us \<Longrightarrow> u |\<notin>| fmdom (ex_statuses e) \<and> u |\<notin>| ex_rejected e"
  shows "added_list (take (nat (ex_maxDiscovered e - ex_discoveredCount e)) us) False e (adopt_relays us e)"
  using assms
proof (induction us arbitrary: e)
  case (Cons u us)
  show ?case
  proof (cases "ex_discoveredCount e < ex_maxDiscovered e")
    case True
    obtain e1 where a: "addRelay u False e = (e1, None)" "added u False e e1"
      using addRelay_added [of u e False] Cons.prems True by auto
    then have l: "\<not> exposure_closed e1" "\<not> ex_updatesClosed e1" "\<not> ex_ctxDone e"
      "\<And>v. v \<in> set us \<Longrightarrow> v |\<notin>| fmdom (ex_statuses e1) \<and> v |\<notin>| ex_rejected e1"
      using Cons.prems by (auto simp: added_def settings_of_def exposure_closed_def)
    have n: "nat (ex_maxDiscovered e - ex_discoveredCount e) = Suc (nat (ex_maxDiscovered e1 - ex_discoveredCount e1))"
      using a(2) True by (simp add: added_def settings_of_def Suc_nat_eq_nat_zadd1)
    have "added_list (take (nat (ex_maxDiscovered e1 - ex_discoveredCount e1)) us) False e1 (adopt_relays us e1)"
      by (rule Cons.IH) (use Cons.prems l in auto)
    then show ?thesis using a l(3) unfolding n by auto
  next
    case False
    then show ?thesis using adopt_relays_full [of "u # us" e] Cons.prems(1) by (simp del: adopt_relays.simps)
  qed
qed simp

section \<open>Construction\<close>

text \<open>Every candidate is a canonical relay origin.\<close>

definition candidates_ok :: "('k, 'p) Exposure \<Rightarrow> bool" where
  "candidates_ok e \<longleftrightarrow> (\<forall>u. fmlookup (dcs_relays (ex_candidates e)) u \<noteq> None \<longrightarrow> normalizeRelay u = Inr u)"

lemma int64_small: "0 \<le> n \<Longrightarrow> n < 2 ^ 63 \<Longrightarrow> int64 n = n"
  unfolding int64_def by (simp add: signed_of_int signed_take_bit_int_eq_self)

lemma publish_room:
  "length q + length us \<le> c \<Longrightarrow> fold (\<lambda>u. publish c (f u)) us q = q @ map f us"
  by (induction us arbitrary: q) (simp_all add: publish_def)

lemma max_discovered_pos: "max_discovered n > 0"
  by (simp add: max_discovered_def defaultMaxActiveRelays_def)

text \<open>No capacity wraps around, and a configuration of any realistic size fits into memory.\<close>

lemma capacity_sizes:
  assumes "int n + max_discovered m < 2 ^ 55"
  shows "0 < int n + max_discovered m" "int64 (int n + max_discovered m) = int n + max_discovered m"
    "int64 (2 * (int n + max_discovered m)) = 2 * (int n + max_discovered m)"
    "int64 (4 * (int n + max_discovered m)) = 4 * (int n + max_discovered m)"
    "int64 (256 * (int n + max_discovered m)) = 256 * (int n + max_discovered m)"
proof -
  show p: "0 < int n + max_discovered m" using max_discovered_pos [of m] by linarith
  have "0 < k \<Longrightarrow> k < 2 ^ 55 \<Longrightarrow> int64 k = k \<and> int64 (2 * k) = 2 * k \<and> int64 (4 * k) = 4 * k \<and> int64 (256 * k) = 256 * k" for k
    by (intro conjI int64_small) simp_all
  from this [OF p assms] show "int64 (int n + max_discovered m) = int n + max_discovered m"
    "int64 (2 * (int n + max_discovered m)) = 2 * (int n + max_discovered m)"
    "int64 (4 * (int n + max_discovered m)) = 4 * (int n + max_discovered m)"
    "int64 (256 * (int n + max_discovered m)) = 256 * (int n + max_discovered m)" by blast+
qed

lemma new_exposure_facts:
  assumes "int n + max_discovered (ec_MaxActiveRelays cfg) < 2 ^ 55" "new_exposure cfg tm n = Some e"
  shows "wf_members e" "wf_channels e" "\<not> exposure_closed e" "\<not> ex_updatesClosed e"
    "\<not> ex_panicked e" "ex_statuses e = fmempty" "ex_rejected e = {||}" "ex_started e = []" "ex_updates e = []"
    "ex_relayCount e = 0" "ex_failedCount e = 0" "ex_discoveryEnabled e = (\<not> ec_DisableDiscovery cfg)"
    "ex_candidates e = newDiscoveryCandidates" "ex_accepted e = []" "ex_updatesCapacity e > 0"
    "ex_discoveryEnabled e \<longrightarrow> ex_discoveryClient e \<noteq> None"
    "int (ex_acceptCapacity e) = 2 * (int n + max_discovered (ec_MaxActiveRelays cfg))"
    "int (ex_updatesCapacity e) = 4 * (int n + max_discovered (ec_MaxActiveRelays cfg))"
    "int (ex_datagramCapacity e) = 256 * (int n + max_discovered (ec_MaxActiveRelays cfg))"
    "ex_maxDiscovered e = max_discovered (ec_MaxActiveRelays cfg)" "ex_discoveredCount e = 0" "ex_udpEnabled e = ec_UDPEnabled cfg"
proof -
  define k where "k = int n + max_discovered (ec_MaxActiveRelays cfg)"
  note z = capacity_sizes [OF assms(1), folded k_def]
  have one: "at_least_one (2 * k) = 2 * k" "at_least_one (256 * k) = 256 * k" using z(1) by (simp_all add: at_least_one_def)
  have "new_exposure cfg tm n = Some e" by (rule assms(2))
  then obtain ac uc dc where c: "makechan 16 (2 * k) = Some ac" "makechan 80 (4 * k) = Some uc" "makechan 64 (256 * k) = Some dc"
    unfolding new_exposure_def Let_def datagramQueuePerRelay_def k_def [symmetric] of_nat_numeral z one
    by (auto split: option.splits)
  note e = assms(2) [unfolded new_exposure_def Let_def datagramQueuePerRelay_def k_def [symmetric] of_nat_numeral z one c
    prod.case option.case option.inject, symmetric]
  have m: "0 \<le> max_discovered (ec_MaxActiveRelays cfg)" using max_discovered_pos less_imp_le by blast
  have "int ac = 2 * k" "int uc = 4 * k" "int dc = 256 * k" using c z(1) by (auto simp: makechan_def split: if_splits)
  then show "int (ex_acceptCapacity e) = 2 * (int n + max_discovered (ec_MaxActiveRelays cfg))"
    "int (ex_updatesCapacity e) = 4 * (int n + max_discovered (ec_MaxActiveRelays cfg))"
    "int (ex_datagramCapacity e) = 256 * (int n + max_discovered (ec_MaxActiveRelays cfg))" "ex_updatesCapacity e > 0"
    using z(1) by (simp_all add: e k_def)
  show "wf_members e" "wf_channels e" by (simp_all add: e wf_members_def wf_channels_def m)
qed (use assms(2) in \<open>auto simp: new_exposure_def Let_def exposure_closed_def split: option.splits\<close>)

lemma new_exposure_ok:
  assumes "int n + max_discovered (ec_MaxActiveRelays cfg) < 2 ^ 33"
  shows "\<exists>e. new_exposure cfg tm n = Some e"
proof -
  have "int n + max_discovered (ec_MaxActiveRelays cfg) < 2 ^ 55" using assms by simp
  from capacity_sizes [OF this] assms show ?thesis
    by (simp add: new_exposure_def Let_def makechan_def at_least_one_def datagramQueuePerRelay_def maxAlloc_def hchanSize_def)
qed

lemma wf_addRelays:
  "wf_members e \<Longrightarrow> wf_channels e \<Longrightarrow> wf_members (fst (addRelays us e)) \<and> wf_channels (fst (addRelays us e))"
proof (induction us arbitrary: e)
  case (Cons u us)
  note w = wf_addRelay [OF Cons.prems, of u True]
  obtain e1 r where a: "addRelay u True e = (e1, r)" by fastforce
  with w have "wf_members e1" "wf_channels e1" by simp_all
  with Cons.IH [of e1] a show ?case by (cases r) simp_all
qed simp

lemma exposed:
  fixes cfg :: "'k ExposeConfig"
  assumes "id_name (ec_Identity cfg) \<noteq> []" "id_address (ec_Identity cfg) \<noteq> []" "id_publicKey (ec_Identity cfg) \<noteq> []"
    "NormalizeRelays (ec_Relays cfg) = Inr relays"
    "int (length relays) + max_discovered (ec_MaxActiveRelays cfg) < 2 ^ 33"
  shows "\<exists>e :: ('k, 'p) Exposure. exposeWithTimings (Some None) cfg tm = Some (Inr e) \<and>
    ex_started e = relays \<and> ex_updates e = map connecting relays \<and>
    (\<forall>u. fmlookup (ex_statuses e) u = (if u \<in> set relays then Some (connecting u) else None)) \<and>
    int (ex_acceptCapacity e) = 2 * (int (length relays) + max_discovered (ec_MaxActiveRelays cfg)) \<and>
    int (ex_updatesCapacity e) = 4 * (int (length relays) + max_discovered (ec_MaxActiveRelays cfg)) \<and>
    int (ex_datagramCapacity e) = 256 * (int (length relays) + max_discovered (ec_MaxActiveRelays cfg)) \<and>
    \<not> exposure_closed e \<and> \<not> exhausted e \<and> \<not> ex_panicked e \<and> \<not> ex_updatesClosed e \<and>
    (ex_discoveryEnabled e \<longrightarrow> ex_discoveryClient e \<noteq> None) \<and>
    wf_members e \<and> wf_channels e \<and> ex_discoveryEnabled e = (\<not> ec_DisableDiscovery cfg) \<and> candidates_ok e \<and> ex_accepted e = [] \<and>
    ex_candidates e = newDiscoveryCandidates \<and> ex_rejected e = {||} \<and> ex_udpEnabled e = ec_UDPEnabled cfg \<and>
    ex_discoveredCount e = 0 \<and> ex_maxDiscovered e = max_discovered (ec_MaxActiveRelays cfg)"
proof -
  let ?n = "int (length relays) + max_discovered (ec_MaxActiveRelays cfg)"
  from NormalizeRelays_Inr_iff [of "ec_Relays cfg" relays] assms(4) obtain cs where
    cs: "ec_Relays cfg \<noteq> []" "map normalizeRelay (ec_Relays cfg) = map Inr cs" "relays = rev (remdups (rev cs))" by blast
  have ne: "relays \<noteq> []" using cs by auto
  have norm: "list_all (\<lambda>u. normalizeRelay u = Inr u) relays"
    using relay.norm_list_fixed [OF cs(2)] cs(3) by (auto simp: list_all_iff)
  have "distinct relays" by (simp add: cs(3))
  obtain e0 :: "('k, 'p) Exposure" where n: "new_exposure cfg (withDefaults tm) (length relays) = Some e0"
    using new_exposure_ok [OF assms(5), of "withDefaults tm"] by blast
  have "?n < 2 ^ 55" using assms(5) by simp
  note e0 = new_exposure_facts [OF this n]
  obtain e where e: "addRelays relays e0 = (e, None)" "added_list relays True e0 e"
    using added_list_explicit [of relays e0] norm \<open>distinct relays\<close> e0(3,4,6,7) by auto
  note f = added_list_fields [OF e(2)]
  have "int (length relays) \<le> int (ex_updatesCapacity e0)"
    using e0(18) max_discovered_pos [of "ec_MaxActiveRelays cfg"] by simp
  then have "ex_updates e = map connecting relays"
    using f e0(9) publish_room [of "[]" relays "ex_updatesCapacity e0" connecting] by simp
  moreover have "ex_acceptCapacity e = ex_acceptCapacity e0" "ex_updatesCapacity e = ex_updatesCapacity e0"
    "ex_datagramCapacity e = ex_datagramCapacity e0" "ex_discoveryClient e = ex_discoveryClient e0" "exposure_closed e = exposure_closed e0"
    "ex_failedCount e = ex_failedCount e0" "ex_updatesClosed e = ex_updatesClosed e0" "ex_accepted e = ex_accepted e0"
    "ex_discoveryEnabled e = ex_discoveryEnabled e0" "ex_candidates e = newDiscoveryCandidates" "ex_rejected e = ex_rejected e0"
    "ex_udpEnabled e = ex_udpEnabled e0" "ex_maxDiscovered e = ex_maxDiscovered e0" "ex_discoveredCount e = ex_discoveredCount e0"
    using f e0(13) by (simp_all add: settings_of_def exposure_closed_def)
  moreover have "wf_members e" "wf_channels e" using wf_addRelays [of e0 relays] e(1) e0(1,2) by simp_all
  ultimately show ?thesis
    using f e0 n e(1) ne assms(1-4)
    by (auto simp: exposeWithTimings_def Let_def exhausted_def candidates_ok_def newDiscoveryCandidates_def)
qed

text \<open>C10. A valid configuration gives a live exposure: \<open>exposeWithTimings\<close> neither fails nor panics,
  every normalised relay is a member in the state \<open>connecting\<close> and its supervisor was started once, in
  the order of the list; the stream holds one notification per relay; and with \<open>n\<close> configured relays and
  at most \<open>m\<close> discovered ones, the queues have room for \<open>2 (n + m)\<close> connections, \<open>4 (n + m)\<close> notifications and
  \<open>256 (n + m)\<close> datagrams. The bound on \<open>n + m\<close> keeps the queues within the memory that can be allocated.\<close>

theorem exposeWithTimings_ok:
  fixes cfg :: "'k ExposeConfig"
  assumes "id_name (ec_Identity cfg) \<noteq> []" "id_address (ec_Identity cfg) \<noteq> []" "id_publicKey (ec_Identity cfg) \<noteq> []"
    "NormalizeRelays (ec_Relays cfg) = Inr relays"
    "int (length relays) + max_discovered (ec_MaxActiveRelays cfg) < 2 ^ 33"
  shows "\<exists>e :: ('k, 'p) Exposure. exposeWithTimings (Some None) cfg tm = Some (Inr e) \<and>
    ex_started e = relays \<and> ex_updates e = map connecting relays \<and>
    (\<forall>u. fmlookup (ex_statuses e) u = (if u \<in> set relays then Some (connecting u) else None)) \<and>
    int (ex_acceptCapacity e) = 2 * (int (length relays) + max_discovered (ec_MaxActiveRelays cfg)) \<and>
    int (ex_updatesCapacity e) = 4 * (int (length relays) + max_discovered (ec_MaxActiveRelays cfg)) \<and>
    int (ex_datagramCapacity e) = 256 * (int (length relays) + max_discovered (ec_MaxActiveRelays cfg)) \<and>
    ex_discoveryEnabled e = (\<not> ec_DisableDiscovery cfg) \<and>
    \<not> exposure_closed e \<and> \<not> exhausted e \<and> \<not> ex_panicked e"
  using exposed [OF assms, of tm] by blast

text \<open>A concrete exposure with one relay, without discovery.\<close>

definition sample_config :: "byte list ExposeConfig" where
  "sample_config = \<lparr>ec_Relays = [''https://rly.best''], ec_Identity = sample_identity, ec_UDPEnabled = False,
     ec_DisableDiscovery = True, ec_MaxActiveRelays = 0\<rparr>"

lemma sample_relays: "NormalizeRelays [''https://rly.best''] = Inr [''https://rly.best'']"
proof -
  have "map normalizeRelay [''https://rly.best''] = map Inr [''https://rly.best'']"
    by (simp add: normalizeRelay_rly_best)
  then show ?thesis unfolding NormalizeRelays_Inr_iff by (intro conjI exI [of _ "[''https://rly.best'']"]) simp_all
qed

lemma hex_encode_Nil [simp]: "hex_encode bs = [] \<longleftrightarrow> bs = []"
  by (cases bs) simp_all

lemma sample_identity_fields: "id_name sample_identity \<noteq> []" "id_address sample_identity \<noteq> []" "id_publicKey sample_identity \<noteq> []"
  by (simp_all add: sample_identity_def identityFromKey_def trim_ethereumAddress sample_crypto_def)

lemmas sample_config_ok = sample_identity_fields sample_relays

theorem exposeWithTimings_ok_witness:
  "\<exists>e :: (byte list, unit) Exposure. exposeWithTimings (Some None) sample_config defaultRelayTimings = Some (Inr e) \<and>
     ex_started e = [''https://rly.best'']"
  using exposeWithTimings_ok [of sample_config "[''https://rly.best'']" defaultRelayTimings] sample_config_ok
  by (auto simp: sample_config_def max_discovered_def defaultMaxActiveRelays_def)

section \<open>Discovery refresh\<close>

lemma fetch_canonical:
  assumes "fetch_discovery env c seed now = Inr cs" "fmlookup cs u = Some x"
  shows "normalizeRelay u = Inr u"
proof -
  from assms(1) obtain parsed response document where "url_parse seed = Some parsed"
    "discovery_Do env (discovery_client_for c (url_hostname parsed)) (HttpRequest MethodGet (seed @ pathDiscovery) None) = Inr response"
    "decodeDiscovery env response = Inr document"
    "cs = fold (adopt_descriptor env now) (dr_Relays document) fmempty" "cs \<noteq> fmempty"
    by (rule fetch_discovery_Inr)
  with adopt_fold_sound [of env now "dr_Relays document" fmempty u x] assms(2)
  have "advertises env now (dr_Relays document) u x" by simp
  then show ?thesis by (auto simp: advertises_def intro: relay.norm_fixed)
qed

lemma merge_seeds_Inr:
  "\<not> ex_ctxDone e \<Longrightarrow> ex_discoveryClient e \<noteq> None \<Longrightarrow> candidates_ok e \<Longrightarrow>
     \<exists>c. merge_seeds env now seeds e = Inr (e\<lparr>ex_candidates := c\<rparr>) \<and> candidates_ok (e\<lparr>ex_candidates := c\<rparr>)"
proof (induction seeds arbitrary: e)
  case Nil
  then show ?case by (auto intro!: exI [of _ "ex_candidates e"])
next
  case (Cons seed seeds)
  from Cons.prems(2) obtain c where Some: "ex_discoveryClient e = Some c" by blast
  show ?case
  proof (cases "fetch_discovery env c seed now")
    case (Inl err)
    with Cons Some show ?thesis by simp
  next
    case (Inr cs)
    define e1 where "e1 = e\<lparr>ex_candidates := merge_candidates now cs (ex_candidates e)\<rparr>"
    have "candidates_ok e1"
      using Cons.prems(3) fetch_canonical [OF Inr]
      by (auto simp: e1_def candidates_ok_def merge_lookup split: option.splits if_splits)
    with Cons.IH [of e1] Cons.prems(1,2) obtain c' where
      "merge_seeds env now seeds e1 = Inr (e1\<lparr>ex_candidates := c'\<rparr>)" "candidates_ok (e1\<lparr>ex_candidates := c'\<rparr>)"
      by (auto simp: e1_def)
    with Cons.prems(1) Some Inr show ?thesis by (auto simp: e1_def)
  qed
qed

lemma selectRelays_facts:
  "distinct (selectRelays now active udp c)"
  "u \<in> set (selectRelays now active udp c) \<Longrightarrow> u |\<notin>| active \<and> fmlookup (dcs_relays c) u \<noteq> None"
proof -
  show "distinct (selectRelays now active udp c)"
    unfolding selectRelays_def distinct_sort by (rule distinct_map_filter) simp
  show "u \<in> set (selectRelays now active udp c) \<Longrightarrow> u |\<notin>| active \<and> fmlookup (dcs_relays c) u \<noteq> None"
    by (auto simp: selectRelays_def selectable_def set_sorted_list_of_fmap)
qed

lemma markExhausted_fields:
  "settings_of (markExhausted e) = settings_of (drainAccepted e)" "ex_started (markExhausted e) = ex_started e"
  "ex_statuses (markExhausted e) = ex_statuses e" "ex_relayCount (markExhausted e) = ex_relayCount e"
  "ex_failedCount (markExhausted e) = ex_failedCount e"
  "wf_channels e \<Longrightarrow> ex_allFailed (markExhausted e)"
  by (auto simp: markExhausted_def perform_all_def exhaust_actions_def closeAllFailed_def notifyStateChangedLocked_def
      drainAccepted_def settings_of_def wf_channels_def)

lemma wf_adopt_relays:
  "wf_members e \<Longrightarrow> wf_channels e \<Longrightarrow> wf_members (adopt_relays us e) \<and> wf_channels (adopt_relays us e)"
  by (induction us arbitrary: e) (simp_all add: wf_addRelay)

text \<open>C11. A discovery refresh of a live exposure, run without interference: with the candidates merged
  from the members' documents, it adopts the selected ones in ascending order until the discovery cap is
  reached, and leaves every other member as it was; it reports exhaustion afterwards exactly when every
  member had failed and nothing could be adopted.\<close>

theorem refreshDiscovery_spec:
  assumes "wf_members e" "wf_channels e" "candidates_ok e" "\<not> exposure_closed e" "\<not> ex_updatesClosed e"
    "ex_discoveryClient e \<noteq> None"
  shows "\<exists>c. merge_seeds env now (discoverySeeds (activeRelaysLocked e)) e = Inr (e\<lparr>ex_candidates := c\<rparr>) \<and>
    (let new = take (nat (ex_maxDiscovered e - ex_discoveredCount e))
           (selectRelays now (activeRelaysLocked e) (ex_udpEnabled e) c);
         e' = refreshDiscovery env now e
     in ex_started e' = ex_started e @ new \<and>
        (\<forall>u. fmlookup (ex_statuses e') u = (if u \<in> set new then Some (connecting u) else fmlookup (ex_statuses e) u)) \<and>
        (exhausted e' \<longleftrightarrow> new = [] \<and> ex_relayCount e > 0 \<and> ex_failedCount e \<ge> ex_relayCount e))"
proof -
  have live: "\<not> ex_ctxDone e" "\<not> ex_closing e" using assms(4) by (simp_all add: exposure_closed_def)
  from merge_seeds_Inr [OF live(1) assms(6,3)] obtain c where
    m: "merge_seeds env now (discoverySeeds (activeRelaysLocked e)) e = Inr (e\<lparr>ex_candidates := c\<rparr>)"
    and ok: "candidates_ok (e\<lparr>ex_candidates := c\<rparr>)" by blast
  define e1 where "e1 = e\<lparr>ex_candidates := c\<rparr>"
  define us where "us = selectRelays now (activeRelaysLocked e) (ex_udpEnabled e) c"
  define e2 where "e2 = adopt_relays us e1"
  define new where "new = take (nat (ex_maxDiscovered e - ex_discoveredCount e)) us"
  have w1: "wf_members e1" "wf_channels e1" "\<not> exposure_closed e1" "\<not> ex_updatesClosed e1"
    using assms by (simp_all add: e1_def wf_members_def wf_channels_def exposure_closed_def)
  have "activeRelaysLocked e1 = activeRelaysLocked e" by (simp add: e1_def activeRelaysLocked_def)
  then have u: "distinct us" "\<And>u. u \<in> set us \<Longrightarrow> u |\<notin>| fmdom (ex_statuses e1) \<and> u |\<notin>| ex_rejected e1"
    "list_all (\<lambda>u. normalizeRelay u = Inr u) us"
    using selectRelays_facts [where now = now and active = "activeRelaysLocked e" and udp = "ex_udpEnabled e" and c = c] ok
    by (auto simp: us_def activeRelaysLocked_def candidates_ok_def list_all_iff e1_def)
  have "added_list new False e1 e2"
    using adopt_relays_takes [OF u(3) w1(3,4) u(1,2)] by (simp add: e2_def e1_def new_def)
  note f = added_list_fields [OF this]
  have w2: "wf_members e2" "wf_channels e2" using wf_adopt_relays [OF w1(1,2)] by (simp_all add: e2_def)
  have cl: "ex_ctxDone e2 = ex_ctxDone e" "ex_closing e2 = ex_closing e" "ex_failedCount e2 = ex_failedCount e"
    using f by (simp_all add: settings_of_def e1_def)
  have r: "refreshDiscovery env now e = (if all_failed e2 then markExhausted e2 else e2)"
    using live m \<open>activeRelaysLocked e1 = activeRelaysLocked e\<close>
    by (simp add: refreshDiscovery_def Let_def adoptDiscoveredRelays_def e2_def e1_def us_def)
  have le: "ex_failedCount e \<le> ex_relayCount e"
  proof -
    have "ex_rejected e |\<subseteq>| fmdom (ex_statuses e)" using assms(1) by (auto simp: wf_members_def dest: fmdomI)
    then show ?thesis using assms(1) fcard_mono by (auto simp: wf_members_def)
  qed
  have rc: "ex_relayCount e2 = ex_relayCount e + int (length new)" using f by (simp add: e1_def)
  have "exhausted (refreshDiscovery env now e) \<longleftrightarrow> new = [] \<and> ex_relayCount e > 0 \<and> ex_failedCount e \<ge> ex_relayCount e"
    using rc le live cl markExhausted_fields(6) [OF w2(2)]
    by (cases new) (auto simp: r exhausted_def all_failed_def markExhausted_fields(4,5))
  moreover have "ex_started (refreshDiscovery env now e) = ex_started e @ new"
    "fmlookup (ex_statuses (refreshDiscovery env now e)) u = (if u \<in> set new then Some (connecting u) else fmlookup (ex_statuses e) u)" for u
    using f by (simp_all add: r markExhausted_fields(2,3) e1_def)
  ultimately show ?thesis using m by (auto simp: us_def new_def Let_def)
qed

section \<open>The lifecycle of a relay\<close>

text \<open>The specification of the membership: each relay is absent or in one of the states
  \<open>connecting\<close>, \<open>ready\<close> and \<open>failed\<close>, nothing changes after the exposure was closed, a failure is
  final, and discovery has a budget.\<close>

record member_spec =
  sp_states :: "string \<Rightarrow> RelayState option"
  sp_closed :: bool
  sp_budget :: int

datatype member_op = AddOp string bool | ReadyOp string string | FailedOp string go_error | DatagramOp string string

definition live_in :: "string \<Rightarrow> member_spec \<Rightarrow> bool" where
  "live_in u a \<longleftrightarrow> \<not> sp_closed a \<and> sp_states a u \<notin> {None, Some RelayFailed}"

fun spec_op :: "member_op \<Rightarrow> member_spec \<Rightarrow> member_spec" where
  "spec_op (AddOp u explicit) a =
     (if sp_closed a \<or> sp_states a u \<noteq> None \<or> (\<not> explicit \<and> sp_budget a \<le> 0) then a
      else a\<lparr>sp_states := (sp_states a)(u \<mapsto> RelayConnecting), sp_budget := sp_budget a - (if explicit then 0 else 1)\<rparr>)"
| "spec_op (ReadyOp u _) a = (if live_in u a then a\<lparr>sp_states := (sp_states a)(u \<mapsto> RelayReady)\<rparr> else a)"
| "spec_op (FailedOp u _) a = (if live_in u a then a\<lparr>sp_states := (sp_states a)(u \<mapsto> RelayFailed)\<rparr> else a)"
| "spec_op (DatagramOp _ _) a = a"

fun run_op :: "member_op \<Rightarrow> ('k, 'p) Exposure \<Rightarrow> ('k, 'p) Exposure" where
  "run_op (AddOp u explicit) e = fst (addRelay u explicit e)"
| "run_op (ReadyOp u url) e = markReady u url e"
| "run_op (FailedOp u err) e = markFailed u err e"
| "run_op (DatagramOp u addr) e = markDatagramReady u addr e"

fun op_ok :: "member_op \<Rightarrow> bool" where
  "op_ok (AddOp u _) \<longleftrightarrow> normalizeRelay u = Inr u"
| "op_ok _ \<longleftrightarrow> True"

definition member_view :: "('k, 'p) Exposure \<Rightarrow> member_spec" where
  "member_view e = \<lparr>sp_states = (\<lambda>u. map_option rs_State (fmlookup (ex_statuses e) u)),
     sp_closed = exposure_closed e, sp_budget = ex_maxDiscovered e - ex_discoveredCount e\<rparr>"

lemma member_view_cong:
  "ex_statuses e' = ex_statuses e \<Longrightarrow> exposure_closed e' = exposure_closed e \<Longrightarrow> ex_maxDiscovered e' = ex_maxDiscovered e \<Longrightarrow>
   ex_discoveredCount e' = ex_discoveredCount e \<Longrightarrow> member_view e' = member_view e"
  by (simp add: member_view_def)

lemma perform_settings:
  "ex_statuses (perform a e) = ex_statuses e" "exposure_closed (perform a e) = exposure_closed e"
  "ex_maxDiscovered (perform a e) = ex_maxDiscovered e" "ex_discoveredCount (perform a e) = ex_discoveredCount e"
  by (cases a; simp add: publish_defs closeAllFailed_def notifyStateChangedLocked_def drainAccepted_def exposure_closed_def)+

lemma member_view_perform [simp]: "member_view (perform a e) = member_view e"
  by (rule member_view_cong) (rule perform_settings)+

lemma member_view_perform_all [simp]: "member_view (perform_all as e) = member_view e"
  unfolding perform_all_def by (induction as arbitrary: e) simp_all

lemma ex_statuses_perform_all [simp]: "ex_statuses (perform_all as e) = ex_statuses e"
  unfolding perform_all_def by (induction as arbitrary: e) (simp_all add: perform_settings)

lemma set_status_view:
  "ex_statuses (set_status u st e) = fmupd u st (ex_statuses e)" "exposure_closed (set_status u st e) = exposure_closed e"
  "ex_maxDiscovered (set_status u st e) = ex_maxDiscovered e" "ex_discoveredCount (set_status u st e) = ex_discoveredCount e"
  by (simp_all add: set_status_def notifyStateChangedLocked_def exposure_closed_def)

lemma reportable_None:
  "reportable u e = None \<longleftrightarrow>
     fmlookup (ex_statuses e) u = None \<or> exposure_closed e \<or> (\<exists>st. fmlookup (ex_statuses e) u = Some st \<and> rs_State st = RelayFailed)"
  by (auto simp: reportable_def exposure_closed_def split: option.splits)

lemma not_live_view: "reportable u e = None \<Longrightarrow> \<not> live_in u (member_view e)"
  by (auto simp: live_in_def member_view_def reportable_None)

lemma live_view: "reportable u e = Some st \<Longrightarrow> live_in u (member_view e)"
  by (auto simp: live_in_def member_view_def reportable_Some)

lemma view_set_status:
  "member_view (set_status u st e) = (member_view e)\<lparr>sp_states := (sp_states (member_view e))(u \<mapsto> rs_State st)\<rparr>"
  by (auto simp: member_view_def set_status_view)

lemma view_same_state:
  "reportable u e = Some st \<Longrightarrow> rs_State st' = rs_State st \<Longrightarrow>
   (sp_states (member_view e))(u \<mapsto> rs_State st') = sp_states (member_view e)"
  by (auto simp: member_view_def reportable_Some)

lemma view_counts [simp]: "member_view (e\<lparr>ex_failedCount := n, ex_rejected := r\<rparr>) = member_view e"
  by (rule member_view_cong) (simp_all add: exposure_closed_def)

lemma view_mark_locked:
  "member_view (fst (markReady_locked u url e)) = spec_op (ReadyOp u url) (member_view e)"
  "member_view (fst (markFailed_locked u err e)) = spec_op (FailedOp u err) (member_view e)"
  "member_view (fst (markDatagramReady_locked u addr e)) = member_view e"
  by (cases "reportable u e";
      simp add: not_live_view live_view markReady_locked_def markFailed_locked_def markDatagramReady_locked_def Let_def
        view_set_status view_same_state)+

lemma view_mark:
  "member_view (markReady u url e) = spec_op (ReadyOp u url) (member_view e)"
  "member_view (markFailed u err e) = spec_op (FailedOp u err) (member_view e)"
  "member_view (markDatagramReady u addr e) = member_view e"
  using view_mark_locked [of u _ e]
  by (simp_all add: markReady_def markFailed_def markDatagramReady_def split_beta del: spec_op.simps)

lemma view_addRelay:
  fixes e :: "('k, 'p) Exposure"
  assumes "normalizeRelay u = Inr u" "wf_members e"
  shows "member_view (fst (addRelay u explicit e)) = spec_op (AddOp u explicit) (member_view e)"
proof -
  obtain s :: "('k, 'p) relaySupervisor" where s: "newRelaySupervisor u (ex_identity e) (ex_timings e) = Inr s"
    by (rule newRelaySupervisor_ok [OF assms(1)])
  have r: "u |\<in>| ex_rejected e \<Longrightarrow> fmlookup (ex_statuses e) u \<noteq> None" using assms(2) by (auto simp: wf_members_def)
  have "member_view (fst (addRelay u explicit e)) =
      member_view (fst (addRelay_locked u (s\<lparr>udpEnabled := ex_udpEnabled e\<rparr>) explicit e))"
    by (simp add: addRelay_fst s Let_def split: option.split)
  also have "\<dots> = spec_op (AddOp u explicit) (member_view e)"
    using r by (auto simp: Let_def addRelay_locked_def member_view_def exposure_closed_def fmdom_iff
        notifyStateChangedLocked_def rearmAllFailedLocked_def connecting_def)
  finally show ?thesis .
qed

lemma wf_run_op:
  assumes "wf_members e" "wf_channels e"
  shows "wf_members (run_op x e)" "wf_channels (run_op x e)"
  using wf_mark [OF assms] wf_addRelay [OF assms] by (cases x; simp)+

interpretation members: simulation op_ok "\<lambda>e a. wf_members e \<and> wf_channels e \<and> member_view e = a" run_op spec_op
proof
  fix x and e :: "('a, 'b) Exposure" and a
  assume "op_ok x" "wf_members e \<and> wf_channels e \<and> member_view e = a"
  then show "wf_members (run_op x e) \<and> wf_channels (run_op x e) \<and> member_view (run_op x e) = spec_op x a"
    by (cases x) (auto simp: wf_mark wf_addRelay view_mark view_addRelay simp del: spec_op.simps(1-3))
qed

text \<open>C8. The exposure refines the specification of the membership: any sequence of additions and status
  reports acts on the relays' states as the specification says, and keeps the invariants.\<close>

theorem exposure_refines_lifecycle:
  assumes "wf_members e" "wf_channels e" "list_all op_ok ops"
  shows "member_view (fold run_op ops e) = fold spec_op ops (member_view e) \<and>
    wf_members (fold run_op ops e) \<and> wf_channels (fold run_op ops e)"
  using members.sim_run [OF assms(3), of e] assms(1,2) by blast

lemma failed_fixed_op:
  assumes "wf_members e" "wf_channels e" "fmlookup (ex_statuses e) u = Some st" "rs_State st = RelayFailed"
  shows "fmlookup (ex_statuses (run_op x e)) u = Some st"
proof -
  have r: "reportable u e = None" using assms(3,4) by (simp add: reportable_None)
  then have "u \<noteq> v \<or> reportable v e = None" for v by auto
  then show ?thesis
    using assms(3) by (cases x)
      (auto simp: markReady_def markReady_locked_def markFailed_def markFailed_locked_def markDatagramReady_def
        markDatagramReady_locked_def addRelay_fst addRelay_locked_def Let_def set_status_view notifyStateChangedLocked_def
        rearmAllFailedLocked_def r fmdom_iff split: option.splits sum.splits)
qed

lemma failed_fixed:
  "wf_members e \<Longrightarrow> wf_channels e \<Longrightarrow> fmlookup (ex_statuses e) u = Some st \<Longrightarrow> rs_State st = RelayFailed \<Longrightarrow>
   wf_members (fold run_op ops e) \<and> fmlookup (ex_statuses (fold run_op ops e)) u = Some st"
  by (induction ops arbitrary: e) (simp_all add: failed_fixed_op wf_run_op)

text \<open>C9. A failure is final: whatever is reported or added later, the status of a failed relay keeps its
  error, the relay stays rejected and its supervisor is not started again.\<close>

theorem failure_is_final:
  assumes "wf_members e" "wf_channels e" "fmlookup (ex_statuses e) u = Some st" "rs_State st = RelayFailed"
  shows "fmlookup (ex_statuses (fold run_op ops e)) u = Some st \<and> u |\<in>| ex_rejected (fold run_op ops e) \<and>
    distinct (ex_started (fold run_op ops e))"
  using failed_fixed [OF assms, of ops] assms(4) by (auto simp: wf_members_def)

section \<open>The parts of an action\<close>

text \<open>An action is its atomic parts one after the other.\<close>

lemma perform_parts: "act_once a e = (e', rest) \<Longrightarrow> perform a e = perform_all rest e'"
  by (cases a) (auto simp: perform_all_def publishUpdate_def send_update_def split: if_splits)

lemma perform_all_parts: "act_once a e = (e', rest) \<Longrightarrow> perform_all (a # as) e = perform_all (rest @ as) e'"
  using perform_parts [of a e e' rest] by (simp add: perform_all_def)

section \<open>Witnesses\<close>

lemma sample_preconditions:
  "id_name (ec_Identity sample_config) \<noteq> []" "id_address (ec_Identity sample_config) \<noteq> []"
  "id_publicKey (ec_Identity sample_config) \<noteq> []" "NormalizeRelays (ec_Relays sample_config) = Inr [''https://rly.best'']"
  "int (length [''https://rly.best'']) + max_discovered (ec_MaxActiveRelays sample_config) < 2 ^ 33"
  by (simp_all add: sample_config_def sample_config_ok max_discovered_def defaultMaxActiveRelays_def)

lemma sample_exposed:
  obtains e :: "(byte list, unit) Exposure" where
    "exposeWithTimings (Some None) sample_config defaultRelayTimings = Some (Inr e)"
    "ex_statuses e = fmupd ''https://rly.best'' (connecting ''https://rly.best'') fmempty"
    "ex_started e = [''https://rly.best'']" "\<not> exposure_closed e" "\<not> ex_updatesClosed e"
    "wf_members e" "wf_channels e" "candidates_ok e" "\<not> ex_discoveryEnabled e" "ex_accepted e = []"
proof -
  from exposed [OF sample_preconditions] obtain e :: "(byte list, unit) Exposure" where e:
    "exposeWithTimings (Some None) sample_config defaultRelayTimings = Some (Inr e)" "ex_started e = [''https://rly.best'']"
    "\<forall>u. fmlookup (ex_statuses e) u = (if u \<in> set [''https://rly.best''] then Some (connecting u) else None)"
    "\<not> exposure_closed e" "\<not> ex_updatesClosed e" "wf_members e" "wf_channels e"
    "ex_discoveryEnabled e = (\<not> ec_DisableDiscovery sample_config)" "candidates_ok e" "ex_accepted e = []"
    by blast
  have "ex_statuses e = fmupd ''https://rly.best'' (connecting ''https://rly.best'') fmempty"
    using e(3) by (intro fmap_ext) auto
  moreover have "\<not> ex_discoveryEnabled e" using e(8) by (simp add: sample_config_def)
  ultimately show ?thesis using that e(1,2,4-7,9,10) by blast
qed

text \<open>The relay fails; without discovery the exposure is exhausted.\<close>

lemma sample_failed:
  obtains e :: "(byte list, unit) Exposure" and st where
    "wf_members e" "wf_channels e" "exhausted e" "fmlookup (ex_statuses e) ''https://rly.best'' = Some st"
    "rs_State st = RelayFailed"
proof -
  obtain e :: "(byte list, unit) Exposure" where e:
    "ex_statuses e = fmupd ''https://rly.best'' (connecting ''https://rly.best'') fmempty"
    "\<not> exposure_closed e" "wf_members e" "wf_channels e" "\<not> ex_discoveryEnabled e"
    by (rule sample_exposed)
  let ?u = "''https://rly.best''"
  have r: "reportable ?u e = Some (connecting ?u)" using e(1,2) by (simp add: reportable_Some connecting_def)
  have c: "ex_relayCount e = 1" "0 \<le> ex_failedCount e" using e(1,3) by (simp_all add: wf_members_def fcard_finsert_disjoint)
  note w = wf_mark(5,6) [OF e(3,4), of ?u EOF]
  have "ex_allFailed (markFailed ?u EOF e) \<and> ex_failedCount (markFailed ?u EOF e) = ex_failedCount e + 1 \<and>
      ex_relayCount (markFailed ?u EOF e) = 1"
    using r c e(4,5)
    by (auto simp: markFailed_def markFailed_locked_def Let_def set_status_def notifyStateChangedLocked_def perform_all_def
        exhaust_actions_def publish_defs closeAllFailed_def drainAccepted_def wf_channels_def)
  then have "exhausted (markFailed ?u EOF e)" using c by (simp add: exhausted_def)
  moreover have "fmlookup (ex_statuses (markFailed ?u EOF e)) ?u =
      Some ((connecting ?u)\<lparr>rs_State := RelayFailed, rs_Err := Some EOF\<rparr>)"
    by (simp add: markFailed_def markFailed_locked_def r Let_def set_status_view)
  ultimately show ?thesis using that [OF w] by fastforce
qed

theorem Relays_snapshot_witness:
  "\<exists>e :: (byte list, unit) Exposure. connecting ''https://rly.best'' \<in> set (Relays e) \<and> sorted (map rs_RelayURL (Relays e))"
proof -
  obtain e :: "(byte list, unit) Exposure" where e:
    "ex_statuses e = fmupd ''https://rly.best'' (connecting ''https://rly.best'') fmempty" "wf_members e"
    by (rule sample_exposed)
  have "fmlookup (ex_statuses e) (rs_RelayURL (connecting ''https://rly.best'')) = Some (connecting ''https://rly.best'')"
    by (simp add: connecting_def e(1))
  with Relays_snapshot [OF e(2)] show ?thesis by blast
qed

theorem exhausted_all_members_failed_witness:
  "\<exists>(e :: (byte list, unit) Exposure) st. exhausted e \<and> fmlookup (ex_statuses e) ''https://rly.best'' = Some st \<and>
     rs_State st = RelayFailed \<and> rs_Err st \<noteq> None"
proof -
  obtain e :: "(byte list, unit) Exposure" and st where e: "wf_members e" "exhausted e"
    "fmlookup (ex_statuses e) ''https://rly.best'' = Some st"
    by (rule sample_failed)
  from exhausted_all_members_failed [OF this] e show ?thesis by blast
qed

text \<open>An exposure with discovery, whose relay advertises another one.\<close>

definition discovering_config :: "byte list ExposeConfig" where
  "discovering_config = sample_config\<lparr>ec_DisableDiscovery := False\<rparr>"

definition advertising_discovery :: "unit discovery_env" where
  "advertising_discovery = sample_discovery\<lparr>json_DiscoveryResponse := \<lambda>_. Inr \<lparr>dr_ProtocolVersion = ''9'', dr_GeneratedAt = 0,
     dr_Relays = [sample_descriptor\<lparr>rd_APIHTTPSAddr := ''https://s-h.day''\<rparr>], dr_IncompatibleRelays = []\<rparr>\<rparr>"

lemma advertised_fetch:
  "fetch_discovery advertising_discovery c ''https://rly.best'' 0 =
     Inr (fmupd ''https://s-h.day'' \<lparr>dc_expiresAt = minute, dc_supportsUDP = True\<rparr> fmempty)"
proof -
  let ?d = "sample_descriptor\<lparr>rd_APIHTTPSAddr := ''https://s-h.day''\<rparr>"
  have a: "trim_space (rd_Address ?d) = ethereumAddress unit_crypto ()"
    by (simp add: sample_descriptor_def trim_ethereumAddress)
  have s: "base64_decode (trim_space (rd_Signature ?d)) = Some (replicate 65 27)" using sample_signature by simp
  have v: "verifyRelayDescriptor advertising_discovery ?d 0 = None"
    unfolding verifyRelayDescriptor_None s a
    by (simp add: trim_ethereumAddress advertising_discovery_def sample_discovery_def equal_fold_def)
  have d: "decodeDiscovery advertising_discovery \<lparr>rsp_status = 200, rsp_retry_after = [], rsp_body = [], rsp_body_error = None\<rparr> =
      Inr \<lparr>dr_ProtocolVersion = ''9'', dr_GeneratedAt = 0, dr_Relays = [?d], dr_IncompatibleRelays = []\<rparr>"
    by (simp add: decodeDiscovery_def readDiscoveryBody_def advertising_discovery_def sample_discovery_def
        discoveryProtocolVersion_def trim_space_all_graphic is_graphic_def maxDiscoveryResponseBytes_def)
  have x: "discovery_Do advertising_discovery cl r =
      Inr \<lparr>rsp_status = 200, rsp_retry_after = [], rsp_body = [], rsp_body_error = None\<rparr>" for cl r
    by (simp add: advertising_discovery_def sample_discovery_def)
  have n: "normalizeRelay ''https://s-h.day'' = Inr ''https://s-h.day''"
    using default_relays_canonical by (simp add: defaultRelays_def)
  have "fmupd u v m \<noteq> fmempty" for u :: string and v :: discoveryCandidate and m
    by (metis fmempty_lookup fmupd_lookup option.distinct(1))
  then show ?thesis
    by (simp add: fetch_discovery_def rly_best_url rly_best_discovery_url url_hostname_def pathDiscovery_def x d adopt_descriptor_def v n)
qed

lemma sorted_singleton: "sorted xs \<Longrightarrow> distinct xs \<Longrightarrow> set xs = {x} \<Longrightarrow> xs = [x :: string]"
  by (metis distinct_singleton empty_set list.simps(15) sorted_distinct_set_unique sorted1)

theorem refreshDiscovery_spec_witness:
  "\<exists>e :: (byte list, unit) Exposure. exposeWithTimings (Some None) discovering_config defaultRelayTimings = Some (Inr e) \<and>
     ex_started (refreshDiscovery advertising_discovery 0 e) = [''https://rly.best'', ''https://s-h.day'']"
proof -
  let ?u = "''https://rly.best''" and ?v = "''https://s-h.day''"
  let ?x = "\<lparr>dc_expiresAt = minute, dc_supportsUDP = True\<rparr>"
  have p: "id_name (ec_Identity discovering_config) \<noteq> []" "id_address (ec_Identity discovering_config) \<noteq> []"
    "id_publicKey (ec_Identity discovering_config) \<noteq> []" "NormalizeRelays (ec_Relays discovering_config) = Inr [?u]"
    "int (length [?u]) + max_discovered (ec_MaxActiveRelays discovering_config) < 2 ^ 33"
    using sample_preconditions by (simp_all add: discovering_config_def)
  from exposed [OF p] obtain e :: "(byte list, unit) Exposure" where e:
    "exposeWithTimings (Some None) discovering_config defaultRelayTimings = Some (Inr e)" "ex_started e = [?u]"
    "\<forall>u. fmlookup (ex_statuses e) u = (if u \<in> set [?u] then Some (connecting u) else None)"
    "\<not> exposure_closed e" "\<not> ex_updatesClosed e" "wf_members e" "wf_channels e"
    "ex_discoveryEnabled e = (\<not> ec_DisableDiscovery discovering_config)" "candidates_ok e"
    "ex_discoveryEnabled e \<longrightarrow> ex_discoveryClient e \<noteq> None" "ex_candidates e = newDiscoveryCandidates"
    "ex_rejected e = {||}" "ex_udpEnabled e = ec_UDPEnabled discovering_config" "ex_discoveredCount e = 0"
    "ex_maxDiscovered e = max_discovered (ec_MaxActiveRelays discovering_config)"
    by blast
  have st: "ex_statuses e = fmupd ?u (connecting ?u) fmempty" using e(3) by (intro fmap_ext) auto
  obtain cl where cl: "ex_discoveryClient e = Some cl" using e(8,10) by (auto simp: discovering_config_def)
  have act: "activeRelaysLocked e = {|?u|}" by (simp add: activeRelaysLocked_def st e(12))
  have seeds: "discoverySeeds {|?u|} = [?u]"
    unfolding discoverySeeds_def by (rule sorted_singleton) simp_all
  let ?c = "merge_candidates 0 (fmupd ?v ?x fmempty) newDiscoveryCandidates"
  have m: "merge_seeds advertising_discovery 0 [?u] e = Inr (e\<lparr>ex_candidates := ?c\<rparr>)"
    using e(4,11) cl by (simp add: exposure_closed_def advertised_fetch)
  have "set (selectRelays 0 {|?u|} False ?c) = {?v}"
    using selectRelays_exact [of 0 "{|?u|}" False ?c] by (auto simp: merge_lookup newDiscoveryCandidates_def split: if_splits)
  then have sel: "selectRelays 0 {|?u|} False ?c = [?v]"
    using selectRelays_exact [of 0 "{|?u|}" False ?c] by (intro sorted_singleton) simp_all
  have max: "nat (ex_maxDiscovered e - ex_discoveredCount e) = 8" "ex_udpEnabled e = False"
    by (simp_all add: e(13-15) discovering_config_def sample_config_def max_discovered_def defaultMaxActiveRelays_def)
  have "ex_discoveryClient e \<noteq> None" using cl by simp
  from refreshDiscovery_spec [OF e(6,7,9,4,5) this, of advertising_discovery 0, unfolded act seeds Let_def max] obtain c where
    c: "merge_seeds advertising_discovery 0 [?u] e = Inr (e\<lparr>ex_candidates := c\<rparr>)"
    "ex_started (refreshDiscovery advertising_discovery 0 e) = ex_started e @ take 8 (selectRelays 0 {|?u|} False c)"
    by blast
  have "e\<lparr>ex_candidates := ?c\<rparr> = e\<lparr>ex_candidates := c\<rparr>" using trans [OF m [symmetric] c(1)] by (rule sum.inject(2) [THEN iffD1])
  then have "ex_candidates (e\<lparr>ex_candidates := ?c\<rparr>) = ex_candidates (e\<lparr>ex_candidates := c\<rparr>)" by (rule arg_cong)
  moreover have "ex_candidates (e\<lparr>ex_candidates := x\<rparr>) = x" for x by simp
  ultimately have "?c = c" by metis
  with c(2) sel have "ex_started (refreshDiscovery advertising_discovery 0 e) = [?u] @ take 8 [?v]" by (simp only: e(2))
  with e(1) show ?thesis by (intro exI [of _ e]) simp
qed

theorem exposure_refines_lifecycle_witness:
  "\<exists>e :: (byte list, unit) Exposure. member_view (fold run_op [ReadyOp ''https://rly.best'' []] e) =
     fold spec_op [ReadyOp ''https://rly.best'' []] (member_view e)"
proof -
  obtain e :: "(byte list, unit) Exposure" where e: "wf_members e" "wf_channels e" by (rule sample_exposed)
  have "list_all op_ok [ReadyOp ''https://rly.best'' []]" by simp
  from exposure_refines_lifecycle [OF e this] show ?thesis by blast
qed

theorem failure_is_final_witness:
  "\<exists>(e :: (byte list, unit) Exposure) st.
     fmlookup (ex_statuses (fold run_op [AddOp ''https://rly.best'' True, ReadyOp ''https://rly.best'' []] e)) ''https://rly.best'' = Some st \<and>
     rs_State st = RelayFailed"
proof -
  obtain e :: "(byte list, unit) Exposure" and st where e: "wf_members e" "wf_channels e"
    "fmlookup (ex_statuses e) ''https://rly.best'' = Some st" "rs_State st = RelayFailed"
    by (rule sample_failed)
  from failure_is_final [OF this] e(4) show ?thesis by blast
qed

end
