(* ===== verification/ExposureSteps.thy ===== *)
theory ExposureSteps
  imports Exposure
begin

text \<open>
  The exposure under concurrency (\<open>src/exposure.go\<close>): the goroutines of the caller, of the relay
  supervisors and of discovery as an interleaving of their atomic regions.

  A world is the exposure with the actions that goroutines still have to perform after a locked region
  (\<open>w_pool\<close>, with the goroutine that owns them: a relay's supervisor, or \<open>None\<close> for the goroutine that
  adds relays), the relays whose supervisor is counted by the wait group \<open>supervisors\<close>
  (\<open>w_running\<close>), and the progress of the goroutine that adds relays (\<open>w_adder\<close>): the loop of
  \<open>addRelays\<close>, then \<open>runDiscovery\<close>. What the relays report, which relays discovery proposes, when
  a supervisor ends and when the context is cancelled is left open: \<open>cancel\<close> stands for the parent's
  cancellation and for the call in \<open>Close\<close>, and \<open>supervisor_done\<close> for every way in which a
  supervisor may end. The relation therefore has at least the schedules of the code, which is what the
  invariants need; it says nothing on whether a goroutine gets its turn. The mutex itself, and who can
  wait for whom on it, is the subject of \<open>ExposureLocks\<close>.

  A publication takes up to three steps (\<open>act_once\<close>), between which other goroutines publish and read.
  Three pairs of adjacent actions are one step each, where the code has a window between them: the
  receive of \<open>Accept\<close> with the check and the \<open>Close\<close> after it, so that a connection in the hands of
  \<open>Accept\<close> is not seen; the two critical sections of \<open>terminalState\<close>; and \<open>failedOnce.Do\<close> with the
  \<open>close\<close> inside it, which the code does not order with the assignment of \<open>rearmAllFailedLocked\<close>.

  The lemmas show for every reachable world that the counters and queues are consistent, that no send
  hits a closed channel, that a total failure is signalled, that a blocked caller is woken, and that
  \<open>Close\<close> leaves no goroutine and no connection behind.
\<close>

section \<open>Worlds and steps\<close>

datatype adder = Starting "string list" | Discovering | AdderDone

record ('k, 'p) world =
  w_ex :: "('k, 'p) Exposure"
  w_pool :: "(string option \<times> action list) list"
  w_running :: "string fset"
  w_adder :: adder

definition push :: "string option \<Rightarrow> action list \<Rightarrow> (string option \<times> action list) list \<Rightarrow> (string option \<times> action list) list" where
  "push who as pool = (if as = [] then pool else (who, as) # pool)"

definition idle :: "string option \<Rightarrow> ('k, 'p) world \<Rightarrow> bool" where
  "idle who w \<longleftrightarrow> who \<notin> fst ` set (w_pool w)"

definition pending :: "('k, 'p) world \<Rightarrow> action set" where
  "pending w = \<Union> (set ` snd ` set (w_pool w))"

text \<open>After a locked region of the goroutine \<open>who\<close>.\<close>

definition leave :: "string option \<Rightarrow> ('k, 'p) Exposure \<times> action list \<Rightarrow> ('k, 'p) world \<Rightarrow> ('k, 'p) world" where
  "leave who r w = w\<lparr>w_ex := fst r, w_pool := push who (snd r) (w_pool w)\<rparr>"

definition with_ex :: "('k, 'p) world \<Rightarrow> ('k, 'p) Exposure \<Rightarrow> ('k, 'p) world" where
  "with_ex w e = w\<lparr>w_ex := e\<rparr>"

inductive ex_step :: "('k, 'p) world \<Rightarrow> ('k, 'p) world \<Rightarrow> bool" where
  start_add: "w_adder w = Starting (u # us) \<Longrightarrow> idle None w \<Longrightarrow> addRelay_locked u sv True (w_ex w) = (e', Some as) \<Longrightarrow>
    ex_step w ((leave None (e', as) w)\<lparr>w_running := finsert u (w_running w), w_adder := Starting us\<rparr>)"
| start_skip: "w_adder w = Starting (u # us) \<Longrightarrow> idle None w \<Longrightarrow> addRelay_locked u sv True (w_ex w) = (e', None) \<Longrightarrow>
    ex_step w (w\<lparr>w_adder := Starting us\<rparr>)"
| start_done: "w_adder w = Starting [] \<Longrightarrow> idle None w \<Longrightarrow>
    ex_step w (w\<lparr>w_adder := (if ex_discoveryEnabled (w_ex w) then Discovering else AdderDone)\<rparr>)"
| discover_merge: "w_adder w = Discovering \<Longrightarrow> idle None w \<Longrightarrow>
    ex_step w (with_ex w ((w_ex w)\<lparr>ex_candidates := c, ex_discoveryKick := kick\<rparr>))"
| discover_add: "w_adder w = Discovering \<Longrightarrow> idle None w \<Longrightarrow> addRelay_locked u sv False (w_ex w) = (e', Some as) \<Longrightarrow>
    ex_step w ((leave None (e', as) w)\<lparr>w_running := finsert u (w_running w), w_adder := Discovering\<rparr>)"
| discover_exhausted: "w_adder w = Discovering \<Longrightarrow> idle None w \<Longrightarrow> all_failed (w_ex w) \<Longrightarrow>
    ex_step w (leave None (w_ex w, exhaust_actions) w)"
| discover_stop: "w_adder w = Discovering \<Longrightarrow> idle None w \<Longrightarrow> ex_ctxDone (w_ex w) \<Longrightarrow>
    ex_step w (w\<lparr>w_adder := AdderDone\<rparr>)"
| report_ready: "u |\<in>| w_running w \<Longrightarrow> ex_step w (leave (Some u) (markReady_locked u url (w_ex w)) w)"
| report_datagram: "u |\<in>| w_running w \<Longrightarrow> ex_step w (leave (Some u) (markDatagramReady_locked u addr (w_ex w)) w)"
| report_failed: "u |\<in>| w_running w \<Longrightarrow> ex_step w (leave (Some u) (markFailed_locked u err (w_ex w)) w)"
| report_cleanup: "u |\<in>| w_running w \<Longrightarrow> ex_step w (with_ex w (record_cleanup u cleanupErr (w_ex w)))"
| act: "w_pool w = before @ (who, a # as) # after \<Longrightarrow> act_once a (w_ex w) = (e', rest) \<Longrightarrow>
    ex_step w (w\<lparr>w_ex := e', w_pool := before @ push who (rest @ as) after\<rparr>)"
| supervisor_done: "u |\<in>| w_running w \<Longrightarrow> idle (Some u) w \<Longrightarrow> ex_step w (w\<lparr>w_running := w_running w - {|u|}\<rparr>)"
| offer_conn: "u |\<in>| w_running w \<Longrightarrow> (e', r) \<in> set (offer relayDone (Some conn) (w_ex w)) \<Longrightarrow> ex_step w (with_ex w e')"
| offer_frame: "u |\<in>| w_running w \<Longrightarrow> (e', r) \<in> set (offerDatagram relayDone frame (w_ex w)) \<Longrightarrow> ex_step w (with_ex w e')"
| accept_conn: "(e', r) \<in> set (accept_select changed signal (w_ex w)) \<Longrightarrow> ex_step w (with_ex w e')"
| accept_frame: "(e', r) \<in> set (accept_datagram_select changed signal (w_ex w)) \<Longrightarrow> ex_step w (with_ex w e')"
| send_frame: "SendDatagram outcome frame (w_ex w) = Some (e', err) \<Longrightarrow> ex_step w (with_ex w e')"
| read_update: "ex_updates (w_ex w) = st # rest \<Longrightarrow> ex_step w (with_ex w ((w_ex w)\<lparr>ex_updates := rest\<rparr>))"
| cancel: "ex_step w (with_ex w ((w_ex w)\<lparr>ex_ctxDone := True\<rparr>))"
| close_begin: "(\<nexists>us. w_adder w = Starting us) \<Longrightarrow> ex_step w (with_ex w (Close_begin (w_ex w)))"
| close_finish: "ex_closing (w_ex w) \<Longrightarrow> ex_ctxDone (w_ex w) \<Longrightarrow> w_running w = {||} \<Longrightarrow> w_adder w = AdderDone \<Longrightarrow>
    \<not> ex_closeDone (w_ex w) \<Longrightarrow> ex_step w (with_ex w (Close_finish (w_ex w)))"

text \<open>The world in which \<open>exposeWithTimings\<close> starts to add the relays.\<close>

definition ex_init :: "('k, 'p) world \<Rightarrow> bool" where
  "ex_init w \<longleftrightarrow> (\<exists>cfg tm relays. NormalizeRelays (ec_Relays cfg) = Inr relays \<and>
     int (length relays) + max_discovered (ec_MaxActiveRelays cfg) < 2 ^ 55 \<and>
     new_exposure cfg (withDefaults tm) (length relays) = Some (w_ex w) \<and>
     w_pool w = [] \<and> w_running w = {||} \<and> w_adder w = Starting relays)"

section \<open>Frame lemmas\<close>

text \<open>What a locked region leaves alone.\<close>

definition frame_of :: "('k, 'p) Exposure \<Rightarrow> _" where
  "frame_of e = (ex_ctxDone e, ex_closing e, ex_updatesClosed e, ex_closeDone e, ex_panicked e, ex_discoveryEnabled e,
     ex_accepted e)"

lemma frame_set_status: "frame_of (set_status u st e) = frame_of e"
  by (simp add: frame_of_def set_status_def notifyStateChangedLocked_def)

lemma frame_locked:
  "frame_of (fst (markReady_locked u url e)) = frame_of e"
  "frame_of (fst (markDatagramReady_locked u addr e)) = frame_of e"
  "frame_of (fst (markFailed_locked u err e)) = frame_of e"
  "frame_of (fst (addRelay_locked u sv explicit e)) = frame_of e"
  by (simp_all add: markReady_locked_def markDatagramReady_locked_def markFailed_locked_def Let_def frame_set_status
      split: option.split)
    (auto simp: frame_of_def addRelay_locked_def Let_def notifyStateChangedLocked_def rearmAllFailedLocked_def)

section \<open>Consistency\<close>

definition wf_ex :: "('k, 'p) Exposure \<Rightarrow> bool" where
  "wf_ex e \<longleftrightarrow> wf_members e \<and> wf_channels e"

text \<open>An operation that touches neither the membership nor the channels.\<close>

lemma wf_ex_cong: "members_of e = members_of e' \<Longrightarrow> channels_of e = channels_of e' \<Longrightarrow> wf_ex e = wf_ex e'"
  by (simp add: wf_ex_def wf_members_cong [of e e'] wf_channels_cong [of e e'])

lemma wf_ex_offer: "wf_ex e \<Longrightarrow> (e', r) \<in> set (offer relayDone (Some c) e) \<Longrightarrow> wf_ex e'"
  by (auto simp: wf_ex_def offer_def wf_members_def wf_channels_def split: if_splits)

lemma wf_ex_offerDatagram: "wf_ex e \<Longrightarrow> (e', r) \<in> set (offerDatagram relayDone frame e) \<Longrightarrow> wf_ex e'"
  by (auto simp: wf_ex_def offerDatagram_def wf_members_def wf_channels_def Let_def split: if_splits)

lemma accept_select_state:
  assumes "(e', r) \<in> set (accept_select changed signal e)"
  shows "e' = e \<or> (\<exists>conn rest. ex_accepted e = conn # rest \<and>
      (e' = e\<lparr>ex_accepted := rest, ex_discarded := ex_discarded e @ [conn]\<rparr> \<or>
       e' = e\<lparr>ex_accepted := rest, ex_delivered := ex_delivered e @ [conn]\<rparr>))"
  using assms by (cases "ex_accepted e") (auto simp: accept_select_def Let_def split: option.splits)

lemma wf_ex_accept:
  assumes "wf_ex e" "(e', r) \<in> set (accept_select changed signal e)"
  shows "wf_ex e'"
  using accept_select_state [OF assms(2)] assms(1)
  by (elim disjE exE conjE) (simp_all add: wf_ex_def wf_members_def wf_channels_def)

lemma accept_datagram_state:
  assumes "(e', r) \<in> set (accept_datagram_select changed signal e)"
  shows "e' = e \<or> (\<exists>frame rest. ex_datagrams e = frame # rest \<and> e' = e\<lparr>ex_datagrams := rest\<rparr>)"
  using assms by (cases "ex_datagrams e") (auto simp: accept_datagram_select_def)

lemma wf_ex_accept_datagram:
  assumes "wf_ex e" "(e', r) \<in> set (accept_datagram_select changed signal e)"
  shows "wf_ex e'"
  using accept_datagram_state [OF assms(2)] assms(1)
  by (elim disjE exE conjE) (simp_all add: wf_ex_def wf_members_def wf_channels_def)

lemma SendDatagram_state:
  assumes "SendDatagram outcome frame e = Some (e', err)"
  shows "e' = e \<or> (\<exists>s'. RelayURL frame |\<in>| fmdom (ex_supervisors e) \<and>
     e' = e\<lparr>ex_supervisors := fmupd (RelayURL frame) s' (ex_supervisors e)\<rparr>)"
proof (cases "fmlookup (ex_supervisors e) (RelayURL frame)")
  case None
  with assms show ?thesis by (simp add: SendDatagram_def split: if_splits)
next
  case (Some s)
  then have "RelayURL frame |\<in>| fmdom (ex_supervisors e)" by (simp add: fmdom_iff)
  with assms Some show ?thesis
    by (cases "sendDatagram outcome frame s") (auto simp: SendDatagram_def split: if_splits)
qed

lemma wf_ex_SendDatagram:
  assumes "wf_ex e" "SendDatagram outcome frame e = Some (e', err)"
  shows "wf_ex e'"
  using SendDatagram_state [OF assms(2)] assms(1)
  by (elim disjE exE conjE) (simp_all add: wf_ex_def wf_members_def wf_channels_def finsert_absorb)

lemma wf_ex_act: "wf_ex e \<Longrightarrow> act_once a e = (e', rest) \<Longrightarrow> wf_ex e'"
proof (cases a)
  fix st
  assume a: "wf_ex e" "act_once a e = (e', rest)"
  have m: "wf_members (send_update st e) = wf_members e" "wf_members (drop_update e) = wf_members e"
    by (rule wf_members_cong; simp add: members_of_def send_update_def drop_update_def)+
  show "a = Publish st \<Longrightarrow> wf_ex e'" "a = PublishDrop st \<Longrightarrow> wf_ex e'" "a = PublishAgain st \<Longrightarrow> wf_ex e'"
    using a by (auto simp: wf_ex_def m wf_channels_send_update wf_channels_drop_update)
qed (auto simp: wf_ex_def wf_channels_perform simp flip: perform.simps)

lemma wf_ex_locked:
  assumes "wf_ex e"
  shows "wf_ex (fst (markReady_locked u url e))" "wf_ex (fst (markDatagramReady_locked u addr e))"
    "wf_ex (fst (markFailed_locked u err e))" "wf_ex (fst (addRelay_locked u sv explicit e))"
  using assms by (simp_all add: wf_ex_def wf_members_locked wf_channels_locked)

lemma wf_ex_added: "wf_ex e \<Longrightarrow> addRelay_locked u sv explicit e = (e', r) \<Longrightarrow> wf_ex e'"
  using wf_ex_locked(4) [of e u sv explicit] by simp

lemma wf_ex_finish: "wf_ex e \<Longrightarrow> wf_ex (Close_finish e)"
  by (auto simp: wf_ex_def Close_finish_def drainAccepted_def wf_members_def wf_channels_def)

lemma wf_ex_fields:
  "wf_ex (e\<lparr>ex_candidates := c, ex_discoveryKick := k\<rparr>) = wf_ex e" "wf_ex (e\<lparr>ex_ctxDone := b\<rparr>) = wf_ex e"
  "wf_ex (Close_begin e) = wf_ex e" "wf_ex (record_cleanup u cl e) = wf_ex e"
  by (rule wf_ex_cong; simp add: members_of_def channels_of_def Close_begin_def record_cleanup_def split: option.split)+

lemma wf_ex_read: "wf_ex e \<Longrightarrow> ex_updates e = st # rest \<Longrightarrow> wf_ex (e\<lparr>ex_updates := rest\<rparr>)"
  using suffix_ConsD [of st rest "ex_sent e"] by (simp add: wf_ex_def wf_members_def wf_channels_def)

lemma wf_ex_step: "ex_step w w' \<Longrightarrow> wf_ex (w_ex w) \<Longrightarrow> wf_ex (w_ex w')"
  by (induction rule: ex_step.induct)
    (simp_all add: leave_def with_ex_def wf_ex_fields wf_ex_locked wf_ex_added wf_ex_finish wf_ex_read,
      (blast intro: wf_ex_act wf_ex_offer wf_ex_offerDatagram wf_ex_accept wf_ex_accept_datagram wf_ex_SendDatagram)+)

lemma new_exposure_open: "new_exposure cfg tm n = Some e \<Longrightarrow> \<not> ex_closeDone e"
  by (auto simp: new_exposure_def Let_def split: option.splits)

lemma ex_init_facts:
  fixes w :: "('k, 'p) world"
  assumes "ex_init w"
  shows "wf_ex (w_ex w)" "\<not> exposure_closed (w_ex w)" "\<not> ex_updatesClosed (w_ex w)" "\<not> ex_panicked (w_ex w)"
    "ex_relayCount (w_ex w) = 0" "\<not> ex_closeDone (w_ex w)" "w_pool w = []" "w_running w = {||}"
    "\<exists>us. w_adder w = Starting us" "ex_statuses (w_ex w) = fmempty" "ex_updatesCapacity (w_ex w) > 0"
proof -
  from assms obtain cfg tm relays where i: "int (length relays) + max_discovered (ec_MaxActiveRelays cfg) < 2 ^ 55"
    "new_exposure cfg (withDefaults tm) (length relays) = Some (w_ex w)" "w_pool w = []" "w_running w = {||}"
    "w_adder w = Starting relays"
    unfolding ex_init_def by blast
  note e = new_exposure_facts [OF i(1,2)]
  show "wf_ex (w_ex w)" "\<not> exposure_closed (w_ex w)" "\<not> ex_updatesClosed (w_ex w)" "\<not> ex_panicked (w_ex w)"
    "ex_relayCount (w_ex w) = 0" "ex_statuses (w_ex w) = fmempty" "ex_updatesCapacity (w_ex w) > 0"
    using e by (simp_all add: wf_ex_def)
  show "\<not> ex_closeDone (w_ex w)"
    by (rule new_exposure_open [OF i(2)])
qed (use assms in \<open>auto simp: ex_init_def\<close>)

section \<open>Ownership of pending actions\<close>

text \<open>Every pending action belongs to a goroutine that \<open>Close\<close> waits for, the updates channel is closed
  only by the end of \<open>Close\<close>, and nothing has panicked.\<close>

fun tail_ok :: "action list \<Rightarrow> bool" where
  "tail_ok [] \<longleftrightarrow> True"
| "tail_ok (CloseAllFailed # as) \<longleftrightarrow> NotifyState \<in> set as \<and> tail_ok as"
| "tail_ok (_ # as) \<longleftrightarrow> tail_ok as"

fun owned :: "adder \<Rightarrow> string fset \<Rightarrow> string option \<times> action list \<Rightarrow> bool" where
  "owned ad run (None, as) \<longleftrightarrow> tail_ok as \<and> ad \<noteq> AdderDone"
| "owned ad run (Some u, as) \<longleftrightarrow> tail_ok as \<and> u |\<in>| run"

fun_cases ownedE: "owned ad run x"

definition orderly :: "('k, 'p) world \<Rightarrow> bool" where
  "orderly w \<longleftrightarrow> list_all (owned (w_adder w) (w_running w)) (w_pool w) \<and> \<not> ex_panicked (w_ex w) \<and>
     (ex_updatesClosed (w_ex w) \<longleftrightarrow> ex_closeDone (w_ex w)) \<and>
     (ex_closeDone (w_ex w) \<longrightarrow> w_running w = {||} \<and> w_adder w = AdderDone \<and>
        ex_closing (w_ex w) \<and> ex_ctxDone (w_ex w) \<and> ex_accepted (w_ex w) = [])"

lemma tail_ok_exhaust [simp]: "tail_ok exhaust_actions"
  by (simp add: exhaust_actions_def)

lemma tail_ok_locked:
  "tail_ok (snd (markReady_locked u url e))" "tail_ok (snd (markDatagramReady_locked u addr e))"
  "tail_ok (snd (markFailed_locked u err e))"
  by (simp_all add: markReady_locked_def markDatagramReady_locked_def markFailed_locked_def Let_def split: option.split)

lemma list_all_push: "list_all P (push who as pool) \<longleftrightarrow> (as \<noteq> [] \<longrightarrow> P (who, as)) \<and> list_all P pool"
  by (simp add: push_def)

lemma owned_more:
  assumes "ad' \<noteq> AdderDone \<or> ad' = ad" "run |\<subseteq>| run'" "list_all (owned ad run) pool"
  shows "list_all (owned ad' run') pool"
proof -
  have "owned ad run x \<Longrightarrow> owned ad' run' x" for x
    using assms(1,2) by (cases "(ad, run, x)" rule: owned.cases) auto
  then show ?thesis using assms(3) by (auto simp: list_all_iff)
qed

text \<open>Steps that neither end a goroutine nor finish \<open>Close\<close>.\<close>

lemma frame_fields:
  "frame_of e' = frame_of e \<Longrightarrow> ex_panicked e' = ex_panicked e \<and> ex_updatesClosed e' = ex_updatesClosed e \<and>
     ex_closeDone e' = ex_closeDone e \<and> ex_closing e' = ex_closing e \<and> ex_ctxDone e' = ex_ctxDone e \<and>
     ex_accepted e' = ex_accepted e"
  by (simp add: frame_of_def)

lemma orderly_frame:
  "orderly w \<Longrightarrow> frame_of e' = frame_of (w_ex w) \<Longrightarrow> orderly (with_ex w e')"
  using frame_fields [of e' "w_ex w"] by (auto simp: orderly_def with_ex_def)

lemma orderly_leave:
  assumes "orderly w" "frame_of (fst r) = frame_of (w_ex w)" "snd r \<noteq> [] \<Longrightarrow> owned (w_adder w) (w_running w) (who, snd r)"
  shows "orderly (leave who r w)"
  using assms(1,3) frame_fields [OF assms(2)] by (auto simp: orderly_def leave_def list_all_push)

lemmas act_defs = send_update_def drop_update_def closeAllFailed_def notifyStateChangedLocked_def drainAccepted_def

lemma act_keeps:
  "ex_updatesClosed (fst (act_once a e)) = ex_updatesClosed e" "ex_closeDone (fst (act_once a e)) = ex_closeDone e"
  "ex_updatesCapacity (fst (act_once a e)) = ex_updatesCapacity e" "ex_relayCount (fst (act_once a e)) = ex_relayCount e"
  "ex_failedCount (fst (act_once a e)) = ex_failedCount e" "ex_discoveryEnabled (fst (act_once a e)) = ex_discoveryEnabled e"
  "ex_statuses (fst (act_once a e)) = ex_statuses e"
  by (cases a; simp add: act_defs)+

lemma act_panics: "wf_ex e \<Longrightarrow> \<not> ex_updatesClosed e \<Longrightarrow> ex_panicked (fst (act_once a e)) = ex_panicked e"
  by (cases a) (simp_all add: act_defs wf_ex_def wf_channels_def)

lemma act_frame:
  assumes "\<not> ex_panicked e" "\<not> ex_updatesClosed e" "wf_ex e" "act_once a e = (e', rest)"
  shows "\<not> ex_panicked e'" "ex_updatesClosed e' = ex_updatesClosed e" "ex_closeDone e' = ex_closeDone e"
  using act_keeps(1,2) [of a e] act_panics [OF assms(3,2), of a] assms(1,4) by simp_all

lemma tail_ok_rest: "act_once a e = (e', rest) \<Longrightarrow> tail_ok (a # as) \<Longrightarrow> tail_ok (rest @ as)"
  by (cases a) (auto split: if_splits)

lemma orderly_open: "orderly w \<Longrightarrow> w_pool w \<noteq> [] \<Longrightarrow> \<not> ex_closeDone (w_ex w) \<and> \<not> ex_updatesClosed (w_ex w)"
  by (cases "w_pool w") (auto simp: orderly_def elim!: ownedE)

lemma orderly_act:
  assumes "orderly w" "wf_ex (w_ex w)" "w_pool w = before @ (who, a # as) # after" "act_once a (w_ex w) = (e', rest)"
  shows "orderly (w\<lparr>w_ex := e', w_pool := before @ push who (rest @ as) after\<rparr>)"
proof -
  have o: "\<not> ex_closeDone (w_ex w)" "\<not> ex_updatesClosed (w_ex w)" "\<not> ex_panicked (w_ex w)"
    using orderly_open [OF assms(1)] assms(1,3) by (auto simp: orderly_def)
  have "owned ad run (who, a # as) \<Longrightarrow> owned ad run (who, rest @ as)" for ad run
    using tail_ok_rest [OF assms(4)] by (cases who) simp_all
  then have "list_all (owned (w_adder w) (w_running w)) (before @ push who (rest @ as) after)"
    using assms(1,3) by (auto simp: orderly_def list_all_push)
  then show ?thesis using o act_frame [OF o(3,2) assms(2,4)] by (simp add: orderly_def)
qed

lemma orderly_added:
  assumes "orderly w" "addRelay_locked u sv explicit (w_ex w) = (e', Some as)" "w_adder w \<noteq> AdderDone" "ad \<noteq> AdderDone"
  shows "orderly ((leave None (e', as) w)\<lparr>w_running := finsert u (w_running w), w_adder := ad\<rparr>)"
proof -
  have a: "as = [Publish (connecting u)]" by (rule addRelay_locked_Some(5) [OF assms(2)])
  have f: "frame_of e' = frame_of (w_ex w)" using frame_locked(4) [of u sv explicit "w_ex w"] assms(2) by simp
  have n: "\<not> ex_closeDone (w_ex w)" using assms(1,3) by (auto simp: orderly_def)
  have "list_all (owned (w_adder w) (w_running w)) (push None as (w_pool w))"
    using assms(1,3) by (simp add: list_all_push orderly_def a)
  then have "list_all (owned ad (finsert u (w_running w))) (push None as (w_pool w))"
    by (rule owned_more [rotated 2]) (use assms(4) in auto)
  then show ?thesis using assms(1) frame_fields [OF f] n by (auto simp: orderly_def leave_def)
qed

lemma orderly_adder: "orderly w \<Longrightarrow> w_adder w \<noteq> AdderDone \<Longrightarrow> ad \<noteq> AdderDone \<Longrightarrow> orderly (w\<lparr>w_adder := ad\<rparr>)"
  using owned_more [of ad "w_adder w" "w_running w" "w_running w" "w_pool w"] by (auto simp: orderly_def)

lemma owned_less:
  assumes "list_all (owned ad run) pool" "ad' = AdderDone \<Longrightarrow> ad \<noteq> AdderDone \<Longrightarrow> None \<notin> fst ` set pool"
    "\<And>u. u |\<in>| run \<Longrightarrow> u |\<notin>| run' \<Longrightarrow> Some u \<notin> fst ` set pool"
  shows "list_all (owned ad' run') pool"
  unfolding list_all_iff
proof
  fix x
  assume x: "x \<in> set pool"
  then have "owned ad run x" "fst x \<in> fst ` set pool" using assms(1) by (auto simp: list_all_iff)
  then show "owned ad' run' x" using assms(2,3) by (cases "(ad, run, x)" rule: owned.cases) auto
qed

lemma orderly_adder_done:
  assumes "orderly w" "w_adder w \<noteq> AdderDone" "idle None w"
  shows "orderly (w\<lparr>w_adder := AdderDone\<rparr>)"
  using assms owned_less [of "w_adder w" "w_running w" "w_pool w" AdderDone "w_running w"]
  by (auto simp: orderly_def idle_def)

lemma orderly_supervisor_done:
  assumes "orderly w" "idle (Some u) w"
  shows "orderly (w\<lparr>w_running := w_running w - {|u|}\<rparr>)"
  using assms owned_less [of "w_adder w" "w_running w" "w_pool w" "w_adder w" "w_running w - {|u|}"]
  by (auto simp: orderly_def idle_def)

lemma orderly_close_finish:
  assumes "orderly w" "ex_closing (w_ex w)" "ex_ctxDone (w_ex w)" "w_running w = {||}" "w_adder w = AdderDone"
  shows "orderly (with_ex w (Close_finish (w_ex w)))" "w_pool w = []"
proof -
  show "w_pool w = []"
    using assms by (cases "w_pool w") (auto simp: orderly_def elim!: ownedE)
  then show "orderly (with_ex w (Close_finish (w_ex w)))"
    using assms by (simp add: orderly_def with_ex_def Close_finish_def drainAccepted_def)
qed

text \<open>The steps of the fan-in keep the frame except for the accepted connections, which only a running
  supervisor adds.\<close>

lemma orderly_with:
  assumes "orderly w" "ex_panicked e' = ex_panicked (w_ex w)" "ex_updatesClosed e' = ex_updatesClosed (w_ex w)"
    "ex_closeDone e' = ex_closeDone (w_ex w)" "ex_closing (w_ex w) \<Longrightarrow> ex_closing e'" "ex_ctxDone (w_ex w) \<Longrightarrow> ex_ctxDone e'"
    "ex_accepted e' = [] \<or> ex_accepted (w_ex w) \<noteq> [] \<or> w_running w \<noteq> {||}"
  shows "orderly (with_ex w e')"
  using assms by (auto simp: orderly_def with_ex_def)

lemma offer_state:
  "(e', r) \<in> set (offer relayDone (Some c) e) \<Longrightarrow>
   e' = e \<or> e' = e\<lparr>ex_accepted := ex_accepted e @ [c], ex_offered := ex_offered e @ [c]\<rparr>"
  by (auto simp: offer_def split: if_splits)

lemma offerDatagram_state:
  "(e', r) \<in> set (offerDatagram relayDone frame e) \<Longrightarrow> e' = e \<or> e' = e\<lparr>ex_datagrams := ex_datagrams e @ [frame]\<rparr>"
  by (auto simp: offerDatagram_def Let_def split: if_splits)

lemma orderly_init: "ex_init w \<Longrightarrow> orderly w"
  using ex_init_facts [of w] by (auto simp: orderly_def)

lemma orderly_step:
  assumes "ex_step w w'" "wf_ex (w_ex w)" "orderly w"
  shows "orderly w'"
  using assms
proof (induction rule: ex_step.induct)
  case (start_add w u us sv e' as)
  then show ?case using orderly_added [of w u sv True e' as "Starting us"] by simp
next
  case (start_skip w u us sv e')
  then show ?case by (simp add: orderly_adder)
next
  case (start_done w)
  then show ?case using orderly_adder_done [of w] orderly_adder [of w Discovering] by simp
next
  case (discover_merge w c kick)
  then show ?case by (simp add: orderly_frame frame_of_def)
next
  case (discover_add w u sv e' as)
  then show ?case using orderly_added [of w u sv False e' as Discovering] by simp
next
  case (discover_exhausted w)
  then show ?case by (simp add: orderly_leave)
next
  case (discover_stop w)
  then show ?case by (simp add: orderly_adder_done)
next
  case (act w before who a as after e' rest)
  then show ?case by (simp add: orderly_act)
next
  case (supervisor_done u w)
  then show ?case by (simp add: orderly_supervisor_done)
next
  case (offer_conn u w e' r relayDone conn)
  then show ?case using offer_state [OF offer_conn(2)] by (auto intro!: orderly_with)
next
  case (offer_frame u w e' r relayDone frame)
  then show ?case using offerDatagram_state [OF offer_frame(2)] by (auto intro!: orderly_with)
next
  case (accept_conn e' r changed signal w)
  then show ?case using accept_select_state [OF accept_conn(1)] by (auto intro!: orderly_with)
next
  case (accept_frame e' r changed signal w)
  then show ?case using accept_datagram_state [OF accept_frame(1)] by (auto intro!: orderly_with)
next
  case (send_frame outcome frame w e' err)
  then show ?case using SendDatagram_state [OF send_frame(1)] by (auto intro!: orderly_with)
next
  case (close_finish w)
  then show ?case by (simp add: orderly_close_finish)
next
  case (report_cleanup u w cleanupErr)
  then show ?case by (simp add: orderly_frame frame_of_def record_cleanup_def split: option.split)
next
  case (read_update w st rest)
  then show ?case by (simp add: orderly_frame frame_of_def)
next
  case (cancel w)
  then show ?case by (auto intro!: orderly_with)
next
  case (close_begin w)
  then show ?case by (auto intro!: orderly_with simp: Close_begin_def)
qed (auto intro!: orderly_leave simp: frame_locked tail_ok_locked)

section \<open>Kinds of steps\<close>

text \<open>What a caller can observe of the membership.\<close>

definition signals_of :: "('k, 'p) Exposure \<Rightarrow> _" where
  "signals_of e = (ex_discoveryEnabled e, ex_relayCount e, ex_failedCount e, ex_allFailed e, ex_statuses e, ex_stateChanged e)"

definition total_failure :: "('k, 'p) Exposure \<Rightarrow> bool" where
  "total_failure e \<longleftrightarrow> 0 < ex_relayCount e \<and> ex_relayCount e \<le> ex_failedCount e"

text \<open>A quiet step leaves that alone; a locked region announces a change; an action is performed.\<close>

definition quiet :: "('k, 'p) world \<Rightarrow> ('k, 'p) world \<Rightarrow> bool" where
  "quiet w w' \<longleftrightarrow> signals_of (w_ex w') = signals_of (w_ex w) \<and> pending w \<subseteq> pending w'"

definition announced :: "('k, 'p) world \<Rightarrow> ('k, 'p) world \<Rightarrow> bool" where
  "announced w w' \<longleftrightarrow> ex_stateChanged (w_ex w') = ex_stateChanged (w_ex w) + 1 \<and> pending w \<subseteq> pending w' \<and>
     ex_discoveryEnabled (w_ex w') = ex_discoveryEnabled (w_ex w) \<and>
     (total_failure (w_ex w') \<longrightarrow> \<not> ex_discoveryEnabled (w_ex w') \<longrightarrow>
        CloseAllFailed \<in> pending w' \<or> (total_failure (w_ex w) \<and> ex_allFailed (w_ex w') = ex_allFailed (w_ex w)))"

definition performed :: "action \<Rightarrow> ('k, 'p) world \<Rightarrow> ('k, 'p) world \<Rightarrow> bool" where
  "performed a w w' \<longleftrightarrow> (\<exists>rest. act_once a (w_ex w) = (w_ex w', rest)) \<and> pending w \<subseteq> insert a (pending w') \<and>
     (a = CloseAllFailed \<longrightarrow> NotifyState \<in> pending w')"

lemma pending_leave: "pending (leave who r w) = set (snd r) \<union> pending w"
  by (auto simp: pending_def leave_def push_def)

lemma pending_fields [simp]: "pending (w\<lparr>w_running := x\<rparr>) = pending w" "pending (w\<lparr>w_adder := y\<rparr>) = pending w"
  "pending (with_ex w e) = pending w"
  by (simp_all add: pending_def with_ex_def)

lemma quiet_with_ex: "signals_of e = signals_of (w_ex w) \<Longrightarrow> quiet w (with_ex w e)"
  by (simp add: quiet_def) (simp add: with_ex_def)

lemma failed_le_relays: "wf_ex e \<Longrightarrow> ex_failedCount e \<le> ex_relayCount e"
proof -
  assume w: "wf_ex e"
  then have "ex_rejected e |\<subseteq>| fmdom (ex_statuses e)" by (auto simp: wf_ex_def wf_members_def dest: fmdomI)
  then show ?thesis using w fcard_mono by (auto simp: wf_ex_def wf_members_def)
qed

lemma announced_or_quiet_leave:
  assumes "fst r = w_ex w \<or> (ex_stateChanged (fst r) = ex_stateChanged (w_ex w) + 1 \<and>
      ex_discoveryEnabled (fst r) = ex_discoveryEnabled (w_ex w) \<and>
      (total_failure (fst r) \<longrightarrow> \<not> ex_discoveryEnabled (fst r) \<longrightarrow>
        CloseAllFailed \<in> set (snd r) \<or> (total_failure (w_ex w) \<and> ex_allFailed (fst r) = ex_allFailed (w_ex w))))"
  shows "quiet w (leave who r w) \<or> announced w (leave who r w)"
proof -
  have x: "w_ex (leave who r w) = fst r" by (simp add: leave_def)
  show ?thesis using assms by (auto simp: quiet_def announced_def pending_leave x)
qed

lemma locked_announces:
  "quiet w (leave who (markReady_locked u url (w_ex w)) w) \<or> announced w (leave who (markReady_locked u url (w_ex w)) w)"
  "quiet w (leave who (markDatagramReady_locked u addr (w_ex w)) w) \<or> announced w (leave who (markDatagramReady_locked u addr (w_ex w)) w)"
  "quiet w (leave who (markFailed_locked u err (w_ex w)) w) \<or> announced w (leave who (markFailed_locked u err (w_ex w)) w)"
  by (rule announced_or_quiet_leave;
      simp add: markReady_locked_def markDatagramReady_locked_def markFailed_locked_def Let_def set_status_def
        notifyStateChangedLocked_def total_failure_def exhaust_actions_def split: option.split)+

lemma added_announces:
  assumes "addRelay_locked u sv explicit (w_ex w) = (e', Some as)" "wf_ex (w_ex w)"
  shows "announced w ((leave None (e', as) w)\<lparr>w_running := x, w_adder := y\<rparr>)"
proof -
  have "ex_stateChanged e' = ex_stateChanged (w_ex w) + 1" "ex_discoveryEnabled e' = ex_discoveryEnabled (w_ex w)"
    "ex_relayCount e' = ex_relayCount (w_ex w) + 1" "ex_failedCount e' = ex_failedCount (w_ex w)"
    using assms(1)
    by (auto simp: addRelay_locked_def Let_def notifyStateChangedLocked_def rearmAllFailedLocked_def split: if_splits)
  moreover from this(3,4) have "\<not> total_failure e'" using failed_le_relays [OF assms(2)] by (simp add: total_failure_def)
  ultimately show ?thesis by (simp add: announced_def pending_leave) (simp add: leave_def)
qed

lemma act_performs:
  assumes "w_pool w = before @ (who, a # as) # after" "orderly w" "act_once a (w_ex w) = (e', rest)"
  shows "performed a w (w\<lparr>w_ex := e', w_pool := before @ push who (rest @ as) after\<rparr>)"
proof -
  have "owned (w_adder w) (w_running w) (who, a # as)" using assms by (simp add: orderly_def)
  then have "a = CloseAllFailed \<Longrightarrow> NotifyState \<in> set as" by (cases who) auto
  then show ?thesis using assms(1,3) by (auto simp: performed_def pending_def push_def)
qed

lemma signals_with:
  "signals_of (e\<lparr>ex_candidates := c, ex_discoveryKick := k\<rparr>) = signals_of e" "signals_of (e\<lparr>ex_ctxDone := b\<rparr>) = signals_of e"
  "signals_of (Close_begin e) = signals_of e" "signals_of (record_cleanup u cl e) = signals_of e"
  "signals_of (e\<lparr>ex_updates := us\<rparr>) = signals_of e" "signals_of (Close_finish e) = signals_of e"
  by (simp_all add: signals_of_def Close_begin_def record_cleanup_def Close_finish_def drainAccepted_def split: option.split)

lemma signals_fan_in:
  "(e', r) \<in> set (offer relayDone (Some c) e) \<Longrightarrow> signals_of e' = signals_of e"
  "(e', r2) \<in> set (offerDatagram relayDone frame e) \<Longrightarrow> signals_of e' = signals_of e"
  "(e', r3) \<in> set (accept_select changed signal e) \<Longrightarrow> signals_of e' = signals_of e"
  "(e', r4) \<in> set (accept_datagram_select changed signal e) \<Longrightarrow> signals_of e' = signals_of e"
  "SendDatagram outcome frame e = Some (e', err) \<Longrightarrow> signals_of e' = signals_of e"
proof -
  show "(e', r) \<in> set (offer relayDone (Some c) e) \<Longrightarrow> signals_of e' = signals_of e"
    by (drule offer_state) (auto simp: signals_of_def)
  show "(e', r2) \<in> set (offerDatagram relayDone frame e) \<Longrightarrow> signals_of e' = signals_of e"
    by (drule offerDatagram_state) (auto simp: signals_of_def)
  show "(e', r3) \<in> set (accept_select changed signal e) \<Longrightarrow> signals_of e' = signals_of e"
    by (drule accept_select_state) (auto simp: signals_of_def)
  show "(e', r4) \<in> set (accept_datagram_select changed signal e) \<Longrightarrow> signals_of e' = signals_of e"
    by (drule accept_datagram_state) (auto simp: signals_of_def)
  show "SendDatagram outcome frame e = Some (e', err) \<Longrightarrow> signals_of e' = signals_of e"
    by (drule SendDatagram_state) (auto simp: signals_of_def)
qed

lemma quiet_adder: "quiet w (w\<lparr>w_adder := y\<rparr>)" "quiet w (w\<lparr>w_running := x\<rparr>)"
  by (simp_all add: quiet_def)

lemma ex_step_kinds:
  assumes "ex_step w w'" "wf_ex (w_ex w)" "orderly w"
  obtains "quiet w w'" | "announced w w'" | a where "performed a w w'"
proof -
  have "quiet w w' \<or> announced w w' \<or> (\<exists>a. performed a w w')"
    using assms
  proof (induction rule: ex_step.induct)
    case (discover_exhausted w)
    have "quiet w (leave None (w_ex w, exhaust_actions) w)"
      by (simp add: quiet_def pending_leave) (simp add: leave_def)
    then show ?case by blast
  next
    case (act w before who a as after e' rest)
    then show ?case using act_performs [OF act(1) _ act(2)] by blast
  next
    case (report_ready u w url)
    then show ?case using locked_announces(1) by blast
  next
    case (report_datagram u w addr)
    then show ?case using locked_announces(2) by blast
  next
    case (report_failed u w err)
    then show ?case using locked_announces(3) by blast
  qed (auto simp: quiet_adder added_announces signals_with intro!: quiet_with_ex dest: signals_fan_in)
  then show thesis using that by blast
qed

section \<open>Reachable worlds\<close>

definition ex_inv :: "('k, 'p) world \<Rightarrow> bool" where
  "ex_inv w \<longleftrightarrow> wf_ex (w_ex w) \<and> orderly w \<and>
     (total_failure (w_ex w) \<longrightarrow> \<not> ex_discoveryEnabled (w_ex w) \<longrightarrow> ex_allFailed (w_ex w) \<or> CloseAllFailed \<in> pending w)"

lemma act_signals:
  assumes "wf_ex e" "act_once a e = (e', rest)"
  shows "ex_relayCount e' = ex_relayCount e" "ex_failedCount e' = ex_failedCount e"
    "ex_discoveryEnabled e' = ex_discoveryEnabled e" "ex_statuses e' = ex_statuses e"
    "ex_allFailed e \<Longrightarrow> ex_allFailed e'" "a = CloseAllFailed \<Longrightarrow> ex_allFailed e'"
    "ex_allFailed e' \<Longrightarrow> ex_allFailed e \<or> a = CloseAllFailed"
    "ex_stateChanged e' = ex_stateChanged e + (if a = NotifyState then 1 else 0)"
proof -
  have e: "e' = fst (act_once a e)" using assms(2) by simp
  have s: "ex_allFailed e \<longleftrightarrow> ex_failedOnce e" using assms(1) by (simp add: wf_ex_def wf_channels_def)
  show "ex_relayCount e' = ex_relayCount e" "ex_failedCount e' = ex_failedCount e"
    "ex_discoveryEnabled e' = ex_discoveryEnabled e" "ex_statuses e' = ex_statuses e"
    by (simp_all only: e act_keeps)
  have f: "ex_allFailed e' \<longleftrightarrow> ex_allFailed e \<or> a = CloseAllFailed"
    unfolding e using s by (cases a) (simp_all add: act_defs)
  then show "ex_allFailed e \<Longrightarrow> ex_allFailed e'" "a = CloseAllFailed \<Longrightarrow> ex_allFailed e'"
    "ex_allFailed e' \<Longrightarrow> ex_allFailed e \<or> a = CloseAllFailed" by blast+
  show "ex_stateChanged e' = ex_stateChanged e + (if a = NotifyState then 1 else 0)"
    unfolding e by (cases a) (simp_all add: act_defs)
qed

lemma ex_inv_step:
  assumes "ex_inv w" "ex_step w w'"
  shows "ex_inv w'"
proof -
  from assms(1) have i: "wf_ex (w_ex w)" "orderly w"
    "total_failure (w_ex w) \<longrightarrow> \<not> ex_discoveryEnabled (w_ex w) \<longrightarrow> ex_allFailed (w_ex w) \<or> CloseAllFailed \<in> pending w"
    by (simp_all add: ex_inv_def)
  from assms(2) i(1,2)
  have "total_failure (w_ex w') \<longrightarrow> \<not> ex_discoveryEnabled (w_ex w') \<longrightarrow> ex_allFailed (w_ex w') \<or> CloseAllFailed \<in> pending w'"
  proof (cases rule: ex_step_kinds)
    case 1
    with i(3) show ?thesis by (auto simp: quiet_def signals_of_def total_failure_def)
  next
    case 2
    with i(3) show ?thesis by (auto simp: announced_def)
  next
    case (3 a)
    then obtain rest where p: "act_once a (w_ex w) = (w_ex w', rest)" "pending w \<subseteq> insert a (pending w')"
      by (auto simp: performed_def)
    with i(3) act_signals [OF i(1) p(1)] show ?thesis by (auto simp: total_failure_def)
  qed
  with wf_ex_step [OF assms(2) i(1)] orderly_step [OF assms(2) i(1,2)] show ?thesis by (simp add: ex_inv_def)
qed

text \<open>The capacity of the updates channel never changes.\<close>

lemma capacity_locked:
  "ex_updatesCapacity (fst (markReady_locked u url e)) = ex_updatesCapacity e"
  "ex_updatesCapacity (fst (markDatagramReady_locked u addr e)) = ex_updatesCapacity e"
  "ex_updatesCapacity (fst (markFailed_locked u err e)) = ex_updatesCapacity e"
  "ex_updatesCapacity (fst (addRelay_locked u sv explicit e)) = ex_updatesCapacity e"
  by (simp_all add: markReady_locked_def markDatagramReady_locked_def markFailed_locked_def addRelay_locked_def Let_def set_status_def
      notifyStateChangedLocked_def rearmAllFailedLocked_def split: option.split)

lemma capacity_added: "addRelay_locked u sv explicit e = (e', r) \<Longrightarrow> ex_updatesCapacity e' = ex_updatesCapacity e"
  using capacity_locked(4) [of u sv explicit e] by simp

lemma capacity_act: "act_once a e = (e', rest) \<Longrightarrow> ex_updatesCapacity e' = ex_updatesCapacity e"
  using act_keeps(3) [of a e] by simp

lemma capacity_fan_in:
  "(e', r) \<in> set (offer relayDone (Some conn) e) \<Longrightarrow> ex_updatesCapacity e' = ex_updatesCapacity e"
  "(e', q) \<in> set (offerDatagram relayDone frame e) \<Longrightarrow> ex_updatesCapacity e' = ex_updatesCapacity e"
  "(e', a) \<in> set (accept_select changed signal e) \<Longrightarrow> ex_updatesCapacity e' = ex_updatesCapacity e"
  "(e', d) \<in> set (accept_datagram_select changed signal e) \<Longrightarrow> ex_updatesCapacity e' = ex_updatesCapacity e"
  "SendDatagram outcome frame e = Some (e', err) \<Longrightarrow> ex_updatesCapacity e' = ex_updatesCapacity e"
  by (auto dest: offer_state offerDatagram_state accept_select_state accept_datagram_state SendDatagram_state)

lemma capacity_step: "ex_step w w' \<Longrightarrow> ex_updatesCapacity (w_ex w') = ex_updatesCapacity (w_ex w)"
  by (erule ex_step.cases)
    (simp_all add: leave_def with_ex_def record_cleanup_def Close_begin_def Close_finish_def drainAccepted_def
      capacity_locked capacity_added capacity_act capacity_fan_in split: option.split)

interpretation updates_capacity: invariant ex_init ex_step "\<lambda>w. ex_updatesCapacity (w_ex w) > 0"
  by unfold_locales (auto simp: capacity_step ex_init_facts(11))

interpretation exposure: invariant ex_init ex_step ex_inv
proof
  fix w :: "('a, 'b) world"
  assume "ex_init w"
  then show "ex_inv w"
    using ex_init_facts [of w] orderly_init [of w] by (simp add: ex_inv_def total_failure_def)
qed (rule ex_inv_step)

text \<open>C1. In every reachable state of the concurrent exposure the membership is consistent: the two
  counters count the members and the failed members, the rejected relays are exactly those that failed,
  every member has a supervisor that was started exactly once, discovery added at most its cap, and no
  queue exceeds its buffer.\<close>

theorem exposure_consistent:
  assumes "reachable ex_init ex_step w"
  shows "wf_members (w_ex w) \<and> wf_channels (w_ex w)"
  using exposure.reachable_inv [OF assms] by (simp add: ex_inv_def wf_ex_def)

text \<open>C2. No goroutine ever sends on the closed updates channel or closes the all-failed channel twice: no
  reachable state has panicked, and once \<open>Close\<close> has returned nothing is pending that could.\<close>

theorem exposure_never_panics:
  assumes "reachable ex_init ex_step w"
  shows "\<not> ex_panicked (w_ex w) \<and> (ex_updatesClosed (w_ex w) \<longrightarrow> pending w = {} \<and> w_running w = {||})"
proof -
  have o: "orderly w" using exposure.reachable_inv [OF assms] by (simp add: ex_inv_def)
  then have "ex_updatesClosed (w_ex w) \<Longrightarrow> w_pool w = []" using orderly_open [OF o] by blast
  with o show ?thesis by (auto simp: orderly_def pending_def)
qed

text \<open>C3. When \<open>Close\<close> has returned, every connection that a relay handed over was either delivered to a
  caller of \<open>Accept\<close> or closed, exactly once; none is left in the queue, no supervisor runs and no relay can
  be added.\<close>

theorem Close_leaves_nothing:
  assumes "reachable ex_init ex_step w" "ex_closeDone (w_ex w)"
  shows "ex_accepted (w_ex w) = [] \<and> mset (ex_offered (w_ex w)) = mset (ex_delivered (w_ex w)) + mset (ex_discarded (w_ex w)) \<and>
    w_running w = {||} \<and> (\<forall>u sv explicit. addRelay_locked u sv explicit (w_ex w) = (w_ex w, None))"
proof -
  have "wf_ex (w_ex w)" "orderly w" using exposure.reachable_inv [OF assms(1)] by (simp_all add: ex_inv_def)
  with assms(2) show ?thesis
    by (auto simp: orderly_def wf_ex_def wf_channels_def addRelay_locked_def)
qed

text \<open>C7. Without discovery a total failure is reported: when every member has failed, the exposure is
  exhausted, or the goroutine that reported the last failure is about to signal it.\<close>

theorem total_failure_signalled:
  assumes "reachable ex_init ex_step w" "\<not> ex_discoveryEnabled (w_ex w)" "0 < ex_relayCount (w_ex w)"
    "ex_relayCount (w_ex w) \<le> ex_failedCount (w_ex w)"
  shows "exhausted (w_ex w) \<or> CloseAllFailed \<in> pending w"
  using exposure.reachable_inv [OF assms(1)] assms(2-4) by (auto simp: ex_inv_def total_failure_def exhausted_def)

section \<open>Waking blocked callers\<close>

text \<open>What has happened since the world \<open>w\<close> in which a caller took the state-change channel.\<close>

definition watched :: "('k, 'p) world \<Rightarrow> ('k, 'p) world \<Rightarrow> bool" where
  "watched w w' \<longleftrightarrow> ex_stateChanged (w_ex w) \<le> ex_stateChanged (w_ex w') \<and>
     (ex_statuses (w_ex w') = ex_statuses (w_ex w) \<or> ex_stateChanged (w_ex w) < ex_stateChanged (w_ex w')) \<and>
     (exhausted (w_ex w') \<longrightarrow> exhausted (w_ex w) \<or> ex_stateChanged (w_ex w) < ex_stateChanged (w_ex w') \<or> NotifyState \<in> pending w') \<and>
     (exhausted (w_ex w) \<longrightarrow> exhausted (w_ex w') \<or> ex_stateChanged (w_ex w) < ex_stateChanged (w_ex w'))"

lemma watched_step:
  assumes "ex_inv v" "ex_step v v'" "watched w v"
  shows "watched w v'"
proof -
  have i: "wf_ex (w_ex v)" "orderly v" using assms(1) by (simp_all add: ex_inv_def)
  from assms(2) i show ?thesis
  proof (cases rule: ex_step_kinds)
    case 1
    with assms(3) show ?thesis by (auto simp: watched_def quiet_def signals_of_def exhausted_def)
  next
    case 2
    with assms(3) show ?thesis by (auto simp: watched_def announced_def)
  next
    case (3 a)
    then obtain rest where p: "act_once a (w_ex v) = (w_ex v', rest)" "pending v \<subseteq> insert a (pending v')"
      "a = CloseAllFailed \<Longrightarrow> NotifyState \<in> pending v'" by (auto simp: performed_def)
    note s = act_signals [OF i(1) p(1)]
    have "exhausted (w_ex v') \<Longrightarrow> exhausted (w_ex v) \<or> a = CloseAllFailed" "exhausted (w_ex v) \<Longrightarrow> exhausted (w_ex v')"
      using s(1,2,5,7) by (auto simp: exhausted_def)
    with p s(4,8) assms(3) show ?thesis by (auto simp: watched_def)
  qed
qed

lemma watched_reachable:
  assumes "ex_inv w" "reachable ((=) w) ex_step w'"
  shows "ex_inv w' \<and> watched w w'"
  using assms(2)
proof (induction rule: reachable.induct)
  case (reach_init s)
  then show ?case using assms(1) by (auto simp: watched_def)
next
  case (reach_step s t)
  then show ?case using ex_inv_step watched_step by blast
qed

lemma wait_round_cong:
  "ex_statuses e' = ex_statuses e \<Longrightarrow> statuses_where P e' = statuses_where P e"
  by (simp add: statuses_where_def)

text \<open>C5. No lost wake-up: a caller of \<open>WaitReady\<close> that blocks on the state-change channel is woken by
  everything that concerns it. Whenever a fresh round would not wait on the same channel (a relay has
  become ready, the exposure is closed or exhausted, or anything else was announced), the blocked
  \<open>select\<close> has a ready case, or the goroutine that caused the change is about to make one ready: by
  the notification that follows the exhaustion signal, or by the cancellation that follows the start of
  \<open>Close\<close>.\<close>

theorem WaitReady_never_stuck:
  assumes "reachable ex_init ex_step w" "WaitReady_round False (w_ex w) = WaitOn c" "reachable ((=) w) ex_step w'"
    "WaitReady_round False (w_ex w') \<noteq> WaitOn c"
  shows "wait_select None c (w_ex w') \<noteq> [] \<or> NotifyState \<in> pending w' \<or> (ex_closing (w_ex w') \<and> \<not> ex_ctxDone (w_ex w'))"
proof (rule ccontr)
  assume n: "\<not> ?thesis"
  have w: "watched w w'" using watched_reachable [OF exposure.reachable_inv [OF assms(1)] assms(3)] by blast
  let ?P = "\<lambda>status. rs_State status = RelayReady"
  from assms(2) have c: "statuses_where ?P (w_ex w) = []" "\<not> exhausted (w_ex w)" "c = ex_stateChanged (w_ex w)"
    by (auto simp: WaitReady_round_def wait_round_def Let_def split: if_splits)
  from n c(3) have u: "ex_stateChanged (w_ex w') = ex_stateChanged (w_ex w)" "\<not> exposure_closed (w_ex w')"
    by (auto simp: wait_select_def exposure_closed_def split: if_splits)
  with w n c(2) have "ex_statuses (w_ex w') = ex_statuses (w_ex w)" "\<not> exhausted (w_ex w')"
    by (auto simp: watched_def)
  with u c wait_round_cong [of "w_ex w'" "w_ex w" ?P] have "WaitReady_round False (w_ex w') = WaitOn c"
    by (simp add: WaitReady_round_def wait_round_def)
  with assms(4) show False by contradiction
qed

text \<open>C6. The same for \<open>Accept\<close>, which reads the two channels it waits on one after the other, each in
  its own critical section: the state-change channel in the world \<open>w\<close>, then, after any steps of other
  goroutines, the exhaustion signal in the world \<open>v\<close>. Whatever happened before, between and after the two
  reads, once the exposure is exhausted or closed or a connection has arrived, the \<open>select\<close> has a ready
  case, or the goroutine that caused the change is about to make one ready.\<close>

theorem Accept_never_stuck:
  assumes "reachable ex_init ex_step w" "reachable ((=) w) ex_step v" "reachable ((=) v) ex_step w'"
    "accept_check (w_ex w') \<noteq> None \<or> ex_accepted (w_ex w') \<noteq> []"
  shows "accept_select (ex_stateChanged (w_ex w)) (exhausted (w_ex v)) (w_ex w') \<noteq> [] \<or> NotifyState \<in> pending w' \<or>
    (ex_closing (w_ex w') \<and> \<not> ex_ctxDone (w_ex w'))"
proof (rule ccontr)
  assume n: "\<not> ?thesis"
  have i: "ex_inv v" "watched w v" using watched_reachable [OF exposure.reachable_inv [OF assms(1)] assms(2)] by blast+
  have w: "watched v w'" "watched w w'"
    using watched_reachable [OF i(1) assms(3)]
      watched_reachable [OF exposure.reachable_inv [OF assms(1)] reachable_trans [OF assms(3,2)]] by blast+
  have e: "ex_accepted (w_ex w') = []"
    using n by (cases "ex_accepted (w_ex w')") (auto simp: accept_select_def Let_def split: option.splits)
  from n have u: "ex_stateChanged (w_ex w') = ex_stateChanged (w_ex w)" "\<not> exposure_closed (w_ex w')"
    "NotifyState \<notin> pending w'" "\<not> exhausted (w_ex v)"
    by (auto simp: accept_select_def accept_signals_def exposure_closed_def split: if_splits)
  then have "ex_stateChanged (w_ex w') = ex_stateChanged (w_ex v)" using i(2) w by (auto simp: watched_def)
  with u w(1) have "accept_check (w_ex w') = None" by (auto simp: watched_def accept_check_def terminalState_def)
  with e assms(4) show False by simp
qed

section \<open>The update stream\<close>

text \<open>C12. The updates channel under concurrent publishers and readers: in every reachable state it holds
  the statuses that were sent last, in the order in which they were sent and within its capacity, so that
  what a reader misses of them is always older than what it receives; and a publication that runs without
  interference is never lost: it ends up as the newest status in the channel.\<close>

theorem updates_in_order:
  assumes "reachable ex_init ex_step w"
  shows "suffix (ex_updates (w_ex w)) (ex_sent (w_ex w)) \<and> length (ex_updates (w_ex w)) \<le> ex_updatesCapacity (w_ex w) \<and>
    (\<not> ex_updatesClosed (w_ex w) \<longrightarrow> (\<exists>q. ex_updates (publishUpdate st (w_ex w)) = q @ [st] \<and> suffix q (ex_updates (w_ex w))))"
proof -
  have i: "wf_ex (w_ex w)" using exposure.reachable_inv [OF assms] by (simp add: ex_inv_def)
  have c: "ex_updatesCapacity (w_ex w) > 0" by (rule updates_capacity.reachable_inv [OF assms])
  have "\<exists>q. ex_updates (publishUpdate st (w_ex w)) = q @ [st] \<and> suffix q (ex_updates (w_ex w))" if "\<not> ex_updatesClosed (w_ex w)"
  proof (cases "length (ex_updates (w_ex w)) < ex_updatesCapacity (w_ex w)")
    case True
    with that show ?thesis by (simp add: publish_defs)
  next
    case False
    with that i c show ?thesis by (simp add: publish_defs wf_ex_def wf_channels_def) (rule suffix_drop)
  qed
  with i show ?thesis by (simp add: wf_ex_def wf_channels_def)
qed

section \<open>Witnesses\<close>

lemma sample_init: obtains w :: "(byte list, unit) world" where "ex_init w" "w_adder w = Starting [''https://rly.best'']"
    "\<not> ex_discoveryEnabled (w_ex w)" "w_pool w = []" "w_running w = {||}"
proof -
  obtain e :: "(byte list, unit) Exposure" where
    e: "new_exposure sample_config (withDefaults defaultRelayTimings) (length [''https://rly.best'']) = Some e"
    using new_exposure_ok [of "length [''https://rly.best'']" sample_config] sample_preconditions(5) by blast
  have b: "int (length [''https://rly.best'']) + max_discovered (ec_MaxActiveRelays sample_config) < 2 ^ 55"
    using sample_preconditions(5) by simp
  let ?w = "\<lparr>w_ex = e, w_pool = [], w_running = {||}, w_adder = Starting [''https://rly.best'']\<rparr>"
  have "ex_init ?w" unfolding ex_init_def
    using sample_preconditions(4) b e
    by (intro exI [of _ sample_config] exI [of _ defaultRelayTimings] exI [of _ "[''https://rly.best'']"]) simp
  moreover have "\<not> ex_discoveryEnabled e" using new_exposure_facts(12) [OF b e] by (simp add: sample_config_def)
  ultimately show ?thesis using that [of ?w] by simp
qed

lemma reach_trans1: "reachable ex_init ex_step w \<Longrightarrow> ex_step w w' \<Longrightarrow> reachable ex_init ex_step w'"
  by (rule reach_step [of ex_init ex_step])

lemma reach_from_init: "ex_init w \<Longrightarrow> reachable ex_init ex_step w"
  by (rule reach_init [of ex_init])

lemma reach_from: "ex_step w w' \<Longrightarrow> reachable ((=) w) ex_step w'"
  using reach_step [of "(=) w" ex_step w w'] reach_init [of "(=) w" w ex_step] by simp

text \<open>The relay has been added and is connecting.\<close>

lemma sample_connecting:
  obtains w :: "(byte list, unit) world" where "reachable ex_init ex_step w" "''https://rly.best'' |\<in>| w_running w"
    "ex_statuses (w_ex w) = fmupd ''https://rly.best'' (connecting ''https://rly.best'') fmempty"
    "\<not> exposure_closed (w_ex w)" "\<not> ex_discoveryEnabled (w_ex w)" "ex_relayCount (w_ex w) = 1" "ex_failedCount (w_ex w) = 0"
    "w_adder w = Starting []" "w_pool w = [(None, [Publish (connecting ''https://rly.best'')])]"
proof -
  let ?u = "''https://rly.best''"
  obtain w :: "(byte list, unit) world" where w: "ex_init w" "w_adder w = Starting [?u]" "\<not> ex_discoveryEnabled (w_ex w)"
    "w_pool w = []" "w_running w = {||}"
    by (rule sample_init)
  note f = ex_init_facts [OF w(1)]
  have m: "ex_rejected (w_ex w) = {||}" "ex_failedCount (w_ex w) = 0"
  proof -
    have wf: "wf_members (w_ex w)" using f(1) by (simp add: wf_ex_def)
    have "u |\<notin>| ex_rejected (w_ex w)" for u
      using wf f(10) by (simp add: wf_members_def)
    then show "ex_rejected (w_ex w) = {||}" by auto
    with wf show "ex_failedCount (w_ex w) = 0" by (simp add: wf_members_def)
  qed
  obtain e' as where a: "addRelay_locked ?u sample_sv True (w_ex w) = (e', Some as)" "ex_statuses e' = fmupd ?u (connecting ?u) fmempty"
    "exposure_closed e' = exposure_closed (w_ex w)" "ex_discoveryEnabled e' = ex_discoveryEnabled (w_ex w)"
    "ex_relayCount e' = 1" "ex_failedCount e' = 0"
    using f(2,5,10) m by (auto simp: addRelay_locked_def exposure_closed_def Let_def notifyStateChangedLocked_def rearmAllFailedLocked_def)
  let ?w = "(leave None (e', as) w)\<lparr>w_running := finsert ?u (w_running w), w_adder := Starting []\<rparr>"
  have "ex_step w ?w" by (rule start_add [OF w(2) _ a(1)]) (simp add: idle_def w(4))
  then have "reachable ex_init ex_step ?w" by (rule reach_trans1 [OF reach_from_init [OF w(1)]])
  moreover have "w_ex ?w = e'" "w_pool ?w = [(None, [Publish (connecting ?u)])]"
    by (simp_all add: leave_def push_def w(4) addRelay_locked_Some(5) [OF a(1)])
  ultimately show ?thesis using that [of ?w] a f(2) w(3) by simp
qed

theorem exposure_consistent_witness:
  "\<exists>w :: (byte list, unit) world. reachable ex_init ex_step w \<and> ex_relayCount (w_ex w) = 1 \<and> wf_members (w_ex w)"
proof -
  obtain w :: "(byte list, unit) world" where w: "reachable ex_init ex_step w" "ex_relayCount (w_ex w) = 1"
    by (rule sample_connecting)
  with exposure_consistent [OF w(1)] show ?thesis by blast
qed

theorem exposure_never_panics_witness:
  "\<exists>w :: (byte list, unit) world. reachable ex_init ex_step w \<and> \<not> ex_panicked (w_ex w)"
proof -
  obtain w :: "(byte list, unit) world" where w: "reachable ex_init ex_step w" by (rule sample_connecting)
  with exposure_never_panics [OF w(1)] show ?thesis by blast
qed

lemma sample_failing:
  obtains w :: "(byte list, unit) world" where "reachable ex_init ex_step w" "\<not> ex_discoveryEnabled (w_ex w)"
    "ex_relayCount (w_ex w) = 1" "ex_failedCount (w_ex w) = 1"
proof -
  let ?u = "''https://rly.best''"
  obtain w :: "(byte list, unit) world" where w: "reachable ex_init ex_step w" "?u |\<in>| w_running w"
    "ex_statuses (w_ex w) = fmupd ?u (connecting ?u) fmempty"
    "\<not> exposure_closed (w_ex w)" "\<not> ex_discoveryEnabled (w_ex w)" "ex_relayCount (w_ex w) = 1" "ex_failedCount (w_ex w) = 0"
    by (rule sample_connecting)
  let ?w = "leave (Some ?u) (markFailed_locked ?u EOF (w_ex w)) w"
  have "reachable ex_init ex_step ?w" by (rule reach_trans1 [OF w(1) report_failed [OF w(2)]])
  moreover have "reportable ?u (w_ex w) = Some (connecting ?u)" using w(3,4) by (simp add: reportable_Some connecting_def)
  ultimately show ?thesis
    using that [of ?w] w(5-7)
    by (simp add: leave_def markFailed_locked_def Let_def set_status_def notifyStateChangedLocked_def)
qed

theorem total_failure_signalled_witness:
  "\<exists>w :: (byte list, unit) world. reachable ex_init ex_step w \<and> (exhausted (w_ex w) \<or> CloseAllFailed \<in> pending w)"
proof -
  obtain w :: "(byte list, unit) world" where w: "reachable ex_init ex_step w" "\<not> ex_discoveryEnabled (w_ex w)"
    "ex_relayCount (w_ex w) = 1" "ex_failedCount (w_ex w) = 1"
    by (rule sample_failing)
  with total_failure_signalled [OF w(1,2)] show ?thesis by auto
qed

theorem WaitReady_never_stuck_witness:
  "\<exists>(w :: (byte list, unit) world) c. WaitReady_round False (w_ex w) \<noteq> WaitOn c \<and>
     (wait_select None c (w_ex w) \<noteq> [] \<or> NotifyState \<in> pending w \<or> (ex_closing (w_ex w) \<and> \<not> ex_ctxDone (w_ex w)))"
proof -
  let ?u = "''https://rly.best''"
  obtain w :: "(byte list, unit) world" where w: "reachable ex_init ex_step w" "?u |\<in>| w_running w"
    "ex_statuses (w_ex w) = fmupd ?u (connecting ?u) fmempty"
    "\<not> exposure_closed (w_ex w)" "ex_relayCount (w_ex w) = 1" "ex_failedCount (w_ex w) = 0"
    by (rule sample_connecting)
  have "fmlookup (ex_statuses (w_ex w)) v = Some st \<Longrightarrow> st = connecting ?u" for v st
    unfolding w(3) by (cases "v = ?u") simp_all
  moreover have "rs_State (connecting ?u) \<noteq> RelayReady" by (simp add: connecting_def)
  ultimately have "set (statuses_where (\<lambda>st. rs_State st = RelayReady) (w_ex w)) = {}"
    unfolding set_statuses_where by blast
  then have "statuses_where (\<lambda>st. rs_State st = RelayReady) (w_ex w) = []" by simp
  then have c: "WaitReady_round False (w_ex w) = WaitOn (ex_stateChanged (w_ex w))"
    using w(4-6) by (simp add: WaitReady_round_def wait_round_def exhausted_def)
  let ?w = "leave (Some ?u) (markReady_locked ?u [] (w_ex w)) w"
  have s: "reachable ((=) w) ex_step ?w" by (rule reach_from) (rule report_ready [OF w(2)])
  have "reportable ?u (w_ex w) = Some (connecting ?u)" using w(3,4) by (simp add: reportable_Some connecting_def)
  then have "ex_stateChanged (w_ex ?w) = ex_stateChanged (w_ex w) + 1"
    by (simp add: leave_def markReady_locked_def connecting_def set_status_def notifyStateChangedLocked_def Let_def)
  then have d: "WaitReady_round False (w_ex ?w) \<noteq> WaitOn (ex_stateChanged (w_ex w))"
    by (auto simp: WaitReady_round_def wait_round_def Let_def)
  from WaitReady_never_stuck [OF w(1) c s d] d show ?thesis by blast
qed

theorem Accept_never_stuck_witness:
  "\<exists>(w :: (byte list, unit) world) (v :: (byte list, unit) world) (w' :: (byte list, unit) world). ex_stateChanged (w_ex w) < ex_stateChanged (w_ex v) \<and> ex_ctxDone (w_ex w') \<and>
     (accept_select (ex_stateChanged (w_ex w)) (exhausted (w_ex v)) (w_ex w') \<noteq> [] \<or> NotifyState \<in> pending w' \<or>
      (ex_closing (w_ex w') \<and> \<not> ex_ctxDone (w_ex w')))"
proof -
  let ?u = "''https://rly.best''"
  obtain w :: "(byte list, unit) world" where w: "reachable ex_init ex_step w" "?u |\<in>| w_running w"
    "ex_statuses (w_ex w) = fmupd ?u (connecting ?u) fmempty" "\<not> exposure_closed (w_ex w)"
    by (rule sample_connecting)
  define v where "v = leave (Some ?u) (markFailed_locked ?u EOF (w_ex w)) w"
  define w' where "w' = with_ex v ((w_ex v)\<lparr>ex_ctxDone := True\<rparr>)"
  have "reportable ?u (w_ex w) = Some (connecting ?u)" using w(3,4) by (simp add: reportable_Some connecting_def)
  then have "ex_stateChanged (w_ex w) < ex_stateChanged (w_ex v)"
    by (simp add: v_def leave_def markFailed_locked_def Let_def set_status_def notifyStateChangedLocked_def)
  moreover have "ex_ctxDone (w_ex w')" and c: "accept_check (w_ex w') \<noteq> None \<or> ex_accepted (w_ex w') \<noteq> []"
    by (simp_all add: w'_def with_ex_def accept_check_def terminalState_def exposure_closed_def)
  moreover have v: "reachable ((=) w) ex_step v" "reachable ((=) v) ex_step w'"
    unfolding w'_def v_def by (rule reach_from, rule report_failed [OF w(2)]) (rule reach_from, rule cancel)
  ultimately show ?thesis using Accept_never_stuck [OF w(1) v c] by blast
qed

theorem updates_in_order_witness:
  "\<exists>(w :: (byte list, unit) world) q. reachable ex_init ex_step w \<and>
     ex_updates (publishUpdate (connecting ''https://rly.best'') (w_ex w)) = q @ [connecting ''https://rly.best'']"
proof -
  obtain w :: "(byte list, unit) world" where w: "ex_init w" by (rule sample_init)
  from updates_in_order [OF reach_from_init [OF w], of "connecting ''https://rly.best''"] ex_init_facts(3) [OF w]
  show ?thesis using reach_from_init [OF w] by blast
qed

theorem Close_leaves_nothing_witness:
  "\<exists>w :: (byte list, unit) world. ex_closeDone (w_ex w) \<and> ex_accepted (w_ex w) = []"
proof -
  obtain w :: "(byte list, unit) world" where w: "ex_init w" "w_adder w = Starting [''https://rly.best'']"
    "\<not> ex_discoveryEnabled (w_ex w)" "w_pool w = []" "w_running w = {||}"
    by (rule sample_init)
  let ?e1 = "(w_ex w)\<lparr>ex_ctxDone := True\<rparr>"
  let ?w1 = "with_ex w ?e1" and ?e2 = "Close_begin ?e1"
  let ?w2 = "?w1\<lparr>w_adder := Starting []\<rparr>" and ?w3 = "?w1\<lparr>w_adder := AdderDone\<rparr>"
  have "reachable ex_init ex_step ?w1" by (rule reach_trans1 [OF reach_from_init [OF w(1)] cancel])
  moreover have "ex_step ?w1 ?w2"
    by (rule start_skip [where u = "''https://rly.best''" and sv = sample_sv and e' = ?e1])
      (simp_all add: with_ex_def w idle_def addRelay_locked_def)
  moreover have "ex_step ?w2 ?w3"
    using start_done [of ?w2] w(3,4) by (simp add: with_ex_def idle_def)
  moreover have "ex_step ?w3 (with_ex ?w3 ?e2)"
    using close_begin [of ?w3] by (simp add: with_ex_def)
  moreover have "ex_step (with_ex ?w3 ?e2) (with_ex ?w3 (Close_finish ?e2))"
    using close_finish [of "with_ex ?w3 ?e2"] ex_init_facts(6) [OF w(1)] w(5) by (simp add: with_ex_def Close_begin_def)
  ultimately have "reachable ex_init ex_step (with_ex ?w3 (Close_finish ?e2))" using reach_trans1 by blast
  moreover have "ex_closeDone (w_ex (with_ex ?w3 (Close_finish ?e2)))" by (simp add: with_ex_def Close_finish_def Let_def)
  ultimately show ?thesis using Close_leaves_nothing by blast
qed

end
