(* ===== verification/ExposureLocks.thy ===== *)
theory ExposureLocks
  imports Prelude
begin

text \<open>
  The exposure's mutex \<open>mu\<close> (\<open>src/exposure.go\<close>), a \<open>sync.RWMutex\<close>: which calls can wait for each other.

  A goroutine is the sequence of lock operations that it still has to perform, with the number of read
  locks it holds. As the package \<open>sync\<close> documents it, \<open>Lock\<close> first announces the writer and then waits for
  the readers that hold the lock; from the announcement until \<open>Unlock\<close> no \<open>RLock\<close> succeeds. (A reader
  that waited through an \<open>Unlock\<close> gets the lock before the next writer; here the next writer may also
  announce itself first, which only adds schedules.)

  For every operation of the exposure there is the sequence of its lock operations, with its branches as
  arguments. The lemmas show that the calls which take the lock one section at a time always finish,
  whatever the schedule, and that \<open>WaitReady\<close>, \<open>WaitDatagramReady\<close> and \<open>SendDatagram\<close>, which take the
  read lock again while they hold it, can deadlock with any writer for good.
\<close>

section \<open>The mutex\<close>

datatype lock_op = RLock | RUnlock | Lock | LockWait | Unlock

record goroutine =
  g_held :: nat
  g_todo :: "lock_op list"

record rwmutex =
  rw_routines :: "goroutine list"
  rw_writer :: "nat option"

abbreviation todo :: "rwmutex \<Rightarrow> nat \<Rightarrow> lock_op list" where
  "todo s i \<equiv> g_todo (rw_routines s ! i)"

definition rw_readers :: "rwmutex \<Rightarrow> nat" where
  "rw_readers s = sum_list (map g_held (rw_routines s))"

definition advance_to :: "nat \<Rightarrow> nat \<Rightarrow> lock_op list \<Rightarrow> nat option \<Rightarrow> rwmutex \<Rightarrow> rwmutex" where
  "advance_to i h p wr s = s\<lparr>rw_routines := (rw_routines s)[i := \<lparr>g_held = h, g_todo = p\<rparr>], rw_writer := wr\<rparr>"

inductive lock_step :: "rwmutex \<Rightarrow> rwmutex \<Rightarrow> bool" where
  read_lock: "i < length (rw_routines s) \<Longrightarrow> rw_routines s ! i = \<lparr>g_held = h, g_todo = RLock # p\<rparr> \<Longrightarrow> rw_writer s = None \<Longrightarrow>
    lock_step s (advance_to i (Suc h) p None s)"
| read_unlock: "i < length (rw_routines s) \<Longrightarrow> rw_routines s ! i = \<lparr>g_held = Suc h, g_todo = RUnlock # p\<rparr> \<Longrightarrow>
    lock_step s (advance_to i h p (rw_writer s) s)"
| announce: "i < length (rw_routines s) \<Longrightarrow> rw_routines s ! i = \<lparr>g_held = h, g_todo = Lock # p\<rparr> \<Longrightarrow> rw_writer s = None \<Longrightarrow>
    lock_step s (advance_to i h (LockWait # p) (Some i) s)"
| write_lock: "i < length (rw_routines s) \<Longrightarrow> rw_routines s ! i = \<lparr>g_held = h, g_todo = LockWait # p\<rparr> \<Longrightarrow>
    rw_writer s = Some i \<Longrightarrow> rw_readers s = 0 \<Longrightarrow> lock_step s (advance_to i h p (Some i) s)"
| write_unlock: "i < length (rw_routines s) \<Longrightarrow> rw_routines s ! i = \<lparr>g_held = h, g_todo = Unlock # p\<rparr> \<Longrightarrow>
    rw_writer s = Some i \<Longrightarrow> lock_step s (advance_to i h p None s)"

definition lock_init :: "lock_op list list \<Rightarrow> rwmutex \<Rightarrow> bool" where
  "lock_init ps s \<longleftrightarrow> rw_routines s = map (\<lambda>p. \<lparr>g_held = 0, g_todo = p\<rparr>) ps \<and> rw_writer s = None"

definition finished :: "rwmutex \<Rightarrow> bool" where
  "finished s \<longleftrightarrow> list_all (\<lambda>g. g_todo g = []) (rw_routines s)"

section \<open>The operations of the exposure\<close>

definition addRelay_locks :: "lock_op list" where "addRelay_locks = [Lock, Unlock]"
definition markReady_locks :: "lock_op list" where "markReady_locks = [Lock, Unlock]"
definition markDatagramReady_locks :: "lock_op list" where "markDatagramReady_locks = [Lock, Unlock]"
definition markExhausted_locks :: "lock_op list" where "markExhausted_locks = [Lock, Unlock]"
definition Close_locks :: "lock_op list" where "Close_locks = [Lock, Unlock]"
definition Relays_locks :: "lock_op list" where "Relays_locks = [RLock, RUnlock]"
definition stateChangedSignal_locks :: "lock_op list" where "stateChangedSignal_locks = [RLock, RUnlock]"
definition exhaustedSignal_locks :: "lock_op list" where "exhaustedSignal_locks = [RLock, RUnlock]"
definition exhausted_locks :: "lock_op list" where "exhausted_locks = exhaustedSignal_locks"

definition markFailed_locks :: "bool \<Rightarrow> lock_op list" where
  "markFailed_locks exhausts = [Lock, Unlock] @ (if exhausts then markExhausted_locks else [])"

definition adoptDiscoveredRelays_locks :: "nat \<Rightarrow> lock_op list" where
  "adoptDiscoveredRelays_locks added = [RLock, RUnlock] @ concat (replicate added addRelay_locks)"

definition refreshDiscovery_locks :: "bool \<Rightarrow> bool \<Rightarrow> nat \<Rightarrow> bool \<Rightarrow> lock_op list" where
  "refreshDiscovery_locks cancelled stopped added exhausts =
     (if cancelled then []
      else [RLock, RUnlock] @
        (if stopped then []
         else adoptDiscoveredRelays_locks added @ [RLock, RUnlock] @ (if exhausts then markExhausted_locks else [])))"

definition terminalState_locks :: "lock_op list" where
  "terminalState_locks = [RLock, RUnlock] @ exhausted_locks"

text \<open>A round of \<open>Accept\<close> (\<open>AcceptDatagram\<close> is alike): it returns at once, or evaluates the two signals
  and, after some cases of the \<open>select\<close>, the terminal state again.\<close>

definition Accept_locks :: "bool \<Rightarrow> bool \<Rightarrow> lock_op list" where
  "Accept_locks terminal again =
     terminalState_locks @
     (if terminal then []
      else stateChangedSignal_locks @ exhaustedSignal_locks @ (if again then terminalState_locks else []))"

text \<open>The operations that call \<open>exhaustedSignal\<close> or \<open>exhausted\<close> with the read lock held.\<close>

definition WaitReady_locks :: "lock_op list" where
  "WaitReady_locks = [RLock] @ exhaustedSignal_locks @ [RUnlock]"

definition WaitDatagramReady_locks :: "lock_op list" where
  "WaitDatagramReady_locks = [RLock] @ exhaustedSignal_locks @ [RUnlock]"

definition SendDatagram_locks :: "lock_op list" where
  "SendDatagram_locks = [RLock] @ exhausted_locks @ [RUnlock]"

lemmas lock_defs = addRelay_locks_def markReady_locks_def markDatagramReady_locks_def markExhausted_locks_def Close_locks_def
  Relays_locks_def stateChangedSignal_locks_def exhaustedSignal_locks_def exhausted_locks_def markFailed_locks_def
  terminalState_locks_def Accept_locks_def adoptDiscoveredRelays_locks_def refreshDiscovery_locks_def

text \<open>A goroutine that makes any number of the other calls, in any order.\<close>

inductive plain_calls :: "lock_op list \<Rightarrow> bool" where
  no_call: "plain_calls []"
| call_addRelay: "plain_calls p \<Longrightarrow> plain_calls (addRelay_locks @ p)"
| call_markReady: "plain_calls p \<Longrightarrow> plain_calls (markReady_locks @ p)"
| call_markDatagramReady: "plain_calls p \<Longrightarrow> plain_calls (markDatagramReady_locks @ p)"
| call_markFailed: "plain_calls p \<Longrightarrow> plain_calls (markFailed_locks exhausts @ p)"
| call_refreshDiscovery: "plain_calls p \<Longrightarrow> plain_calls (refreshDiscovery_locks cancelled stopped added exhausts @ p)"
| call_Accept: "plain_calls p \<Longrightarrow> plain_calls (Accept_locks terminal again @ p)"
| call_Relays: "plain_calls p \<Longrightarrow> plain_calls (Relays_locks @ p)"
| call_Close: "plain_calls p \<Longrightarrow> plain_calls (Close_locks @ p)"

section \<open>One section at a time\<close>

fun flat :: "lock_op list \<Rightarrow> bool" where
  "flat [] \<longleftrightarrow> True"
| "flat (RLock # RUnlock # p) \<longleftrightarrow> flat p"
| "flat (Lock # Unlock # p) \<longleftrightarrow> flat p"
| "flat _ \<longleftrightarrow> False"

lemma flat_append: "flat p \<Longrightarrow> flat q \<Longrightarrow> flat (p @ q)"
  by (induction p rule: flat.induct) simp_all

lemma flat_added: "flat (concat (replicate n [Lock, Unlock]))"
  by (induction n) simp_all

lemma plain_calls_flat: "plain_calls p \<Longrightarrow> flat p"
  by (induction rule: plain_calls.induct) (simp_all add: lock_defs flat_append flat_added)

text \<open>Where a goroutine with such calls can be: between two sections, or inside one.\<close>

fun in_section :: "bool \<Rightarrow> goroutine \<Rightarrow> bool" where
  "in_section writes g \<longleftrightarrow>
     (if writes then g_held g = 0 \<and> (\<exists>p. (g_todo g = LockWait # Unlock # p \<or> g_todo g = Unlock # p) \<and> flat p)
      else (g_held g = 0 \<and> flat (g_todo g)) \<or> (g_held g = 1 \<and> (\<exists>p. g_todo g = RUnlock # p \<and> flat p)))"

definition lock_inv :: "rwmutex \<Rightarrow> bool" where
  "lock_inv s \<longleftrightarrow> (\<forall>i < length (rw_routines s). in_section (rw_writer s = Some i) (rw_routines s ! i)) \<and>
     (\<forall>i. rw_writer s = Some i \<longrightarrow> i < length (rw_routines s))"

fun weight :: "lock_op \<Rightarrow> nat" where
  "weight Lock = 2" | "weight _ = 1"

definition lock_rank :: "rwmutex \<Rightarrow> nat" where
  "lock_rank s = sum_list (map (\<lambda>g. sum_list (map weight (g_todo g))) (rw_routines s))"

lemma flat_cases: "flat (a # p) \<Longrightarrow> (\<exists>q. a = RLock \<and> p = RUnlock # q \<and> flat q) \<or> (\<exists>q. a = Lock \<and> p = Unlock # q \<and> flat q)"
  by (cases "a # p" rule: flat.cases) auto

lemma advance_inv:
  assumes "lock_inv s" "i < length (rw_routines s)" "in_section (wr = Some i) \<lparr>g_held = h, g_todo = p\<rparr>"
    "\<And>j. j \<noteq> i \<Longrightarrow> (wr = Some j) = (rw_writer s = Some j)"
  shows "lock_inv (advance_to i h p wr s)"
  using assms by (auto simp: lock_inv_def advance_to_def nth_list_update simp del: in_section.simps) metis

lemma lock_inv_step:
  assumes "lock_inv s" "lock_step s t"
  shows "lock_inv t"
  using assms(2,1)
proof (induction rule: lock_step.induct)
  case (read_lock i s h p)
  then have "in_section False \<lparr>g_held = h, g_todo = RLock # p\<rparr>" by (auto simp: lock_inv_def simp del: in_section.simps)
  then show ?case using read_lock by (intro advance_inv) (auto dest: flat_cases)
next
  case (read_unlock i s h p)
  then have "in_section (rw_writer s = Some i) \<lparr>g_held = Suc h, g_todo = RUnlock # p\<rparr>"
    by (auto simp: lock_inv_def simp del: in_section.simps)
  then show ?case using read_unlock by (intro advance_inv) (auto dest: flat_cases split: if_splits)
next
  case (announce i s h p)
  then have "in_section False \<lparr>g_held = h, g_todo = Lock # p\<rparr>" by (auto simp: lock_inv_def simp del: in_section.simps)
  then show ?case using announce by (intro advance_inv) (auto dest: flat_cases)
next
  case (write_lock i s h p)
  then have "in_section True \<lparr>g_held = h, g_todo = LockWait # p\<rparr>" by (auto simp: lock_inv_def simp del: in_section.simps)
  then show ?case using write_lock by (intro advance_inv) auto
next
  case (write_unlock i s h p)
  then have "in_section True \<lparr>g_held = h, g_todo = Unlock # p\<rparr>" by (auto simp: lock_inv_def simp del: in_section.simps)
  then show ?case using write_unlock by (intro advance_inv) auto
qed

lemma advance_rank:
  assumes "i < length (rw_routines s)" "sum_list (map weight p) < sum_list (map weight (todo s i))"
  shows "lock_rank (advance_to i h p wr s) < lock_rank s"
proof -
  let ?f = "\<lambda>g. sum_list (map weight (g_todo g))"
  have "?f (rw_routines s ! i) \<le> sum_list (map ?f (rw_routines s))"
    using assms(1) by (intro member_le_sum_list) simp_all
  with assms show ?thesis by (simp add: lock_rank_def advance_to_def map_update sum_list_update)
qed

lemma lock_rank_step: "lock_step s t \<Longrightarrow> lock_rank t < lock_rank s"
  by (induction rule: lock_step.induct) (auto intro!: advance_rank)

lemma section_step:
  assumes "lock_inv s" "i < length (rw_routines s)" "rw_writer s \<noteq> Some i" "g_held (rw_routines s ! i) > 0"
  shows "\<exists>t. lock_step s t"
proof -
  have "in_section False (rw_routines s ! i)" using assms(1-3) by (auto simp: lock_inv_def simp del: in_section.simps)
  with assms(4) obtain p where "rw_routines s ! i = \<lparr>g_held = Suc 0, g_todo = RUnlock # p\<rparr>"
    by (cases "rw_routines s ! i") auto
  from read_unlock [OF assms(2) this] show ?thesis by blast
qed

lemma free_step:
  assumes "lock_inv s" "rw_writer s = None" "\<not> finished s"
  shows "\<exists>t. lock_step s t"
proof -
  from assms(3) obtain i where i: "i < length (rw_routines s)" "todo s i \<noteq> []"
    by (auto simp: finished_def list_all_length)
  obtain h p where g: "rw_routines s ! i = \<lparr>g_held = h, g_todo = p\<rparr>" by (cases "rw_routines s ! i")
  have "in_section False (rw_routines s ! i)" using assms(1,2) i(1) by (auto simp: lock_inv_def simp del: in_section.simps)
  with g i(2) consider "h > 0" | a q where "p = a # q" "flat p" by (cases p) auto
  then show ?thesis
  proof cases
    case 1
    then show ?thesis using section_step [OF assms(1) i(1)] assms(2) g by simp
  next
    case 2
    then show ?thesis
      using read_lock [OF i(1) _ assms(2)] announce [OF i(1) _ assms(2)] g flat_cases [of a q] by blast
  qed
qed

lemma writer_step:
  assumes "lock_inv s" "rw_writer s = Some i"
  shows "\<exists>t. lock_step s t"
proof -
  have i: "i < length (rw_routines s)" "in_section True (rw_routines s ! i)" using assms by (auto simp: lock_inv_def)
  then obtain p where p: "rw_routines s ! i = \<lparr>g_held = 0, g_todo = LockWait # Unlock # p\<rparr> \<or>
      rw_routines s ! i = \<lparr>g_held = 0, g_todo = Unlock # p\<rparr>"
    by (cases "rw_routines s ! i") auto
  show ?thesis
  proof (cases "rw_readers s = 0")
    case True
    with p write_lock [OF i(1) _ assms(2)] write_unlock [OF i(1) _ assms(2)] show ?thesis by blast
  next
    case False
    then obtain j where j: "j < length (rw_routines s)" "g_held (rw_routines s ! j) > 0"
      by (auto simp: rw_readers_def in_set_conv_nth)
    moreover have "rw_writer s \<noteq> Some j" using p j(2) assms(2) by auto
    ultimately show ?thesis by (intro section_step [OF assms(1)])
  qed
qed

definition plain_init :: "rwmutex \<Rightarrow> bool" where
  "plain_init s \<longleftrightarrow> (\<exists>ps. list_all plain_calls ps \<and> lock_init ps s)"

lemma plain_init_inv: "plain_init s \<Longrightarrow> lock_inv s"
  by (auto simp: plain_init_def lock_init_def lock_inv_def list_all_length plain_calls_flat)

interpretation locks: progress plain_init lock_step lock_inv "\<lambda>_. True" finished lock_rank
proof unfold_locales
  fix s
  assume s: "lock_inv s" "\<not> finished s"
  then obtain t where "lock_step s t" using free_step writer_step by (cases "rw_writer s") blast+
  with lock_rank_step show "\<exists>t. lock_step s t \<and> True \<and> lock_rank t < lock_rank s" by blast
qed (use plain_init_inv lock_inv_step in blast)+


section \<open>The nested read lock\<close>

text \<open>A reader that waits for the lock which it holds itself, behind the writer that waits for it.\<close>

definition hung :: "nat \<Rightarrow> nat \<Rightarrow> rwmutex \<Rightarrow> bool" where
  "hung i j s \<longleftrightarrow> i \<noteq> j \<and> i < length (rw_routines s) \<and> j < length (rw_routines s) \<and> rw_writer s = Some j \<and>
     g_held (rw_routines s ! i) > 0 \<and> (\<exists>p. todo s i = RLock # p) \<and> (\<exists>q. todo s j = LockWait # q)"

lemma hung_readers: "hung i j s \<Longrightarrow> rw_readers s > 0"
  using member_le_sum_list [of "g_held (rw_routines s ! i)" "map g_held (rw_routines s)"]
  by (force simp: hung_def rw_readers_def)

text \<open>What asks for the lock stays as it is.\<close>

definition stalled :: "rwmutex \<Rightarrow> rwmutex \<Rightarrow> bool" where
  "stalled s t \<longleftrightarrow> length (rw_routines t) = length (rw_routines s) \<and>
     (\<forall>k < length (rw_routines s). todo s k \<noteq> [] \<longrightarrow> hd (todo s k) \<in> {RLock, Lock, LockWait} \<longrightarrow> rw_routines t ! k = rw_routines s ! k)"

lemma hung_step:
  assumes "hung i j s" "lock_step s t"
  shows "hung i j t \<and> stalled s t"
  using assms(2,1)
proof (induction rule: lock_step.induct)
  case (read_unlock k s h p)
  then show ?case by (auto simp: hung_def stalled_def advance_to_def nth_list_update)
next
  case (write_lock k s h p)
  then show ?case using hung_readers [of i j s] by simp
next
  case (write_unlock k s h p)
  then show ?case by (auto simp: hung_def)
qed (simp_all add: hung_def)

lemma hung_reachable:
  assumes "hung i j s" "reachable ((=) s) lock_step t"
  shows "hung i j t \<and> stalled s t"
  using assms(2)
proof (induction rule: reachable.induct)
  case (reach_init s')
  then show ?case using assms(1) by (auto simp: stalled_def)
next
  case (reach_step s' t)
  with hung_step [of i j s' t] show ?case by (auto simp: stalled_def)
qed

text \<open>C28. \<open>WaitReady\<close>, \<open>WaitDatagramReady\<close> and \<open>SendDatagram\<close> can deadlock the whole exposure: they take
  the read lock again while they hold it. Whenever one of them and a call that takes the write lock (a
  relay's report, \<open>addRelay\<close>, \<open>Close\<close>) are about to begin on the free mutex, there is a schedule after
  which neither ever returns and no goroutine that asks for the mutex ever gets it, whatever happens.\<close>

theorem nested_read_lock_hangs:
  assumes "call \<in> {WaitReady_locks, WaitDatagramReady_locks, SendDatagram_locks}"
    "i \<noteq> j" "i < length (rw_routines s)" "j < length (rw_routines s)" "rw_writer s = None"
    "todo s i = call @ p" "todo s j = Lock # q"
  shows "\<exists>t. reachable ((=) s) lock_step t \<and> (\<forall>u. reachable ((=) t) lock_step u \<longrightarrow>
      todo u i = tl call @ p \<and> todo u j = LockWait # q \<and>
      (\<forall>k < length (rw_routines s). k \<notin> {i, j} \<longrightarrow> todo s k \<noteq> [] \<longrightarrow> hd (todo s k) \<in> {RLock, Lock} \<longrightarrow> todo u k = todo s k))"
proof -
  have c: "call = [RLock, RLock, RUnlock, RUnlock]"
    using assms(1) by (auto simp: WaitReady_locks_def WaitDatagramReady_locks_def SendDatagram_locks_def lock_defs)
  obtain h where gi: "rw_routines s ! i = \<lparr>g_held = h, g_todo = RLock # RLock # RUnlock # RUnlock # p\<rparr>"
    using assms(6) c by (cases "rw_routines s ! i") simp
  obtain k where gj: "rw_routines s ! j = \<lparr>g_held = k, g_todo = Lock # q\<rparr>" using assms(7) by (cases "rw_routines s ! j") simp
  define r where "r = advance_to i (Suc h) (RLock # RUnlock # RUnlock # p) None s"
  define t where "t = advance_to j k (LockWait # q) (Some j) r"
  have "lock_step s r" unfolding r_def by (rule read_lock [OF assms(3) gi assms(5)])
  moreover have "lock_step r t" unfolding t_def
    by (rule announce) (use assms(2,4) gj in \<open>simp_all add: r_def advance_to_def\<close>)
  ultimately have "reachable ((=) s) lock_step t"
    using reach_step [OF reach_step [OF reach_init [of "(=) s" s]]] by simp
  moreover have "hung i j t"
    using assms(2-4) by (simp add: hung_def t_def r_def advance_to_def nth_list_update)
  moreover have "todo t i = tl call @ p" "todo t j = LockWait # q" "\<And>k. k \<notin> {i, j} \<Longrightarrow> todo t k = todo s k"
    "length (rw_routines t) = length (rw_routines s)"
    using assms(2-4) c by (simp_all add: t_def r_def advance_to_def nth_list_update)
  ultimately show ?thesis
    using hung_reachable [of i j t] c assms(3,4) by (intro exI [of _ t]) (auto simp: stalled_def)
qed

section \<open>Witnesses\<close>

definition sample_mutex :: "lock_op list list \<Rightarrow> rwmutex" where
  "sample_mutex ps = \<lparr>rw_routines = map (\<lambda>p. \<lparr>g_held = 0, g_todo = p\<rparr>) ps, rw_writer = None\<rparr>"


text \<open>A caller of \<open>WaitReady\<close> and a relay that becomes ready hang, and \<open>Close\<close> with them.\<close>

theorem nested_read_lock_hangs_witness:
  "\<exists>t. reachable ((=) (sample_mutex [WaitReady_locks, markReady_locks, Close_locks])) lock_step t \<and>
     (\<forall>u. reachable ((=) t) lock_step u \<longrightarrow> todo u 0 \<noteq> [] \<and> todo u 1 \<noteq> [] \<and> todo u 2 = Close_locks)"
proof -
  let ?s = "sample_mutex [WaitReady_locks, markReady_locks, Close_locks]"
  have "todo ?s 0 = WaitReady_locks @ []" "todo ?s 1 = Lock # [Unlock]" "rw_writer ?s = None" "length (rw_routines ?s) = 3"
    and c: "todo ?s 2 = Close_locks"
    by (simp_all add: sample_mutex_def lock_defs)
  with nested_read_lock_hangs [of WaitReady_locks 0 1 ?s "[]" "[Unlock]"]
  obtain t where t: "reachable ((=) ?s) lock_step t" "\<And>u. reachable ((=) t) lock_step u \<Longrightarrow>
      todo u 0 = tl WaitReady_locks @ [] \<and> todo u 1 = LockWait # [Unlock] \<and>
      (\<forall>k < 3. k \<notin> {0, 1} \<longrightarrow> todo ?s k \<noteq> [] \<longrightarrow> hd (todo ?s k) \<in> {RLock, Lock} \<longrightarrow> todo u k = todo ?s k)"
    by auto
  have "todo u 0 \<noteq> [] \<and> todo u 1 \<noteq> [] \<and> todo u 2 = Close_locks" if "reachable ((=) t) lock_step u" for u
    using t(2) [OF that] c by (auto simp: Close_locks_def WaitReady_locks_def lock_defs)
  with t(1) show ?thesis by blast
qed

end
