(* ===== verification/LeaseRun.thy ===== *)
theory LeaseRun
  imports Supervisor "HOL-Library.Multiset"
begin

text \<open>
  The workers of a lease (\<open>runLease\<close> of \<open>src/relay.go\<close>): the reverse session slots, the renewal loop and,
  with UDP, the datagram loop run as goroutines that send their result to a buffered channel; the first
  result, or the end of the context, cancels the lease; when all workers have ended, their results are
  merged.

  A worker's phase carries its result; \<open>lr_ready\<close> records what was announced. What a worker returns and
  when is left open, and the context may be cancelled at any time.

  The lemmas show that no worker blocks on the channel, that the lease returns only after every worker has
  ended and from exactly one result of each, that it always can return once its workers do, and that
  readiness is announced at most once.
\<close>

section \<open>Workers and steps\<close>

datatype worker_phase = WRunning | WSending "go_error option" | WSent "go_error option" | WEnded "go_error option"

datatype lease_phase = Selecting | Waiting "go_error option list" | Collecting "go_error option list"
  | Returned "go_error option list" go_error

record lease_run =
  lr_workers :: "worker_phase list"
  lr_results :: "go_error option list"
  lr_main :: lease_phase
  lr_ctxErr :: "go_error option"
  lr_cancelled :: bool
  lr_announced :: bool
  lr_ready :: "string list"

definition lease_start :: "('k, 'p) relaySupervisor \<Rightarrow> lease_run" where
  "lease_start s = \<lparr>lr_workers = replicate (workerCount s) WRunning, lr_results = [], lr_main = Selecting, lr_ctxErr = None,
     lr_cancelled = False, lr_announced = False, lr_ready = []\<rparr>"

text \<open>\<open>announceReady\<close> with its \<open>sync.Once\<close>.\<close>

definition announceReady :: "string \<Rightarrow> lease_run \<Rightarrow> lease_run" where
  "announceReady url x = (if lr_announced x then x else x\<lparr>lr_announced := True, lr_ready := lr_ready x @ [url]\<rparr>)"

definition set_worker :: "nat \<Rightarrow> worker_phase \<Rightarrow> lease_run \<Rightarrow> lease_run" where
  "set_worker i ph x = x\<lparr>lr_workers := (lr_workers x)[i := ph]\<rparr>"

definition all_ended :: "lease_run \<Rightarrow> bool" where
  "all_ended x \<longleftrightarrow> list_all (\<lambda>ph. case ph of WEnded _ \<Rightarrow> True | _ \<Rightarrow> False) (lr_workers x)"

inductive lease_step :: "lease_run \<Rightarrow> lease_run \<Rightarrow> bool" where
  announce: "i < reverseSessionSlots \<Longrightarrow> lr_workers x ! i = WRunning \<Longrightarrow> lease_step x (announceReady url x)"
| worker_returns: "i < length (lr_workers x) \<Longrightarrow> lr_workers x ! i = WRunning \<Longrightarrow> lease_step x (set_worker i (WSending r) x)"
| worker_sends: "i < length (lr_workers x) \<Longrightarrow> lr_workers x ! i = WSending r \<Longrightarrow> length (lr_results x) < length (lr_workers x) \<Longrightarrow>
    lease_step x ((set_worker i (WSent r) x)\<lparr>lr_results := lr_results x @ [r]\<rparr>)"
| worker_done: "i < length (lr_workers x) \<Longrightarrow> lr_workers x ! i = WSent r \<Longrightarrow> lease_step x (set_worker i (WEnded r) x)"
| context_done: "lr_ctxErr x = None \<Longrightarrow> lease_step x (x\<lparr>lr_ctxErr := Some e\<rparr>)"
| select_context: "lr_main x = Selecting \<Longrightarrow> lr_ctxErr x \<noteq> None \<Longrightarrow>
    lease_step x (x\<lparr>lr_main := Waiting [], lr_cancelled := True\<rparr>)"
| select_result: "lr_main x = Selecting \<Longrightarrow> lr_results x = r # rs \<Longrightarrow>
    lease_step x (x\<lparr>lr_main := Waiting [r], lr_results := rs, lr_cancelled := True\<rparr>)"
| waited: "lr_main x = Waiting rs \<Longrightarrow> all_ended x \<Longrightarrow> lease_step x (x\<lparr>lr_main := Collecting rs\<rparr>)"
| collect: "lr_main x = Collecting ws \<Longrightarrow> length ws < length (lr_workers x) \<Longrightarrow> lr_results x = r # rs \<Longrightarrow>
    lease_step x (x\<lparr>lr_main := Collecting (ws @ [r]), lr_results := rs\<rparr>)"
| return: "lr_main x = Collecting ws \<Longrightarrow> \<not> length ws < length (lr_workers x) \<Longrightarrow>
    lease_step x (x\<lparr>lr_main := Returned ws (mergeWorkerResults (lr_ctxErr x) ws)\<rparr>)"

section \<open>Accounting of the results\<close>

fun sent_result :: "worker_phase \<Rightarrow> go_error option multiset" where
  "sent_result (WSent r) = {#r#}"
| "sent_result (WEnded r) = {#r#}"
| "sent_result _ = {#}"

definition sent :: "worker_phase list \<Rightarrow> go_error option multiset" where
  "sent ps = sum_list (map sent_result ps)"

fun received :: "lease_phase \<Rightarrow> go_error option list" where
  "received Selecting = []"
| "received (Waiting rs) = rs"
| "received (Collecting rs) = rs"
| "received (Returned rs _) = rs"

lemma sent_update: "i < length ps \<Longrightarrow> sent (ps[i := ph]) + sent_result (ps ! i) = sent ps + sent_result ph"
proof -
  assume i: "i < length ps"
  have "sent ps = sum_list (map sent_result (take i ps @ ps ! i # drop (Suc i) ps))"
    using id_take_nth_drop [OF i] by (simp add: sent_def)
  moreover have "sent (ps[i := ph]) = sum_list (map sent_result (take i ps @ ph # drop (Suc i) ps))"
    using upd_conv_take_nth_drop [OF i] by (simp add: sent_def)
  ultimately show ?thesis by (simp add: ac_simps)
qed

lemma size_sent: "size (sent ps) \<le> length ps"
proof (induction ps)
  case (Cons p ps)
  then show ?case by (cases p) (simp_all add: sent_def)
qed (simp add: sent_def)

lemma size_sent_less: "i < length ps \<Longrightarrow> sent_result (ps ! i) = {#} \<Longrightarrow> size (sent ps) < length ps"
proof -
  assume i: "i < length ps" "sent_result (ps ! i) = {#}"
  have "sent (ps[i := WEnded None]) = sent ps + {#None#}" using sent_update [OF i(1), of "WEnded None"] i(2) by simp
  with size_sent [of "ps[i := WEnded None]"] show ?thesis by simp
qed

lemma all_ended_sent: "all_ended x \<Longrightarrow> size (sent (lr_workers x)) = length (lr_workers x)"
proof -
  have "list_all (\<lambda>ph. case ph of WEnded _ \<Rightarrow> True | _ \<Rightarrow> False) ps \<Longrightarrow> size (sent ps) = length ps" for ps
  proof (induction ps)
    case (Cons p ps)
    then show ?case by (cases p) (simp_all add: sent_def)
  qed (simp add: sent_def)
  then show "all_ended x \<Longrightarrow> ?thesis" by (simp add: all_ended_def)
qed

definition lease_inv :: "nat \<Rightarrow> lease_run \<Rightarrow> bool" where
  "lease_inv n x \<longleftrightarrow> length (lr_workers x) = n \<and>
     mset (lr_results x) + mset (received (lr_main x)) = sent (lr_workers x) \<and>
     (case lr_main x of
        Selecting \<Rightarrow> \<not> lr_cancelled x
      | Waiting _ \<Rightarrow> lr_cancelled x
      | Collecting rs \<Rightarrow> lr_cancelled x \<and> all_ended x
      | Returned rs e \<Rightarrow> lr_cancelled x \<and> all_ended x \<and> length rs = n \<and> (\<exists>ctx. e = mergeWorkerResults ctx rs \<and> (ctx \<noteq> None \<longrightarrow> ctx = lr_ctxErr x))) \<and>
     lr_announced x = (lr_ready x \<noteq> []) \<and> length (lr_ready x) \<le> 1"

lemma all_ended_nth: "all_ended x \<Longrightarrow> i < length (lr_workers x) \<Longrightarrow> \<exists>r. lr_workers x ! i = WEnded r"
  by (cases "lr_workers x ! i") (auto simp: all_ended_def list_all_length)

lemma set_worker_fields [simp]:
  "lr_workers (set_worker i ph x) = (lr_workers x)[i := ph]" "lr_results (set_worker i ph x) = lr_results x"
  "lr_main (set_worker i ph x) = lr_main x" "lr_cancelled (set_worker i ph x) = lr_cancelled x"
  "lr_announced (set_worker i ph x) = lr_announced x" "lr_ready (set_worker i ph x) = lr_ready x"
  "lr_ctxErr (set_worker i ph x) = lr_ctxErr x"
  by (simp_all add: set_worker_def)

text \<open>A step of a worker that has not ended: the lease is not being collected yet.\<close>

lemma not_ended_phase:
  assumes "lease_inv n x" "i < length (lr_workers x)" "\<And>r. lr_workers x ! i \<noteq> WEnded r"
  shows "lr_main x = Selecting \<or> (\<exists>rs. lr_main x = Waiting rs)"
  using assms all_ended_nth [of x i] by (cases "lr_main x") (auto simp: lease_inv_def)

lemma lease_inv_worker:
  assumes inv: "lease_inv n x" and i: "i < length (lr_workers x)" "\<And>r. lr_workers x ! i \<noteq> WEnded r"
    and y: "lr_workers y = (lr_workers x)[i := ph]" "lr_main y = lr_main x" "lr_cancelled y = lr_cancelled x"
      "lr_announced y = lr_announced x" "lr_ready y = lr_ready x"
    and res: "mset (lr_results y) + sent_result (lr_workers x ! i) = mset (lr_results x) + sent_result ph"
  shows "lease_inv n y"
proof -
  have "mset (lr_results x) + mset (received (lr_main x)) = sent (lr_workers x)" using inv by (simp add: lease_inv_def)
  then have "mset (lr_results y) + mset (received (lr_main x)) + sent_result (lr_workers x ! i) = sent (lr_workers x) + sent_result ph"
    using res by (metis add.assoc add.commute)
  then have "mset (lr_results y) + mset (received (lr_main y)) = sent (lr_workers y)"
    using sent_update [OF i(1), of ph] y(1,2) by (metis add_right_cancel)
  then show ?thesis using inv not_ended_phase [OF inv i] y by (auto simp: lease_inv_def)
qed

lemma lease_inv_step:
  assumes "lease_inv n x" "lease_step x y"
  shows "lease_inv n y"
  using assms(2)
proof cases
  case (announce i url)
  have "all_ended (announceReady url x) = all_ended x" by (simp add: announceReady_def all_ended_def)
  with assms(1) announce show ?thesis by (auto simp: lease_inv_def announceReady_def split: lease_phase.splits)
next
  case (worker_returns i r)
  with assms(1) show ?thesis by (intro lease_inv_worker [OF assms(1), where i = i and ph = "WSending r"]) auto
next
  case (worker_sends i r)
  with assms(1) show ?thesis by (intro lease_inv_worker [OF assms(1), where i = i and ph = "WSent r"]) auto
next
  case (worker_done i r)
  with assms(1) show ?thesis by (intro lease_inv_worker [OF assms(1), where i = i and ph = "WEnded r"]) auto
next
  case (context_done e)
  with assms(1) show ?thesis by (auto simp: lease_inv_def all_ended_def split: lease_phase.splits)
next
  case select_context
  with assms(1) show ?thesis by (simp add: lease_inv_def)
next
  case (select_result r rs)
  with assms(1) show ?thesis by (simp add: lease_inv_def)
next
  case (waited rs)
  with assms(1) show ?thesis by (simp add: lease_inv_def all_ended_def)
next
  case (collect ws r rs)
  with assms(1) show ?thesis by (simp add: lease_inv_def all_ended_def)
next
  case (return ws)
  have "size (sent (lr_workers x)) = length (lr_workers x)"
    using assms(1) return by (intro all_ended_sent) (simp add: lease_inv_def)
  moreover have "length ws \<le> size (sent (lr_workers x))"
    using assms(1) return by (metis lease_inv_def le_add2 received.simps(3) size_mset size_union)
  ultimately show ?thesis using assms(1) return by (auto simp: lease_inv_def all_ended_def)
qed

lemma lease_inv_start: "lease_inv (workerCount s) (lease_start s)"
proof -
  have "sent (replicate n WRunning) = {#}" for n by (induction n) (simp_all add: sent_def)
  then show ?thesis by (simp add: lease_inv_def lease_start_def)
qed

section \<open>Properties\<close>

lemma channel_room:
  assumes "lease_inv n x" "i < length (lr_workers x)" "lr_workers x ! i = WSending r"
  shows "length (lr_results x) < length (lr_workers x)"
proof -
  have "length (lr_results x) \<le> size (sent (lr_workers x))"
    using assms(1) by (metis lease_inv_def le_add1 size_mset size_union)
  with size_sent_less [OF assms(2)] assms(3) show ?thesis by simp
qed

text \<open>Steps that bring a lease whose workers have all returned closer to its end.\<close>

definition quiet :: "lease_run \<Rightarrow> bool" where
  "quiet x \<longleftrightarrow> WRunning \<notin> set (lr_workers x)"

fun worker_rank :: "worker_phase \<Rightarrow> nat" where
  "worker_rank WRunning = 3" | "worker_rank (WSending _) = 2" | "worker_rank (WSent _) = 1" | "worker_rank (WEnded _) = 0"

fun main_rank :: "nat \<Rightarrow> lease_phase \<Rightarrow> nat" where
  "main_rank n Selecting = n + 3"
| "main_rank n (Waiting _) = n + 2"
| "main_rank n (Collecting rs) = n - length rs + 1"
| "main_rank n (Returned _ _) = 0"

definition lease_rank :: "lease_run \<Rightarrow> nat" where
  "lease_rank x = sum_list (map worker_rank (lr_workers x)) + main_rank (length (lr_workers x)) (lr_main x)"

lemma rank_update:
  "i < length ps \<Longrightarrow> worker_rank ph < worker_rank (ps ! i) \<Longrightarrow>
    sum_list (map worker_rank (ps[i := ph])) < sum_list (map worker_rank ps)"
  by (induction ps arbitrary: i) (auto split: nat.splits)

lemma quiet_update: "quiet x \<Longrightarrow> ph \<noteq> WRunning \<Longrightarrow> WRunning \<notin> set ((lr_workers x)[i := ph])"
  using set_update_subset_insert [of "lr_workers x" i ph] by (auto simp: quiet_def)

lemma worker_progress:
  assumes "lease_inv n x" "quiet x" "\<not> all_ended x"
  shows "\<exists>y. lease_step x y \<and> quiet y \<and> lease_rank y < lease_rank x"
proof -
  from assms(3) obtain i where "i < length (lr_workers x)" "\<not> (case lr_workers x ! i of WEnded _ \<Rightarrow> True | _ \<Rightarrow> False)"
    by (auto simp: all_ended_def list_all_length)
  then have i: "i < length (lr_workers x)" "\<And>r. lr_workers x ! i \<noteq> WEnded r" by auto
  have "lr_workers x ! i \<noteq> WRunning" using assms(2) i(1) nth_mem unfolding quiet_def by metis
  with i(2) consider (sending) r where "lr_workers x ! i = WSending r" | (sent) r where "lr_workers x ! i = WSent r"
    by (cases "lr_workers x ! i") auto
  then show ?thesis
  proof cases
    case sending
    note step = worker_sends [OF i(1) sending channel_room [OF assms(1) i(1) sending]]
    show ?thesis
      by (rule exI, rule conjI [OF step])
        (use quiet_update [OF assms(2), of "WSent r" i] rank_update [OF i(1), of "WSent r"] sending in
          \<open>simp add: quiet_def lease_rank_def\<close>)
  next
    case sent
    show ?thesis
      by (rule exI, rule conjI [OF worker_done [OF i(1) sent]])
        (use quiet_update [OF assms(2), of "WEnded r" i] rank_update [OF i(1), of "WEnded r"] sent in
          \<open>simp add: quiet_def lease_rank_def\<close>)
  qed
qed

lemma main_step_progress:
  assumes "lease_step x y" "lr_workers y = lr_workers x" "quiet x"
    "main_rank (length (lr_workers x)) (lr_main y) < main_rank (length (lr_workers x)) (lr_main x)"
  shows "\<exists>y. lease_step x y \<and> quiet y \<and> lease_rank y < lease_rank x"
  using assms by (intro exI [of _ y]) (simp add: quiet_def lease_rank_def)

lemma main_progress:
  assumes "lease_inv n x" "quiet x" "all_ended x" "0 < n" "\<And>rs e. lr_main x \<noteq> Returned rs e"
  shows "\<exists>y. lease_step x y \<and> quiet y \<and> lease_rank y < lease_rank x"
proof -
  have n: "length (lr_workers x) = n" using assms(1) by (simp add: lease_inv_def)
  have "mset (lr_results x) + mset (received (lr_main x)) = sent (lr_workers x)" using assms(1) by (simp add: lease_inv_def)
  then have sz: "length (lr_results x) + length (received (lr_main x)) = n"
    using all_ended_sent [OF assms(3)] n by (metis size_mset size_union)
  show ?thesis
  proof (cases "lr_main x")
    case Selecting
    with sz assms(4) obtain r rs where "lr_results x = r # rs" by (cases "lr_results x") auto
    from main_step_progress [OF select_result [OF Selecting this]] show ?thesis using assms(2) Selecting by simp
  next
    case (Waiting rs)
    from main_step_progress [OF waited [OF Waiting assms(3)]] show ?thesis using assms(2) Waiting by simp
  next
    case (Collecting ws)
    show ?thesis
    proof (cases "length ws < n")
      case True
      with sz Collecting obtain r rs where "lr_results x = r # rs" by (cases "lr_results x") auto
      from main_step_progress [OF collect [OF Collecting _ this]] show ?thesis using assms(2) Collecting True n by simp
    next
      case False
      from main_step_progress [OF return [OF Collecting]] show ?thesis using assms(2) Collecting False n by simp
    qed
  qed (use assms(5) in blast)
qed

definition returned :: "lease_run \<Rightarrow> bool" where
  "returned x \<longleftrightarrow> (case lr_main x of Returned _ _ \<Rightarrow> True | _ \<Rightarrow> False)"

lemma returned_iff: "returned x \<longleftrightarrow> (\<exists>rs e. lr_main x = Returned rs e)"
  by (simp add: returned_def split: lease_phase.split)

interpretation lease: progress "(=) (lease_start s)" lease_step "lease_inv (workerCount s)" quiet returned lease_rank for s
proof unfold_locales
  fix x
  assume "lease_inv (workerCount s) x" "quiet x" "\<not> returned x"
  then show "\<exists>y. lease_step x y \<and> quiet y \<and> lease_rank y < lease_rank x"
    using worker_progress main_progress unfolding returned_iff workerCount_def by (cases "all_ended x") fastforce+
qed (auto simp: lease_inv_start intro: lease_inv_step)

text \<open>C15. A lease ends when its workers do: from every reachable state in which no worker is still running,
  whatever the workers have returned and wherever the interleaving stopped, the lease can go on until it
  returns; no worker ever blocks on the channel of results.\<close>

theorem lease_run_ends:
  assumes "reachable ((=) (lease_start s)) lease_step x"
  shows "(\<forall>i r. i < length (lr_workers x) \<longrightarrow> lr_workers x ! i = WSending r \<longrightarrow> length (lr_results x) < workerCount s) \<and>
    (WRunning \<notin> set (lr_workers x) \<longrightarrow> (\<exists>y rs e. reachable ((=) x) lease_step y \<and> lr_main y = Returned rs e))"
proof -
  note inv = lease.reachable_inv [OF assms]
  with lease.reaches_goal [OF assms] channel_room [OF inv] show ?thesis
    unfolding returned_iff by (auto simp: quiet_def lease_inv_def)
qed

text \<open>C14. A lease that has returned has cancelled its workers and waited for all of them, has taken exactly
  one result of each, and has announced readiness at most once; unless the context ended, its verdict is
  terminal if some worker failed terminally, else a refresh if some worker lost the lease, else a retry,
  whatever the order in which the workers ended; and, without a terminal failure, the supervisor goes on to
  register again exactly when some worker lost the lease.\<close>

theorem lease_returns_merged:
  assumes "reachable ((=) (lease_start s)) lease_step x" "lr_main x = Returned rs e"
  shows "lr_cancelled x \<and> all_ended x \<and> lr_results x = [] \<and> mset rs = sent (lr_workers x) \<and> length (lr_ready x) \<le> 1 \<and>
    (lr_ctxErr x = None \<longrightarrow> verdict_of (Some e) =
      (if \<exists>err. WEnded (Some err) \<in> set (lr_workers x) \<and> isTerminalRelayFailure err then Terminal
       else if \<exists>err. WEnded (Some err) \<in> set (lr_workers x) \<and> errors_Is err ErrLeaseRefresh then Refresh else Retry) \<and>
      ((\<forall>err. WEnded (Some err) \<in> set (lr_workers x) \<longrightarrow> \<not> isTerminalRelayFailure err) \<longrightarrow>
        (snd (runAfterLease None e s) = Continue \<longleftrightarrow>
          (\<exists>err. WEnded (Some err) \<in> set (lr_workers x) \<and> errors_Is err ErrLeaseRefresh))))"
proof -
  note inv = lease.reachable_inv [OF assms(1)]
  from inv assms(2) have ended: "all_ended x" and n: "length rs = length (lr_workers x)" and rest: "lr_cancelled x" "length (lr_ready x) \<le> 1"
    and ms: "mset (lr_results x) + mset rs = sent (lr_workers x)" and e: "lr_ctxErr x = None \<Longrightarrow> e = mergeWorkerResults None rs"
    by (auto simp: lease_inv_def)
  from ms all_ended_sent [OF ended] n have empty: "lr_results x = []"
    by (metis add_cancel_left_left length_0_conv size_mset size_union)
  with ms have rs: "mset rs = sent (lr_workers x)" by simp
  have "set_mset (sent ps) = {r. WEnded r \<in> set ps}" if "list_all (\<lambda>ph. case ph of WEnded _ \<Rightarrow> True | _ \<Rightarrow> False) ps" for ps
    using that
  proof (induction ps)
    case (Cons p ps)
    then show ?case by (cases p) (auto simp: sent_def)
  qed (simp add: sent_def)
  with ended rs have "set rs = {r. WEnded r \<in> set (lr_workers x)}" unfolding all_ended_def by (metis set_mset_mset)
  then have "\<And>r. r \<in> set rs \<longleftrightarrow> WEnded r \<in> set (lr_workers x)" by simp
  with e mergeWorkerResults_verdict [of rs] have v: "lr_ctxErr x = None \<Longrightarrow> verdict_of (Some e) =
      (if \<exists>err. WEnded (Some err) \<in> set (lr_workers x) \<and> isTerminalRelayFailure err then Terminal
       else if \<exists>err. WEnded (Some err) \<in> set (lr_workers x) \<and> errors_Is err ErrLeaseRefresh then Refresh else Retry)"
    by presburger
  have "verdict_of (Some e) \<noteq> Terminal \<Longrightarrow> snd (runAfterLease None e s) = Continue \<longleftrightarrow> verdict_of (Some e) = Refresh"
    by (simp add: runAfterLease_def verdict_of_def split: if_splits)
  with v show ?thesis using ended empty rs rest by (cases "lr_ctxErr x") (auto split: if_splits)
qed

section \<open>Witnesses\<close>

lemma workers_return:
  "k \<le> workerCount s \<Longrightarrow> reachable ((=) (lease_start s)) lease_step
    ((lease_start s)\<lparr>lr_workers := replicate k (WSending None) @ replicate (workerCount s - k) WRunning\<rparr>)"
proof (induction k)
  case 0
  show ?case by (rule reach_init) (simp add: lease_start_def)
next
  case (Suc k)
  let ?x = "(lease_start s)\<lparr>lr_workers := replicate k (WSending None) @ replicate (workerCount s - k) WRunning\<rparr>"
  have run: "replicate (workerCount s - k) WRunning = WRunning # replicate (workerCount s - Suc k) WRunning"
    using Suc.prems by (metis Suc_diff_le diff_Suc_Suc replicate_Suc)
  have "lease_step ?x (set_worker k (WSending None) ?x)"
    by (rule worker_returns) (use Suc.prems in \<open>simp_all add: run nth_append\<close>)
  moreover have "set_worker k (WSending None) ?x =
      (lease_start s)\<lparr>lr_workers := replicate (Suc k) (WSending None) @ replicate (workerCount s - Suc k) WRunning\<rparr>"
  proof -
    have "(replicate k (WSending None) @ WRunning # rest)[k := WSending None] = replicate (Suc k) (WSending None) @ rest" for rest
      by (simp add: list_update_append flip: replicate_append_same)
    then show ?thesis unfolding set_worker_def run by simp
  qed
  ultimately show ?case using Suc by (metis Suc_leD reach_step)
qed

lemma all_returned:
  obtains x where "reachable ((=) (lease_start s)) lease_step x" "WRunning \<notin> set (lr_workers x)"
  using workers_return [of "workerCount s" s] that by fastforce

theorem lease_run_ends_witness:
  "\<exists>x y rs e. reachable ((=) (lease_start sample_leased)) lease_step x \<and> reachable ((=) x) lease_step y \<and> lr_main y = Returned rs e"
proof -
  obtain x where x: "reachable ((=) (lease_start sample_leased)) lease_step x" "WRunning \<notin> set (lr_workers x)"
    by (rule all_returned)
  from lease_run_ends [OF x(1)] x show ?thesis by blast
qed

theorem lease_returns_merged_witness:
  "\<exists>x rs e. reachable ((=) (lease_start sample_leased)) lease_step x \<and> lr_main x = Returned rs e \<and> mset rs = sent (lr_workers x)"
proof -
  obtain x where x: "reachable ((=) (lease_start sample_leased)) lease_step x" "WRunning \<notin> set (lr_workers x)"
    by (rule all_returned)
  obtain y rs e where y: "reachable ((=) x) lease_step y" "lr_main y = Returned rs e"
    using lease.reaches_goal [OF x(1)] x(2) by (auto simp: quiet_def returned_iff)
  have "reachable ((=) (lease_start sample_leased)) lease_step y" using reachable_trans [OF y(1) x(1)] .
  with lease_returns_merged [OF this y(2)] y(2) show ?thesis by blast
qed

end
