(* ===== verification/GoOs.thy ===== *)
theory GoOs
  imports RelayErrors "HOL-Library.Finite_Map"
begin

unbundle bit_operations_syntax

text \<open>
  What the command line tool uses of the packages \<open>os\<close>, \<open>path/filepath\<close> and \<open>time\<close>: a file system
  that other processes may change between two calls, system calls that may fail, and a clock.

  A location is the list of the names from an entry up to the root. A file carries the number of its
  inode, so that a descriptor keeps meaning the file it was opened for when the entry is replaced.
  Symbolic links and the permissions of the caller are left out (a refused access is a failure of the
  call); reading a file is one call.
\<close>

section \<open>File system\<close>

datatype node = File nat string int | Dir int

type_synonym location = "string list"
type_synonym file_system = "(location, node) fmap"

definition is_sep :: "char \<Rightarrow> bool" where
  "is_sep ch \<longleftrightarrow> ch = CHR ''/''"

definition node_at :: "file_system \<Rightarrow> location \<Rightarrow> node option" where
  "node_at fs loc = (if loc = [] then Some (Dir 0x1ED) else fmlookup fs loc)"

definition enter :: "string \<Rightarrow> location \<Rightarrow> location" where
  "enter name loc = (if name = [] \<or> name = ''.'' then loc else if name = ''..'' then drop 1 loc else name # loc)"

definition ENOTDIR :: go_error where
  "ENOTDIR = ErrorText ''not a directory''"

definition EISDIR :: go_error where
  "EISDIR = ErrorText ''is a directory''"

text \<open>The kernel follows a path: every directory on the way is looked up; the last entry need not exist.\<close>

fun walk :: "file_system \<Rightarrow> location \<Rightarrow> string list \<Rightarrow> go_error + location" where
  "walk fs loc [] = Inr loc"
| "walk fs loc (name # names) =
     (case node_at fs loc of
        None \<Rightarrow> Inl ErrNotExist
      | Some (File _ _ _) \<Rightarrow> Inl ENOTDIR
      | Some (Dir _) \<Rightarrow> walk fs (enter name loc) names)"

definition locate :: "location \<Rightarrow> string \<Rightarrow> file_system \<Rightarrow> go_error + location" where
  "locate cwd path fs =
     (if path = [] then Inl ErrNotExist
      else walk fs (if is_sep (hd path) then [] else cwd) (split_on (CHR ''/'') path))"

section \<open>System calls\<close>

text \<open>What happens around one call: other processes act first and time passes; then the call may fail.
  A \<open>write\<close> transfers \<open>h_count\<close> bytes (\<open>None\<close>: all of them).\<close>

record happening =
  h_others :: "file_system \<Rightarrow> file_system"
  h_elapsed :: nat
  h_fails :: "go_error option"
  h_count :: "nat option"

record os_env =
  oe_cwd :: location
  oe_umask :: int
  oe_happens :: "nat \<Rightarrow> happening"

text \<open>\<open>os_calls\<close> numbers the calls, and \<open>os_removals\<close> is a history of the attempted removals: the number of
  the call and the path.\<close>

record os_state =
  os_fs :: file_system
  os_now :: int
  os_calls :: nat
  os_removals :: "(nat \<times> string) list"

definition happens :: "os_env \<Rightarrow> os_state \<Rightarrow> happening" where
  "happens env s = oe_happens env (os_calls s)"

definition before_call :: "os_env \<Rightarrow> os_state \<Rightarrow> os_state" where
  "before_call env s = (let h = happens env s in
     s\<lparr>os_fs := h_others h (os_fs s), os_now := os_now s + int (h_elapsed h), os_calls := os_calls s + 1\<rparr>)"

text \<open>A call with the description that a \<open>PathError\<close> carries.\<close>

definition syscall :: "string \<Rightarrow> (file_system \<Rightarrow> go_error + 'a \<times> file_system) \<Rightarrow> os_env \<Rightarrow> os_state \<Rightarrow>
    (go_error + 'a) \<times> os_state" where
  "syscall what f env s =
     (let s' = before_call env s in
      case h_fails (happens env s) of
        Some e \<Rightarrow> (Inl (Wrapped what e), s')
      | None \<Rightarrow>
          (case f (os_fs s') of
             Inl e \<Rightarrow> (Inl (Wrapped what e), s')
           | Inr (x, fs) \<Rightarrow> (Inr x, s'\<lparr>os_fs := fs\<rparr>)))"

text \<open>A function on the entry that a path leads to.\<close>

definition at_path :: "os_env \<Rightarrow> string \<Rightarrow> (location \<Rightarrow> node option \<Rightarrow> file_system \<Rightarrow> go_error + 'a \<times> file_system) \<Rightarrow>
    file_system \<Rightarrow> go_error + 'a \<times> file_system" where
  "at_path env path f fs =
     (case locate (oe_cwd env) path fs of
        Inl e \<Rightarrow> Inl e
      | Inr loc \<Rightarrow> f loc (node_at fs loc) fs)"

definition ReadFile :: "os_env \<Rightarrow> string \<Rightarrow> os_state \<Rightarrow> (go_error + string) \<times> os_state" where
  "ReadFile env path = syscall (''open '' @ path)
     (at_path env path (\<lambda>loc n fs. case n of
        None \<Rightarrow> Inl ErrNotExist
      | Some (Dir _) \<Rightarrow> Inl EISDIR
      | Some (File _ contents _) \<Rightarrow> Inr (contents, fs))) env"

definition Mkdir :: "os_env \<Rightarrow> string \<Rightarrow> int \<Rightarrow> os_state \<Rightarrow> (go_error + unit) \<times> os_state" where
  "Mkdir env path perm = syscall (''mkdir '' @ path)
     (at_path env path (\<lambda>loc n fs. case n of
        None \<Rightarrow> Inr ((), fmupd loc (Dir (perm AND NOT (oe_umask env))) fs)
      | Some _ \<Rightarrow> Inl ErrExist)) env"

fun set_mode :: "int \<Rightarrow> node \<Rightarrow> node" where
  "set_mode perm (File i contents _) = File i contents perm"
| "set_mode perm (Dir _) = Dir perm"

definition Chmod :: "os_env \<Rightarrow> string \<Rightarrow> int \<Rightarrow> os_state \<Rightarrow> (go_error + unit) \<times> os_state" where
  "Chmod env path perm = syscall (''chmod '' @ path)
     (at_path env path (\<lambda>loc n fs. case n of
        None \<Rightarrow> Inl ErrNotExist
      | Some nd \<Rightarrow> Inr ((), if loc = [] then fs else fmupd loc (set_mode perm nd) fs))) env"

text \<open>\<open>Stat\<close>, of which the code reads only \<open>IsDir\<close>.\<close>

definition Stat_IsDir :: "os_env \<Rightarrow> string \<Rightarrow> os_state \<Rightarrow> (go_error + bool) \<times> os_state" where
  "Stat_IsDir env path = syscall (''stat '' @ path)
     (at_path env path (\<lambda>loc n fs. case n of
        None \<Rightarrow> Inl ErrNotExist
      | Some (Dir _) \<Rightarrow> Inr (True, fs)
      | Some (File _ _ _) \<Rightarrow> Inr (False, fs))) env"

text \<open>\<open>Remove\<close>: a file, or an empty directory.\<close>

definition has_entries :: "location \<Rightarrow> file_system \<Rightarrow> bool" where
  "has_entries loc fs \<longleftrightarrow> fBex (fmdom fs) (\<lambda>l. l \<noteq> [] \<and> tl l = loc)"

definition Remove :: "os_env \<Rightarrow> string \<Rightarrow> os_state \<Rightarrow> (go_error + unit) \<times> os_state" where
  "Remove env path s = syscall (''remove '' @ path)
     (at_path env path (\<lambda>loc n fs. case n of
        None \<Rightarrow> Inl ErrNotExist
      | Some (File _ _ _) \<Rightarrow> Inr ((), fmdrop loc fs)
      | Some (Dir _) \<Rightarrow>
          if loc = [] \<or> has_entries loc fs then Inl (ErrorText ''directory not empty'') else Inr ((), fmdrop loc fs))) env
     (s\<lparr>os_removals := os_removals s @ [(os_calls s, path)]\<rparr>)"

subsection \<open>Descriptors\<close>

fun inode_of :: "node \<Rightarrow> nat option" where
  "inode_of (File i _ _) = Some i"
| "inode_of (Dir _) = None"

definition inodes :: "file_system \<Rightarrow> nat set" where
  "inodes fs = {i. \<exists>loc nd. fmlookup fs loc = Some nd \<and> inode_of nd = Some i}"

text \<open>An inode number that no file has.\<close>

definition fresh_inode :: "file_system \<Rightarrow> nat" where
  "fresh_inode fs = Suc (\<Sum>loc \<in> fset (fmdom fs). case fmlookup fs loc of Some (File i _ _) \<Rightarrow> i | _ \<Rightarrow> 0)"

text \<open>\<open>OpenFile\<close> with \<open>O_WRONLY | O_CREATE | O_EXCL\<close>; the result is the inode of the new file.\<close>

definition OpenFile_excl :: "os_env \<Rightarrow> string \<Rightarrow> int \<Rightarrow> os_state \<Rightarrow> (go_error + nat) \<times> os_state" where
  "OpenFile_excl env path perm = syscall (''open '' @ path)
     (\<lambda>fs. if path \<noteq> [] \<and> is_sep (last path) then Inl EISDIR
       else at_path env path (\<lambda>loc n fs. case n of
          Some _ \<Rightarrow> Inl ErrExist
        | None \<Rightarrow> (let i = fresh_inode fs in Inr (i, fmupd loc (File i [] (perm AND NOT (oe_umask env))) fs))) fs) env"

definition on_inode :: "nat \<Rightarrow> (string \<Rightarrow> int \<Rightarrow> node) \<Rightarrow> node \<Rightarrow> node" where
  "on_inode i f nd = (case nd of File j contents perm \<Rightarrow> if j = i then f contents perm else nd | Dir _ \<Rightarrow> nd)"

definition File_Chmod :: "os_env \<Rightarrow> nat \<Rightarrow> int \<Rightarrow> os_state \<Rightarrow> (go_error + unit) \<times> os_state" where
  "File_Chmod env i perm = syscall ''chmod'' (\<lambda>fs. Inr ((), fmmap (on_inode i (\<lambda>contents _. File i contents perm)) fs)) env"

text \<open>The first write to a descriptor: the bytes go to the beginning of the file, also those of a write
  that fails half-way.\<close>

definition File_Write :: "os_env \<Rightarrow> nat \<Rightarrow> string \<Rightarrow> os_state \<Rightarrow> (nat \<times> go_error option) \<times> os_state" where
  "File_Write env i bytes s =
     (let h = happens env s; s' = before_call env s;
          n = (case h_count h of None \<Rightarrow> length bytes | Some n \<Rightarrow> min n (length bytes));
          s' = s'\<lparr>os_fs := fmmap (on_inode i (\<lambda>contents perm. File i (take n bytes @ drop n contents) perm)) (os_fs s')\<rparr>
      in ((n, h_fails h), s'))"

definition File_Close :: "os_env \<Rightarrow> nat \<Rightarrow> os_state \<Rightarrow> (go_error + unit) \<times> os_state" where
  "File_Close env i = syscall ''close'' (\<lambda>fs. Inr ((), fs)) env"

section \<open>Time\<close>

text \<open>\<open>time.Sleep\<close> pauses for at least the duration.\<close>

definition Sleep :: "os_env \<Rightarrow> int \<Rightarrow> os_state \<Rightarrow> os_state" where
  "Sleep env d s = (let s' = before_call env s in s'\<lparr>os_now := os_now s' + max 0 d\<rparr>)"

section \<open>Quoting\<close>

text \<open>\<open>%q\<close> of \<open>fmt\<close> on a string; the bytes of a rune above ASCII are kept.\<close>

definition quote_char :: "char \<Rightarrow> string" where
  "quote_char ch =
     (let n = code ch; escaped = zip [7, 8, 9, 10, 11, 12, 13, 34, 92] ''abtnvfr'' in
      if n = 34 \<or> n = 92 then [CHR 0x5C, ch]
      else (case map_of escaped n of
          Some letter \<Rightarrow> [CHR 0x5C, letter]
        | None \<Rightarrow>
            if n < 32 \<or> n = 127 then [CHR 0x5C, CHR ''x'', hex_char (n div 16), hex_char (n mod 16)] else [ch]))"

definition go_quote :: "string \<Rightarrow> string" where
  "go_quote s = [CHR 0x22] @ concat (map quote_char s) @ [CHR 0x22]"

section \<open>Paths\<close>

text \<open>One step of \<open>filepath.Clean\<close> on the names of a path, the last name first.\<close>

definition clean_name :: "bool \<Rightarrow> string \<Rightarrow> string list \<Rightarrow> string list" where
  "clean_name rooted name out =
     (if name = [] \<or> name = ''.'' then out
      else if name = ''..'' then
        (if out \<noteq> [] \<and> hd out \<noteq> ''..'' then tl out else if rooted then out else name # out)
      else name # out)"

definition filepath_Clean :: "string \<Rightarrow> string" where
  "filepath_Clean path =
     (let rooted = (path \<noteq> [] \<and> is_sep (hd path));
          out = join_with ''/'' (rev (fold (clean_name rooted) (split_on (CHR ''/'') path) []))
      in if rooted then CHR ''/'' # out else if out = [] then ''.'' else out)"

definition filepath_Dir :: "string \<Rightarrow> string" where
  "filepath_Dir path = filepath_Clean (rev (dropWhile (\<lambda>ch. \<not> is_sep ch) (rev path)))"

section \<open>Lemmas on calls\<close>

lemma before_call_fields [simp]:
  "os_calls (before_call env s) = Suc (os_calls s)"
  "os_now (before_call env s) = os_now s + int (h_elapsed (happens env s))"
  "os_fs (before_call env s) = h_others (happens env s) (os_fs s)"
  "os_removals (before_call env s) = os_removals s"
  by (simp_all add: before_call_def Let_def)

lemma syscall_advances:
  "os_now s \<le> os_now (snd (syscall what f env s))" "os_calls (snd (syscall what f env s)) = Suc (os_calls s)"
  "os_removals (snd (syscall what f env s)) = os_removals s"
  by (simp_all add: syscall_def Let_def split: option.split sum.split prod.split)

section \<open>Undisturbed file systems\<close>

text \<open>No other process acts; the calls of this one may still fail.\<close>

definition undisturbed :: "os_env \<Rightarrow> bool" where
  "undisturbed env \<longleftrightarrow> (\<forall>n. h_others (oe_happens env n) = id)"

lemma undisturbed_others [simp]: "undisturbed env \<Longrightarrow> h_others (happens env s) fs = fs"
  by (simp add: undisturbed_def happens_def)

lemma syscall_undisturbed:
  assumes "undisturbed env" "syscall what f env s = (r, s')"
  shows "(\<exists>x fs. r = Inr x \<and> f (os_fs s) = Inr (x, fs) \<and> os_fs s' = fs) \<or>
    (\<exists>e. r = Inl (Wrapped what e) \<and> os_fs s' = os_fs s \<and> (h_fails (happens env s) = Some e \<or> f (os_fs s) = Inl e))"
  using assms by (auto simp: syscall_def Let_def split: option.splits sum.splits)

text \<open>The contents of the file that a path leads to.\<close>

definition text_at :: "os_env \<Rightarrow> string \<Rightarrow> file_system \<Rightarrow> string option" where
  "text_at env path fs =
     (case locate (oe_cwd env) path fs of
        Inl _ \<Rightarrow> None
      | Inr loc \<Rightarrow> (case node_at fs loc of Some (File _ contents _) \<Rightarrow> Some contents | _ \<Rightarrow> None))"

lemma ReadFile_undisturbed:
  assumes "undisturbed env" "ReadFile env path s = (r, s')"
  shows "os_fs s' = os_fs s \<and> (\<forall>c. r = Inr c \<longrightarrow> text_at env path (os_fs s) = Some c)"
  using syscall_undisturbed [OF assms(1) assms(2) [unfolded ReadFile_def]]
  by (auto simp: at_path_def text_at_def split: sum.splits option.splits node.splits)

lemma Stat_undisturbed: "undisturbed env \<Longrightarrow> Stat_IsDir env path s = (r, s') \<Longrightarrow> os_fs s' = os_fs s"
  unfolding Stat_IsDir_def by (drule (1) syscall_undisturbed) (auto simp: at_path_def split: sum.splits option.splits node.splits)

lemma Close_undisturbed: "undisturbed env \<Longrightarrow> File_Close env i s = (r, s') \<Longrightarrow> os_fs s' = os_fs s"
  unfolding File_Close_def by (drule (1) syscall_undisturbed) auto

lemma Sleep_undisturbed [simp]: "undisturbed env \<Longrightarrow> os_fs (Sleep env d s) = os_fs s"
  by (simp add: Sleep_def Let_def)

text \<open>Growth: files stay as they are, directories stay directories.\<close>

definition grown :: "file_system \<Rightarrow> file_system \<Rightarrow> bool" where
  "grown fs fs' \<longleftrightarrow>
     (\<forall>loc i c m. fmlookup fs loc = Some (File i c m) \<longrightarrow> fmlookup fs' loc = Some (File i c m)) \<and>
     (\<forall>loc m. fmlookup fs loc = Some (Dir m) \<longrightarrow> (\<exists>m'. fmlookup fs' loc = Some (Dir m')))"

definition no_new_files :: "file_system \<Rightarrow> file_system \<Rightarrow> bool" where
  "no_new_files fs fs' \<longleftrightarrow> (\<forall>loc i c m. fmlookup fs' loc = Some (File i c m) \<longrightarrow> fmlookup fs loc = Some (File i c m))"

lemma grown_refl [simp]: "grown fs fs" and no_new_files_refl [simp]: "no_new_files fs fs"
  by (simp_all add: grown_def no_new_files_def)

lemma grown_trans: "grown fs fs' \<Longrightarrow> grown fs' fs'' \<Longrightarrow> grown fs fs''"
  unfolding grown_def by metis

lemma no_new_files_trans: "no_new_files fs fs' \<Longrightarrow> no_new_files fs' fs'' \<Longrightarrow> no_new_files fs fs''"
  unfolding no_new_files_def by blast

lemma grown_fresh: "fmlookup fs loc = None \<Longrightarrow> grown fs (fmupd loc nd fs)"
  by (auto simp: grown_def)

lemma node_at_grown:
  assumes "grown fs fs'"
  shows "node_at fs loc = Some (Dir m) \<Longrightarrow> \<exists>m'. node_at fs' loc = Some (Dir m')"
    and "node_at fs loc = Some (File i c m) \<Longrightarrow> node_at fs' loc = Some (File i c m)"
  using assms by (auto simp: node_at_def grown_def split: if_splits)

lemma node_at_no_new_files:
  "no_new_files fs fs' \<Longrightarrow> node_at fs' loc = Some (File i c m) \<Longrightarrow> node_at fs loc = Some (File i c m)"
  by (cases "loc = []") (simp_all add: node_at_def no_new_files_def)

lemma walk_grown: "grown fs fs' \<Longrightarrow> walk fs loc names = Inr loc' \<Longrightarrow> walk fs' loc names = Inr loc'"
proof (induction names arbitrary: loc)
  case (Cons name names)
  then obtain m where "node_at fs loc = Some (Dir m)" "walk fs (enter name loc) names = Inr loc'"
    by (auto split: option.splits node.splits)
  with Cons show ?case using node_at_grown(1) [OF Cons.prems(1)] by fastforce
qed simp

lemma locate_grown: "grown fs fs' \<Longrightarrow> locate cwd path fs = Inr loc \<Longrightarrow> locate cwd path fs' = Inr loc"
  by (auto simp: locate_def walk_grown split: if_splits)

lemma text_at_grown: "grown fs fs' \<Longrightarrow> text_at env path fs = Some c \<Longrightarrow> text_at env path fs' = Some c"
  by (auto simp: text_at_def locate_grown node_at_grown(2) split: sum.splits option.splits node.splits
      dest: locate_grown node_at_grown(2))

subsection \<open>Directories\<close>

lemma Mkdir_undisturbed:
  assumes "undisturbed env" "Mkdir env path perm s = (Inr u, s')"
  shows "\<exists>loc m. locate (oe_cwd env) path (os_fs s) = Inr loc \<and> loc \<noteq> [] \<and> fmlookup (os_fs s) loc = None \<and>
    os_fs s' = fmupd loc (Dir m) (os_fs s)"
  using syscall_undisturbed [OF assms(1) assms(2) [unfolded Mkdir_def]]
  by (auto simp: at_path_def node_at_def split: sum.splits option.splits if_splits) metis

lemma Mkdir_failed: "undisturbed env \<Longrightarrow> Mkdir env path perm s = (Inl e, s') \<Longrightarrow> os_fs s' = os_fs s"
  unfolding Mkdir_def by (drule (1) syscall_undisturbed) auto

lemma Chmod_dir:
  assumes "undisturbed env" "Chmod env path perm s = (r, s')" "locate (oe_cwd env) path (os_fs s) = Inr loc"
    "fmlookup (os_fs s) loc = Some (Dir m)" "loc \<noteq> []"
  shows "os_fs s' = os_fs s \<or> os_fs s' = fmupd loc (Dir perm) (os_fs s)"
  using syscall_undisturbed [OF assms(1) assms(2) [unfolded Chmod_def]] assms(3-5)
  by (auto simp: at_path_def node_at_def)

lemma Mkdir_Chmod:
  assumes "undisturbed env" "Mkdir env path p s = (Inr u, s1)" "Chmod env path q s1 = (r, s2)"
  shows "grown (os_fs s) (os_fs s2) \<and> no_new_files (os_fs s) (os_fs s2)"
proof -
  obtain loc m where l: "locate (oe_cwd env) path (os_fs s) = Inr loc" "loc \<noteq> []" "fmlookup (os_fs s) loc = None"
    and fs: "os_fs s1 = fmupd loc (Dir m) (os_fs s)" using Mkdir_undisturbed [OF assms(1,2)] by blast
  have "locate (oe_cwd env) path (os_fs s1) = Inr loc" unfolding fs by (rule locate_grown [OF grown_fresh]) (use l in simp_all)
  from Chmod_dir [OF assms(1,3) this] l fs
  have "os_fs s2 = fmupd loc (Dir m) (os_fs s) \<or> os_fs s2 = fmupd loc (Dir q) (os_fs s)" by auto
  then show ?thesis using l(3) by (auto simp: grown_fresh no_new_files_def split: if_splits)
qed

subsection \<open>Descriptors\<close>

lemma fresh_inode: "fresh_inode fs \<notin> inodes fs"
proof
  assume "fresh_inode fs \<in> inodes fs"
  then obtain loc c m where l: "fmlookup fs loc = Some (File (fresh_inode fs) c m)"
    by (auto simp: inodes_def elim: inode_of.elims)
  let ?f = "\<lambda>loc. case fmlookup fs loc of Some (File i _ _) \<Rightarrow> i | _ \<Rightarrow> 0"
  have "?f loc \<le> sum ?f (fset (fmdom fs))" by (rule member_le_sum) (use l in \<open>auto intro: fmdomI\<close>)
  with l show False by (simp add: fresh_inode_def)
qed

lemma OpenFile_undisturbed:
  assumes "undisturbed env" "OpenFile_excl env path perm s = (r, s')"
  shows "case r of Inl _ \<Rightarrow> os_fs s' = os_fs s
    | Inr i \<Rightarrow> i \<notin> inodes (os_fs s) \<and> (\<exists>loc m. locate (oe_cwd env) path (os_fs s) = Inr loc \<and> loc \<noteq> [] \<and>
        fmlookup (os_fs s) loc = None \<and> os_fs s' = fmupd loc (File i [] m) (os_fs s))"
  using syscall_undisturbed [OF assms(1) assms(2) [unfolded OpenFile_excl_def]]
  by (auto simp: at_path_def node_at_def fresh_inode Let_def split: sum.splits option.splits if_splits) metis+

lemma on_other_inode: "i \<notin> inodes fs \<Longrightarrow> fmmap (on_inode i f) fs = fs"
proof (rule fmap_ext)
  fix loc
  assume "i \<notin> inodes fs"
  then have "\<And>nd. fmlookup fs loc = Some nd \<Longrightarrow> inode_of nd \<noteq> Some i" by (auto simp: inodes_def)
  then show "fmlookup (fmmap (on_inode i f) fs) loc = fmlookup fs loc"
    by (cases "fmlookup fs loc") (auto simp: on_inode_def split: node.split)
qed

lemma on_own_inode: "i \<notin> inodes fs \<Longrightarrow> fmmap (on_inode i f) (fmupd loc (File i c m) fs) = fmupd loc (f c m) fs"
  using on_other_inode [of i fs f] by (simp add: on_inode_def fmmap_fmupd)

lemma File_Chmod_undisturbed:
  assumes "undisturbed env" "File_Chmod env i perm s = (r, s')" "os_fs s = fmupd loc (File i c m) fs" "i \<notin> inodes fs"
  shows "os_fs s' = (case r of Inl _ \<Rightarrow> os_fs s | Inr _ \<Rightarrow> fmupd loc (File i c perm) fs)"
  using syscall_undisturbed [OF assms(1) assms(2) [unfolded File_Chmod_def]] assms(3,4)
  by (auto simp: on_own_inode)

lemma File_Write_undisturbed:
  assumes "undisturbed env" "File_Write env i bytes s = ((n, e), s')" "os_fs s = fmupd loc (File i [] m) fs" "i \<notin> inodes fs"
  shows "n \<le> length bytes \<and> os_fs s' = fmupd loc (File i (take n bytes) m) fs"
  using assms by (auto simp: File_Write_def Let_def on_own_inode split: option.splits)

lemma Remove_undisturbed:
  assumes "undisturbed env" "os_fs s = fmupd loc (File i c m) fs" "locate (oe_cwd env) path fs = Inr loc"
    "fmlookup fs loc = None" "loc \<noteq> []"
  shows "os_fs (snd (Remove env path s)) = fs \<or>
    (h_fails (happens env s) \<noteq> None \<and> os_fs (snd (Remove env path s)) = os_fs s)"
proof -
  let ?s = "s\<lparr>os_removals := os_removals s @ [(os_calls s, path)]\<rparr>"
  have h: "happens env ?s = happens env s" "os_fs ?s = os_fs s" by (simp_all add: happens_def)
  have l: "locate (oe_cwd env) path (os_fs s) = Inr loc" unfolding assms(2) by (rule locate_grown [OF grown_fresh]) (use assms in simp_all)
  have drop: "fmdrop loc (fmupd loc (File i c m) fs) = fs"
    using assms(4) by (auto intro: fmap_ext)
  obtain r s' where r: "Remove env path s = (r, s')" by (cases "Remove env path s")
  show ?thesis using syscall_undisturbed [OF assms(1) r [unfolded Remove_def]] l drop assms(2,5)
    unfolding h by (auto simp: r at_path_def node_at_def)
qed

end
