(* ===== verification/GoFlag.thy ===== *)
theory GoFlag
  imports GoOs
begin

text \<open>
  What the command line tools use of the package \<open>flag\<close>: a flag set whose flags take a value or are
  boolean, parsed with \<open>ContinueOnError\<close>. The result of parsing is the list of assignments in the
  order of the arguments, with the arguments that are left.
\<close>

datatype flag_kind = BoolFlag | ValueFlag

type_synonym flag_set = "string \<Rightarrow> flag_kind option"

definition ParseBool :: "string \<Rightarrow> bool option" where
  "ParseBool s =
     (if s \<in> set [''1'', ''t'', ''T'', ''true'', ''TRUE'', ''True''] then Some True
      else if s \<in> set [''0'', ''f'', ''F'', ''false'', ''FALSE'', ''False''] then Some False
      else None)"

definition bool_text :: "bool \<Rightarrow> string" where
  "bool_text b = (if b then ''true'' else ''false'')"

text \<open>The text after the hyphens: the name, and the value after an equals sign.\<close>

definition flag_name :: "string \<Rightarrow> string" where
  "flag_name text = hd text # takeWhile (\<lambda>ch. ch \<noteq> CHR ''='') (tl text)"

definition flag_value :: "string \<Rightarrow> string option" where
  "flag_value text =
     (case dropWhile (\<lambda>ch. ch \<noteq> CHR ''='') (tl text) of [] \<Rightarrow> None | _ # v \<Rightarrow> Some v)"

datatype flag_step = Stop "string list" | Fail go_error | Assign string string "string list"

text \<open>A defined flag with its optional value and the arguments after it.\<close>

definition set_value :: "flag_kind \<Rightarrow> string \<Rightarrow> string option \<Rightarrow> string list \<Rightarrow> flag_step" where
  "set_value kind name value args =
     (case kind of
        BoolFlag \<Rightarrow>
          (case value of
             None \<Rightarrow> Assign name ''true'' args
           | Some v \<Rightarrow>
               (case ParseBool v of
                  None \<Rightarrow> Fail (ErrorText (''invalid boolean value '' @ go_quote v @ '' for -'' @ name @ '': parse error''))
                | Some b \<Rightarrow> Assign name (bool_text b) args))
      | ValueFlag \<Rightarrow>
          (case value of
             Some v \<Rightarrow> Assign name v args
           | None \<Rightarrow>
               (case args of
                  [] \<Rightarrow> Fail (ErrorText (''flag needs an argument: -'' @ name))
                | v # args \<Rightarrow> Assign name v args)))"

text \<open>\<open>FlagSet.parseOne\<close>.\<close>

definition parse_one :: "flag_set \<Rightarrow> string list \<Rightarrow> flag_step" where
  "parse_one formal args =
     (case args of
        [] \<Rightarrow> Stop []
      | s # rest \<Rightarrow>
          if length s < 2 \<or> hd s \<noteq> CHR ''-'' then Stop args
          else if s = ''--'' then Stop rest
          else
            (let name = drop (if s ! 1 = CHR ''-'' then 2 else 1) s in
             if name = [] \<or> hd name = CHR ''-'' \<or> hd name = CHR ''='' then Fail (ErrorText (''bad flag syntax: '' @ s))
             else
               (case formal (flag_name name) of
                  None \<Rightarrow>
                    if flag_name name = ''help'' \<or> flag_name name = ''h'' then Fail ErrHelp
                    else Fail (ErrorText (''flag provided but not defined: -'' @ flag_name name))
                | Some kind \<Rightarrow> set_value kind (flag_name name) (flag_value name) rest)))"

lemma set_value_shorter: "set_value kind name value args = Assign n v rest \<Longrightarrow> length rest \<le> length args"
  by (auto simp: set_value_def split: flag_kind.splits option.splits list.splits)

lemma parse_one_shorter: "parse_one formal args = Assign n v rest \<Longrightarrow> length rest < length args"
  by (auto simp: parse_one_def Let_def split: list.splits if_splits option.splits dest!: set_value_shorter)

text \<open>The loop of \<open>FlagSet.Parse\<close>.\<close>

function flag_Parse :: "flag_set \<Rightarrow> string list \<Rightarrow> go_error + (string \<times> string) list \<times> string list" where
  "flag_Parse formal args =
     (case parse_one formal args of
        Stop rest \<Rightarrow> Inr ([], rest)
      | Fail err \<Rightarrow> Inl err
      | Assign name value rest \<Rightarrow>
          (case flag_Parse formal rest of
             Inl err \<Rightarrow> Inl err
           | Inr (as, left) \<Rightarrow> Inr ((name, value) # as, left)))"
  by pat_completeness auto

termination by (relation "measure (\<lambda>(formal, args). length args)") (auto simp: parse_one_shorter)

declare flag_Parse.simps [simp del]

section \<open>Lemmas\<close>

text \<open>An assignment in one argument, \<open>--name=value\<close>, with any value.\<close>

definition good_flag_name :: "string \<Rightarrow> bool" where
  "good_flag_name name \<longleftrightarrow> name \<noteq> [] \<and> hd name \<noteq> CHR ''-'' \<and> CHR ''='' \<notin> set name"

lemma flag_name_plain: "good_flag_name name \<Longrightarrow> flag_name name = name \<and> flag_value name = None"
proof -
  assume g: "good_flag_name name"
  then obtain c cs where n: "name = c # cs" by (cases name) (auto simp: good_flag_name_def)
  with g have "\<forall>x \<in> set cs. x \<noteq> CHR ''=''" by (auto simp: good_flag_name_def)
  then have "takeWhile (\<lambda>ch. ch \<noteq> CHR ''='') cs = cs" "dropWhile (\<lambda>ch. ch \<noteq> CHR ''='') cs = []"
    by (simp_all add: takeWhile_eq_all_conv dropWhile_eq_Nil_conv)
  then show "flag_name name = name \<and> flag_value name = None" by (simp add: n flag_name_def flag_value_def del: dropWhile_eq_Nil_conv takeWhile_eq_all_conv)
qed

lemma flag_name_assigned:
  assumes "good_flag_name name"
  shows "flag_name (name @ CHR ''='' # v) = name \<and> flag_value (name @ CHR ''='' # v) = Some v"
proof -
  obtain c cs where "name = c # cs" using assms by (cases name) (auto simp: good_flag_name_def)
  moreover have "\<And>x. x \<in> set cs \<Longrightarrow> x \<noteq> CHR ''=''" using assms calculation by (auto simp: good_flag_name_def)
  ultimately show ?thesis
    by (simp add: flag_name_def flag_value_def takeWhile_append2 dropWhile_append2)
qed

lemma parse_one_flag:
  assumes "good_flag_name name" "formal name = Some kind" "tail = [] \<or> hd tail = CHR ''=''"
  shows "parse_one formal ((''--'' @ name @ tail) # rest) =
    set_value kind name (if tail = [] then None else Some (tl tail)) rest"
proof -
  obtain c cs where c: "name = c # cs" "c \<noteq> CHR ''-''" "c \<noteq> CHR ''=''" using assms(1) by (cases name) (auto simp: good_flag_name_def)
  have "flag_name (name @ tail) = name \<and> flag_value (name @ tail) = (if tail = [] then None else Some (tl tail))"
    using assms(3) flag_name_plain [OF assms(1)] flag_name_assigned [OF assms(1), of "tl tail"] by (cases tail) auto
  then show ?thesis using c assms(2) by (auto simp: parse_one_def)
qed

lemma Parse_assigned:
  assumes "good_flag_name name" "formal name = Some ValueFlag"
  shows "flag_Parse formal ((''--'' @ name @ CHR ''='' # v) # rest) = map_sum id (apfst (Cons (name, v))) (flag_Parse formal rest)"
    "flag_Parse formal ((''--'' @ name) # v # rest) = map_sum id (apfst (Cons (name, v))) (flag_Parse formal rest)"
  using parse_one_flag [where formal = formal, OF assms, of "CHR ''='' # v"] parse_one_flag [where formal = formal, OF assms, of "[]"]
  by (subst flag_Parse.simps, auto simp: set_value_def split: sum.split)+

lemma Parse_switch:
  assumes "good_flag_name name" "formal name = Some BoolFlag"
  shows "flag_Parse formal ((''--'' @ name) # rest) = map_sum id (apfst (Cons (name, ''true''))) (flag_Parse formal rest)"
  using parse_one_flag [where formal = formal, OF assms, of "[]"] by (subst flag_Parse.simps) (auto simp: set_value_def split: sum.split)

lemma Parse_end: "flag_Parse formal (''--'' # rest) = Inr ([], rest)"
  by (subst flag_Parse.simps) (simp add: parse_one_def)

end
