(* ===== verification/IdentityFile.thy ===== *)
theory IdentityFile
  imports GoOs Identity
begin

text \<open>
  The identity file of the command line tool (\<open>src/cmd/portalite/main.go\<close>): an identity is read from
  the file, or generated and written to it, while other processes may do the same.

  The operations work on the state of \<open>GoOs\<close>, in which every call may fail and other processes may act
  between two calls. What the identity package is given (cryptography and JSON) is the record
  \<open>identity_lib\<close>. The loop that creates the file and the creation of the parent directories may run
  forever when other processes interfere; they are partial functions, \<open>None\<close> meaning that they do not
  return.
\<close>

section \<open>Names\<close>

record 'key identity_lib =
  il_crypto :: "'key crypto"
  il_marshal :: "storedIdentity \<Rightarrow> string"
  il_check :: "string \<Rightarrow> go_error option"
  il_unmarshal :: "string \<Rightarrow> go_error + storedIdentity"

definition parse_identity :: "'key identity_lib \<Rightarrow> string \<Rightarrow> go_error + 'key Identity" where
  "parse_identity L text = ParseIdentity (il_crypto L) (il_check L) (il_unmarshal L) text"

definition identityNameValidationPrivateKey :: string where
  "identityNameValidationPrivateKey = replicate 63 (CHR ''0'') @ ''1''"

definition normalizeRequestedIdentityName :: "'key identity_lib \<Rightarrow> string \<Rightarrow> go_error + string" where
  "normalizeRequestedIdentityName L requestedName =
     (if requestedName = [] then Inr []
      else (case IdentityFromPrivateKey (il_crypto L) requestedName identityNameValidationPrivateKey of
          Inl err \<Rightarrow> Inl err
        | Inr i \<Rightarrow> Inr (id_name i)))"

definition checkIdentityName :: "'key Identity \<Rightarrow> string \<Rightarrow> string \<Rightarrow> go_error option" where
  "checkIdentityName i requestedName path =
     (if requestedName = [] then None
      else if requestedName \<noteq> id_name i
      then Some (ErrorText (''identity name '' @ go_quote requestedName @ '' does not match existing identity '' @
        go_quote (id_name i) @ '' in '' @ go_quote path @ '' (delete the file or use --identity to specify a different path)''))
      else None)"

text \<open>The outcome of \<open>rand.Read\<close> on six bytes is an argument.\<close>

definition randomIdentityName :: "go_error + byte list \<Rightarrow> go_error + string" where
  "randomIdentityName random =
     (case random of
        Inl err \<Rightarrow> Inl (Wrapped ''generate identity name'' err)
      | Inr bytes \<Rightarrow> Inr (''portalite-'' @ hex_encode bytes))"

text \<open>The name of a new identity: the requested one, or a random one.\<close>

definition new_identity_name :: "go_error + byte list \<Rightarrow> string \<Rightarrow> go_error + string" where
  "new_identity_name random normalizedName =
     (if normalizedName = [] then randomIdentityName random else Inr normalizedName)"

definition loadEphemeralIdentity :: "'key identity_lib \<Rightarrow> go_error + byte list \<Rightarrow> string \<Rightarrow>
    (string \<Rightarrow> go_error + 'key Identity) \<Rightarrow> go_error + 'key Identity" where
  "loadEphemeralIdentity L random requestedName generate =
     (case normalizeRequestedIdentityName L requestedName of
        Inl err \<Rightarrow> Inl (IdentityUsageError err)
      | Inr normalizedName \<Rightarrow>
          (case new_identity_name random normalizedName of
             Inl err \<Rightarrow> Inl err
           | Inr identityName \<Rightarrow> generate identityName))"

section \<open>Reading after a lost creation race\<close>

definition waitLimit :: int where
  "waitLimit = 1000000000"

definition pollDelay :: int where
  "pollDelay = 10000000"

text \<open>The loop until the deadline; \<open>Inr None\<close> asks the caller to create the file again.\<close>

function race_loop :: "'key identity_lib \<Rightarrow> os_env \<Rightarrow> string \<Rightarrow> string \<Rightarrow> int \<Rightarrow> os_state \<Rightarrow>
    (go_error + 'key Identity option) \<times> os_state" where
  "race_loop L env path requestedName deadline s =
     (case ReadFile env path s of
        (Inl readErr, s) \<Rightarrow>
          if errors_Is readErr ErrNotExist then (Inr None, s)
          else (Inl (Wrapped (''read identity '' @ go_quote path @ '' after create race'') readErr), s)
      | (Inr winner, s) \<Rightarrow>
          (case parse_identity L winner of
             Inr winnerIdentity \<Rightarrow>
               (case checkIdentityName winnerIdentity requestedName path of
                  Some nameErr \<Rightarrow> (Inl (IdentityUsageError nameErr), s)
                | None \<Rightarrow> (Inr (Some winnerIdentity), s))
           | Inl parseErr \<Rightarrow>
               (let remaining = deadline - os_now s in
                if remaining \<le> 0
                then (Inl (Wrapped (''read identity '' @ go_quote path @ '' after create race'') parseErr), s)
                else race_loop L env path requestedName deadline
                  (Sleep env (if remaining < pollDelay then remaining else pollDelay) s))))"
  by pat_completeness auto

termination
proof (relation "measure (\<lambda>(L, env, path, requestedName, deadline, s). nat (deadline - os_now s))", goal_cases)
  case 1
  then show ?case by simp
next
  case prems: (2 L env path requestedName deadline s r s' winner parseErr remaining)
  have "os_now s \<le> os_now s'" using syscall_advances(1) prems(1,2) by (metis ReadFile_def snd_conv)
  with prems show ?case by (auto simp: Sleep_def Let_def pollDelay_def)
qed

definition readIdentityAfterCreateRace :: "'key identity_lib \<Rightarrow> os_env \<Rightarrow> string \<Rightarrow> string \<Rightarrow> os_state \<Rightarrow>
    (go_error + 'key Identity option) \<times> os_state" where
  "readIdentityAfterCreateRace L env path requestedName s =
     race_loop L env path requestedName (os_now s + waitLimit) s"

section \<open>Directories\<close>

partial_function (option) ensureIdentityDirectory :: "os_env \<Rightarrow> string \<Rightarrow> os_state \<Rightarrow> (go_error option \<times> os_state) option" where
  "ensureIdentityDirectory env path s =
     (case Mkdir env path 0x1C0 s of
        (Inr _, s) \<Rightarrow> (case Chmod env path 0x1C0 s of (Inl e, s) \<Rightarrow> Some (Some e, s) | (Inr _, s) \<Rightarrow> Some (None, s))
      | (Inl err, s) \<Rightarrow>
          if errors_Is err ErrExist then
            (case Stat_IsDir env path s of
               (Inl statErr, s) \<Rightarrow> Some (Some statErr, s)
             | (Inr isDir, s) \<Rightarrow>
                 Some (if isDir then None else Some (ErrorText (path @ '' exists and is not a directory'')), s))
          else if \<not> errors_Is err ErrNotExist then Some (Some err, s)
          else
            (let parent = filepath_Dir path in
             if parent = path then Some (Some err, s)
             else Option.bind (ensureIdentityDirectory env parent s) (\<lambda>(parentErr, s).
               case parentErr of
                 Some e \<Rightarrow> Some (Some e, s)
               | None \<Rightarrow> ensureIdentityDirectory env path s)))"

section \<open>Creating the file\<close>

text \<open>The loop around \<open>openFile\<close>: a descriptor, or the identity that another process has written.\<close>

partial_function (option) create_loop :: "'key identity_lib \<Rightarrow> os_env \<Rightarrow> string \<Rightarrow> string \<Rightarrow> os_state \<Rightarrow>
    ((go_error + (nat + 'key Identity)) \<times> os_state) option" where
  "create_loop L env path requestedName s =
     (case OpenFile_excl env path 0x180 s of
        (Inr file, s) \<Rightarrow> Some (Inr (Inl file), s)
      | (Inl err, s) \<Rightarrow>
          if \<not> errors_Is err ErrExist then Some (Inl (Wrapped (''create identity '' @ go_quote path) err), s)
          else
            (case readIdentityAfterCreateRace L env path requestedName s of
               (Inl raceErr, s) \<Rightarrow> Some (Inl raceErr, s)
             | (Inr None, s) \<Rightarrow> create_loop L env path requestedName s
             | (Inr (Some winnerIdentity), s) \<Rightarrow> Some (Inr (Inr winnerIdentity), s)))"

text \<open>Filling the new file; an error of the result makes the deferred function remove it.\<close>

definition write_file :: "os_env \<Rightarrow> string \<Rightarrow> nat \<Rightarrow> string \<Rightarrow> os_state \<Rightarrow> go_error option \<times> os_state" where
  "write_file env path file encoded s =
     (case File_Chmod env file 0x180 s of
        (Inl err, s) \<Rightarrow> (Some (Wrapped (''set identity permissions '' @ go_quote path) err), snd (File_Close env file s))
      | (Inr _, s) \<Rightarrow>
          (case File_Write env file encoded s of
             ((written, writeErr), s) \<Rightarrow>
               (let writeErr = (if writeErr = None \<and> written \<noteq> length encoded then Some ErrShortWrite else writeErr) in
                case writeErr of
                  Some e \<Rightarrow> (Some (Wrapped (''write identity '' @ go_quote path) e), snd (File_Close env file s))
                | None \<Rightarrow>
                    (case File_Close env file s of
                       (Inl err, s) \<Rightarrow> (Some (Wrapped (''close identity '' @ go_quote path) err), s)
                     | (Inr _, s) \<Rightarrow> (None, s)))))"

definition fill_file :: "os_env \<Rightarrow> string \<Rightarrow> nat \<Rightarrow> string \<Rightarrow> os_state \<Rightarrow> go_error option \<times> os_state" where
  "fill_file env path file encoded s =
     (case write_file env path file encoded s of
        (Some err, s) \<Rightarrow> (Some err, snd (Remove env path s))
      | (None, s) \<Rightarrow> (None, s))"

text \<open>A new identity with the text of its file.\<close>

definition new_identity :: "'key identity_lib \<Rightarrow> go_error + byte list \<Rightarrow> (string \<Rightarrow> go_error + 'key Identity) \<Rightarrow> string \<Rightarrow>
    go_error + 'key Identity \<times> string" where
  "new_identity L random generate normalizedName =
     (case new_identity_name random normalizedName of
        Inl err \<Rightarrow> Inl err
      | Inr identityName \<Rightarrow>
          (case generate identityName of
             Inl err \<Rightarrow> Inl err
           | Inr i \<Rightarrow>
               (case MarshalJSON (il_marshal L) i of
                  Inl err \<Rightarrow> Inl (Wrapped ''encode identity'' err)
                | Inr encoded \<Rightarrow> Inr (i, encoded @ [CHR 0x0A]))))"

text \<open>What follows the loop: the identity of the winner, or the new file is filled.\<close>

definition keep_identity :: "os_env \<Rightarrow> string \<Rightarrow> 'key Identity \<Rightarrow> string \<Rightarrow> (go_error + (nat + 'key Identity)) \<times> os_state \<Rightarrow>
    (go_error + 'key Identity) \<times> os_state" where
  "keep_identity env path i encoded = (\<lambda>(r, s).
     case r of
       Inl err \<Rightarrow> (Inl err, s)
     | Inr (Inr winnerIdentity) \<Rightarrow> (Inr winnerIdentity, s)
     | Inr (Inl file) \<Rightarrow>
         (case fill_file env path file encoded s of
            (Some err, s) \<Rightarrow> (Inl err, s)
          | (None, s) \<Rightarrow> (Inr i, s)))"

definition create_identity :: "'key identity_lib \<Rightarrow> os_env \<Rightarrow> string \<Rightarrow> string \<Rightarrow> 'key Identity \<Rightarrow> string \<Rightarrow> os_state \<Rightarrow>
    ((go_error + 'key Identity) \<times> os_state) option" where
  "create_identity L env path requestedName i encoded s =
     Option.bind (ensureIdentityDirectory env (filepath_Dir path) s) (\<lambda>(dirErr, s).
       case dirErr of
         Some err \<Rightarrow> Some (Inl (Wrapped (''create identity directory '' @ go_quote (filepath_Dir path)) err), s)
       | None \<Rightarrow> map_option (keep_identity env path i encoded) (create_loop L env path requestedName s))"

definition loadOrCreateIdentityWith :: "'key identity_lib \<Rightarrow> os_env \<Rightarrow> go_error + byte list \<Rightarrow> string \<Rightarrow> string \<Rightarrow>
    (string \<Rightarrow> go_error + 'key Identity) \<Rightarrow> os_state \<Rightarrow> ((go_error + 'key Identity) \<times> os_state) option" where
  "loadOrCreateIdentityWith L env random path requestedName generate s =
     (case normalizeRequestedIdentityName L requestedName of
        Inl err \<Rightarrow> Some (Inl (IdentityUsageError err), s)
      | Inr normalizedRequestedName \<Rightarrow>
          (case ReadFile env path s of
             (Inr text, s) \<Rightarrow>
               (case parse_identity L text of
                  Inl parseErr \<Rightarrow> Some (Inl (Wrapped (''read identity '' @ go_quote path) parseErr), s)
                | Inr i \<Rightarrow>
                    (case checkIdentityName i normalizedRequestedName path of
                       Some err \<Rightarrow> Some (Inl (IdentityUsageError err), s)
                     | None \<Rightarrow> Some (Inr i, s)))
           | (Inl err, s) \<Rightarrow>
               if \<not> errors_Is err ErrNotExist then Some (Inl (Wrapped (''read identity '' @ go_quote path) err), s)
               else
                 (case new_identity L random generate normalizedRequestedName of
                    Inl err \<Rightarrow> Some (Inl err, s)
                  | Inr (i, encoded) \<Rightarrow> create_identity L env path normalizedRequestedName i encoded s)))"

definition loadOrCreateIdentity :: "'key identity_lib \<Rightarrow> os_env \<Rightarrow> go_error + byte list \<Rightarrow> go_error + 'key \<Rightarrow> string \<Rightarrow> string \<Rightarrow>
    os_state \<Rightarrow> ((go_error + 'key Identity) \<times> os_state) option" where
  "loadOrCreateIdentity L env random generated path requestedName =
     loadOrCreateIdentityWith L env random path requestedName (GenerateIdentity (il_crypto L) generated)"

section \<open>Lemmas\<close>

declare race_loop.simps [simp del]

lemma race_undisturbed:
  "undisturbed env \<Longrightarrow> race_loop L env path nm deadline s = (r, s') \<Longrightarrow>
    os_fs s' = os_fs s \<and> (\<forall>i. r = Inr (Some i) \<longrightarrow>
      (\<exists>c. text_at env path (os_fs s) = Some c \<and> parse_identity L c = Inr i \<and> checkIdentityName i nm path = None))"
proof (induction L env path nm deadline s arbitrary: r s' rule: race_loop.induct)
  case (1 L env path nm deadline s)
  obtain a s1 where read: "ReadFile env path s = (a, s1)" by (cases "ReadFile env path s")
  note facts = ReadFile_undisturbed [OF 1(2) read]
  show ?case
  proof (cases a)
    case (Inl e)
    with 1(3) facts read show ?thesis by (auto simp: race_loop.simps [of L env] split: if_splits)
  next
    case (Inr c)
    show ?thesis
    proof (cases "parse_identity L c")
      case (Inr i)
      with 1(3) facts read \<open>a = Inr c\<close> show ?thesis
        by (auto simp: race_loop.simps [of L env] split: option.splits)
    next
      case (Inl e)
      show ?thesis
      proof (cases "deadline - os_now s1 \<le> 0")
        case True
        with 1(3) facts read \<open>a = Inr c\<close> Inl show ?thesis by (auto simp: race_loop.simps [of L env])
      next
        case False
        let ?d = "if deadline - os_now s1 < pollDelay then deadline - os_now s1 else pollDelay"
        have "race_loop L env path nm deadline s = race_loop L env path nm deadline (Sleep env ?d s1)"
          using False by (subst race_loop.simps) (simp add: read \<open>a = Inr c\<close> Inl Let_def)
        with 1(3) have "race_loop L env path nm deadline (Sleep env ?d s1) = (r, s')" by simp
        from 1(1) [OF read [symmetric] \<open>a = Inr c\<close> Inl refl False 1(2) this] facts 1(2) show ?thesis by simp
      qed
    qed
  qed
qed

lemma ensure_undisturbed:
  assumes "ensureIdentityDirectory env path s = Some y" "undisturbed env"
  shows "grown (os_fs s) (os_fs (snd y)) \<and> no_new_files (os_fs s) (os_fs (snd y))"
  using assms
proof (induction rule: ensureIdentityDirectory.raw_induct [rotated, consumes 1, case_names step])
  case (step f env path s y)
  note IH = step(1) and body = step(2) and q = step(3)
  obtain a s1 where mk: "Mkdir env path 0x1C0 s = (a, s1)" by (cases "Mkdir env path 0x1C0 s")
  show ?case
  proof (cases a)
    case (Inr u)
    obtain b s2 where ch: "Chmod env path 0x1C0 s1 = (b, s2)" by (cases "Chmod env path 0x1C0 s1")
    from body have "snd y = s2" by (auto simp: mk ch Inr split: sum.splits)
    with Mkdir_Chmod [OF q mk [unfolded Inr] ch] show ?thesis by simp
  next
    case (Inl err)
    note fs1 = Mkdir_failed [OF q mk [unfolded Inl]]
    have parent: ?thesis if "Option.bind (f env (filepath_Dir path) s1) (\<lambda>(parentErr, s).
        case parentErr of Some e \<Rightarrow> Some (Some e, s) | None \<Rightarrow> f env path s) = Some y"
    proof -
      from that obtain pe s2 where p: "f env (filepath_Dir path) s1 = Some (pe, s2)"
        and y: "(case pe of Some e \<Rightarrow> Some (Some e, s2) | None \<Rightarrow> f env path s2) = Some y"
        by (auto simp: bind_eq_Some_conv)
      from IH [OF p q] fs1 have s2: "grown (os_fs s) (os_fs s2)" "no_new_files (os_fs s) (os_fs s2)" by auto
      show ?thesis
      proof (cases pe)
        case None
        with y IH [of env path s2 y] q
        have "grown (os_fs s2) (os_fs (snd y))" "no_new_files (os_fs s2) (os_fs (snd y))" by auto
        with s2 show ?thesis using grown_trans no_new_files_trans by blast
      qed (use y s2 in auto)
    qed
    from body fs1 q parent show ?thesis
      by (auto simp: mk Inl Let_def split: if_splits sum.splits prod.splits dest: Stat_undisturbed)
  qed
qed

lemma create_loop_undisturbed:
  assumes "create_loop L env path nm s = Some y" "undisturbed env"
  shows "case fst y of
      Inl _ \<Rightarrow> os_fs (snd y) = os_fs s
    | Inr (Inr i) \<Rightarrow> os_fs (snd y) = os_fs s \<and> (\<exists>c. text_at env path (os_fs s) = Some c \<and> parse_identity L c = Inr i)
    | Inr (Inl file) \<Rightarrow> file \<notin> inodes (os_fs s) \<and> (\<exists>loc m. locate (oe_cwd env) path (os_fs s) = Inr loc \<and> loc \<noteq> [] \<and>
        fmlookup (os_fs s) loc = None \<and> os_fs (snd y) = fmupd loc (File file [] m) (os_fs s))"
  using assms
proof (induction rule: create_loop.raw_induct [rotated, consumes 1, case_names step])
  case (step f L env path nm s y)
  note IH = step(1) and body = step(2) and q = step(3)
  obtain a s1 where open_file: "OpenFile_excl env path 0x180 s = (a, s1)" by (cases "OpenFile_excl env path 0x180 s")
  note opened = OpenFile_undisturbed [OF q open_file]
  show ?case
  proof (cases a)
    case (Inr fd)
    with body open_file have "y = (Inr (Inl fd), s1)" by simp
    with opened Inr show ?thesis by simp
  next
    case (Inl err)
    obtain b s2 where race: "readIdentityAfterCreateRace L env path nm s1 = (b, s2)"
      by (cases "readIdentityAfterCreateRace L env path nm s1")
    note raced = race_undisturbed [OF q race [unfolded readIdentityAfterCreateRace_def]]
    from opened raced Inl have fs: "os_fs s1 = os_fs s" "os_fs s2 = os_fs s" by simp_all
    show ?thesis
    proof (cases "errors_Is err ErrExist")
      case False
      with body have "y = (Inl (Wrapped (''create identity '' @ go_quote path) err), s1)" by (simp add: open_file Inl)
      with fs show ?thesis by simp
    next
      case True
      show ?thesis
      proof (cases b)
        case (Inl e)
        with body True have "y = (Inl e, s2)" by (simp add: open_file \<open>a = Inl err\<close> race)
        with fs show ?thesis by simp
      next
        case (Inr w)
        show ?thesis
        proof (cases w)
          case None
          with body True Inr have "f L env path nm s2 = Some y" by (simp add: open_file \<open>a = Inl err\<close> race)
          from IH [OF this q] show ?thesis unfolding fs(2) .
        next
          case (Some i)
          with body True Inr have "y = (Inr (Inr i), s2)" by (simp add: open_file \<open>a = Inl err\<close> race)
          with fs raced Inr Some show ?thesis by auto
        qed
      qed
    qed
  qed
qed

text \<open>The last call of a run was the removal of the file, and it has failed.\<close>

definition removal_failed :: "os_env \<Rightarrow> string \<Rightarrow> os_state \<Rightarrow> bool" where
  "removal_failed env path s \<longleftrightarrow>
     (os_calls s - 1, path) \<in> set (os_removals s) \<and> h_fails (oe_happens env (os_calls s - 1)) \<noteq> None"

text \<open>Filling a new file: it holds the text with the mode \<open>0600\<close>, or it is gone, or its removal has
  failed.\<close>

lemma fill_file_undisturbed:
  assumes q: "undisturbed env" and fs: "os_fs s = fmupd loc (File fd [] m) fs" and fresh: "fd \<notin> inodes fs" "fmlookup fs loc = None" "loc \<noteq> []"
    and l: "locate (oe_cwd env) path fs = Inr loc" and fill: "fill_file env path fd encoded s = (r, s')"
  shows "case r of
      None \<Rightarrow> os_fs s' = fmupd loc (File fd encoded 0x180) fs
    | Some _ \<Rightarrow> os_fs s' = fs \<or>
        (removal_failed env path s' \<and> (\<exists>c m. os_fs s' = fmupd loc (File fd c m) fs))"
proof -
  obtain e s1 where w: "write_file env path fd encoded s = (e, s1)" by (cases "write_file env path fd encoded s")
  obtain a s2 where ch: "File_Chmod env fd 0x180 s = (a, s2)" by (cases "File_Chmod env fd 0x180 s")
  note chmod = File_Chmod_undisturbed [OF q ch fs fresh(1)]
  have own: "(e = None \<and> os_fs s1 = fmupd loc (File fd encoded 0x180) fs) \<or> (e \<noteq> None \<and> (\<exists>c m. os_fs s1 = fmupd loc (File fd c m) fs))"
  proof (cases a)
    case (Inl err)
    with w have "s1 = snd (File_Close env fd s2)" "e \<noteq> None" by (auto simp: write_file_def ch)
    with chmod Inl fs Close_undisturbed [OF q surjective_pairing [of "File_Close env fd s2"]] show ?thesis by auto
  next
    case (Inr u)
    obtain n we s3 where wr: "File_Write env fd encoded s2 = ((n, we), s3)" by (metis surj_pair)
    from chmod Inr have "os_fs s2 = fmupd loc (File fd [] 0x180) fs" by simp
    from File_Write_undisturbed [OF q wr this fresh(1)]
    have n: "n \<le> length encoded" "os_fs s3 = fmupd loc (File fd (take n encoded) 0x180) fs" by simp_all
    obtain b s4 where cl: "File_Close env fd s3 = (b, s4)" by (cases "File_Close env fd s3")
    from Close_undisturbed [OF q cl] n w show ?thesis
      by (auto simp: write_file_def ch Inr wr cl Let_def split: if_splits sum.splits option.splits)
  qed
  show ?thesis
  proof (cases e)
    case None
    with own w fill show ?thesis by (simp add: fill_file_def)
  next
    case (Some err)
    with own obtain c k where fs1: "os_fs s1 = fmupd loc (File fd c k) fs" by auto
    from fill w Some have "r = Some err" and s': "s' = snd (Remove env path s1)" by (simp_all add: fill_file_def)
    moreover have "os_calls s' = Suc (os_calls s1)" "(os_calls s1, path) \<in> set (os_removals s')"
      by (simp_all add: s' Remove_def syscall_advances(2,3))
    ultimately show ?thesis
      using Remove_undisturbed [OF q fs1 l fresh(2,3)] fs1 by (auto simp: happens_def removal_failed_def)
  qed
qed

text \<open>A file system that differs from an older one by new directories and one new file, the one that the
  path leads to, with the mode \<open>0600\<close>.\<close>

definition stored :: "os_env \<Rightarrow> string \<Rightarrow> string \<Rightarrow> file_system \<Rightarrow> file_system \<Rightarrow> bool" where
  "stored env path encoded fs fs' \<longleftrightarrow> (\<exists>loc fd. locate (oe_cwd env) path fs' = Inr loc \<and> loc \<noteq> [] \<and>
     fmlookup fs' loc = Some (File fd encoded 0x180) \<and> fmlookup fs loc = None \<and> no_new_files fs (fmdrop loc fs'))"

lemma no_new_files_None: "grown fs fs' \<Longrightarrow> fmlookup fs' loc = None \<Longrightarrow> fmlookup fs loc = None"
  by (cases "fmlookup fs loc") (auto simp: grown_def, metis node.exhaust option.distinct(1))

lemma no_new_files_drop: "no_new_files fs fs' \<Longrightarrow> no_new_files fs (fmdrop loc (fmupd loc nd fs'))"
  by (simp add: no_new_files_def)

lemma stored_text: "stored env path encoded fs fs' \<Longrightarrow> text_at env path fs' = Some encoded"
  by (auto simp: stored_def text_at_def node_at_def)

text \<open>What a run has done to the file system \<open>fs\<close> when it returns \<open>r\<close>: nothing of what existed is lost;
  an error leaves no file behind unless its removal has failed; an identity is the one that the file
  holds, which existed before or was written by this run.\<close>

definition run_outcome :: "'key identity_lib \<Rightarrow> (string \<Rightarrow> go_error + 'key Identity) \<Rightarrow> os_env \<Rightarrow> string \<Rightarrow> file_system \<Rightarrow> (go_error + 'key Identity) \<times> os_state \<Rightarrow> bool" where
  "run_outcome L generate env path fs = (\<lambda>(r, s).
     grown fs (os_fs s) \<and>
     (case r of
        Inl _ \<Rightarrow> no_new_files fs (os_fs s) \<or> removal_failed env path s
      | Inr i \<Rightarrow>
          (no_new_files fs (os_fs s) \<and> (\<exists>c. text_at env path (os_fs s) = Some c \<and> parse_identity L c = Inr i)) \<or>
          (\<exists>doc nm. generate nm = Inr i \<and> MarshalJSON (il_marshal L) i = Inr doc \<and>
            stored env path (doc @ [CHR 0x0A]) fs (os_fs s))))"

lemma stored_later:
  "stored env path e fs1 fs' \<Longrightarrow> grown fs fs1 \<Longrightarrow> no_new_files fs fs1 \<Longrightarrow> stored env path e fs fs'"
  using no_new_files_None no_new_files_trans unfolding stored_def by blast

lemma run_outcome_later:
  assumes "run_outcome L generate env path fs1 y" "grown fs fs1" "no_new_files fs fs1"
  shows "run_outcome L generate env path fs y"
proof -
  obtain r s where "y = (r, s)" by (cases y)
  then show ?thesis
    using assms(1) grown_trans [OF assms(2), of "os_fs s"] no_new_files_trans [OF assms(3), of "os_fs s"]
      stored_later [OF _ assms(2,3)]
    by (cases r) (auto simp: run_outcome_def)
qed

text \<open>The new file after the loop, filled or given up.\<close>

lemma created_filled:
  assumes loop: "create_loop L env path nm s = Some (Inr (Inl fd), s2)" and q: "undisturbed env"
    and fill: "fill_file env path fd encoded s2 = (e, s3)"
  shows "grown (os_fs s) (os_fs s3)"
    "e = None \<Longrightarrow> stored env path encoded (os_fs s) (os_fs s3)"
    "e \<noteq> None \<Longrightarrow> os_fs s3 = os_fs s \<or> removal_failed env path s3"
proof -
  from create_loop_undisturbed [OF loop q] obtain loc m where fd: "fd \<notin> inodes (os_fs s)"
    and loc: "locate (oe_cwd env) path (os_fs s) = Inr loc" "loc \<noteq> []" "fmlookup (os_fs s) loc = None"
    and fs2: "os_fs s2 = fmupd loc (File fd [] m) (os_fs s)" by auto
  note filled = fill_file_undisturbed [OF q fs2 fd loc(3,2,1) fill]
  show "grown (os_fs s) (os_fs s3)" using filled grown_fresh [OF loc(3)] by (auto split: option.splits)
  show "e \<noteq> None \<Longrightarrow> os_fs s3 = os_fs s \<or> removal_failed env path s3"
    using filled by auto
  assume "e = None"
  with filled have fs3: "os_fs s3 = fmupd loc (File fd encoded 0x180) (os_fs s)" by simp
  show "stored env path encoded (os_fs s) (os_fs s3)"
    unfolding stored_def fs3 using loc no_new_files_drop [OF no_new_files_refl, of "os_fs s" loc]
    by (intro exI [of _ loc] exI [of _ fd]) (auto intro: locate_grown [OF grown_fresh])
qed

lemma keep_identity_outcome:
  assumes loop: "create_loop L env path nm s = Some y" and q: "undisturbed env"
    and doc: "MarshalJSON (il_marshal L) i = Inr doc" "encoded = doc @ [CHR 0x0A]" "generate identityName = Inr i"
  shows "run_outcome L generate env path (os_fs s) (keep_identity env path i encoded y)"
proof -
  note created = create_loop_undisturbed [OF loop q]
  obtain x s2 where y: "y = (x, s2)" by (cases y)
  consider (error) e where "x = Inl e" | (winner) j where "x = Inr (Inr j)" | (new) fd where "x = Inr (Inl fd)"
    by (metis sum.exhaust)
  then show ?thesis
  proof cases
    case new
    obtain e s3 where fill: "fill_file env path fd encoded s2 = (e, s3)" by (cases "fill_file env path fd encoded s2")
    have "keep_identity env path i encoded y = (case e of Some err \<Rightarrow> (Inl err, s3) | None \<Rightarrow> (Inr i, s3))"
      by (simp add: y new fill keep_identity_def split: option.split)
    then show ?thesis using created_filled [OF loop [unfolded y new] q fill] doc
      by (cases e) (auto simp: run_outcome_def)
  qed (use created y in \<open>auto simp: keep_identity_def run_outcome_def\<close>)
qed

lemma create_identity_outcome:
  assumes "create_identity L env path nm i encoded s = Some y" "undisturbed env"
    and doc: "MarshalJSON (il_marshal L) i = Inr doc" "encoded = doc @ [CHR 0x0A]" "generate identityName = Inr i"
  shows "run_outcome L generate env path (os_fs s) y"
proof -
  from assms(1) obtain de s1 where ensured: "ensureIdentityDirectory env (filepath_Dir path) s = Some (de, s1)"
    by (auto simp: create_identity_def bind_eq_Some_conv)
  from ensure_undisturbed [OF ensured assms(2)]
  have s1: "grown (os_fs s) (os_fs s1)" "no_new_files (os_fs s) (os_fs s1)" by simp_all
  show ?thesis
  proof (cases de)
    case (Some e)
    with assms(1) s1 show ?thesis by (auto simp: create_identity_def ensured run_outcome_def)
  next
    case None
    with assms(1) obtain z where "create_loop L env path nm s1 = Some z" "y = keep_identity env path i encoded z"
      by (auto simp: create_identity_def ensured)
    with keep_identity_outcome [where generate = generate and identityName = identityName, OF _ assms(2-5)] run_outcome_later [OF _ s1] show ?thesis by blast
  qed
qed

lemma new_identity_Inr:
  "new_identity L random generate nm = Inr (i, encoded) \<Longrightarrow>
    \<exists>doc identityName. MarshalJSON (il_marshal L) i = Inr doc \<and> encoded = doc @ [CHR 0x0A] \<and> generate identityName = Inr i"
  by (auto simp: new_identity_def split: sum.splits)

lemma loadOrCreate_outcome:
  assumes "loadOrCreateIdentityWith L env random path requestedName generate s = Some y" "undisturbed env"
  shows "run_outcome L generate env path (os_fs s) y"
proof (cases "normalizeRequestedIdentityName L requestedName")
  case (Inl e)
  with assms show ?thesis by (auto simp: loadOrCreateIdentityWith_def run_outcome_def)
next
  case (Inr nm)
  obtain a s1 where read: "ReadFile env path s = (a, s1)" by (cases "ReadFile env path s")
  note r = ReadFile_undisturbed [OF assms(2) read]
  show ?thesis
  proof (cases a)
    case (Inr c)
    with assms r \<open>normalizeRequestedIdentityName L requestedName = Inr nm\<close> show ?thesis
      by (auto simp: loadOrCreateIdentityWith_def run_outcome_def read split: sum.splits option.splits)
  next
    case (Inl e)
    note body = assms(1) [unfolded loadOrCreateIdentityWith_def Inr read Inl, simplified]
    show ?thesis
    proof (cases "errors_Is e ErrNotExist \<and> (\<exists>i encoded. new_identity L random generate nm = Inr (i, encoded))")
      case True
      then obtain i encoded where new: "new_identity L random generate nm = Inr (i, encoded)" "errors_Is e ErrNotExist" by blast
      from new_identity_Inr [OF new(1)] obtain doc identityName where
        "MarshalJSON (il_marshal L) i = Inr doc" "encoded = doc @ [CHR 0x0A]" "generate identityName = Inr i" by blast
      with body new create_identity_outcome [where generate = generate and identityName = identityName, OF _ assms(2)] r show ?thesis by fastforce
    next
      case False
      with body r show ?thesis by (auto simp: run_outcome_def split: if_splits sum.splits)
    qed
  qed
qed

section \<open>Random names\<close>

text \<open>A prefix of label characters with six random bytes in hexadecimal is a valid name.\<close>

lemma random_label_valid:
  assumes "list_all identity_name_char label" "label \<noteq> []" "hd label \<noteq> CHR ''-''" "length label \<le> 51" "length bytes = 6"
  shows "valid_identity_name (label @ hex_encode bytes)"
proof -
  have h: "list_all (\<lambda>ch. is_lower ch \<or> is_digit ch) (hex_encode bytes)"
    using hex_encode_digits [of bytes] by (fastforce simp: list_all_iff char_class_defs)
  have len: "length (hex_encode bytes) = 12" using assms(5) by (simp add: length_hex_encode)
  then have ne: "hex_encode bytes \<noteq> []" by (metis list.size(3) zero_neq_numeral)
  then have "last (hex_encode bytes) \<in> set (hex_encode bytes)" by simp
  with h have "is_lower (last (hex_encode bytes)) \<or> is_digit (last (hex_encode bytes))" by (auto simp: list_all_iff)
  then have "last (hex_encode bytes) \<noteq> CHR ''-''" by (auto simp: char_class_defs)
  moreover have "list_all identity_name_char (hex_encode bytes)" using h by (auto simp: list_all_iff identity_name_char_def)
  ultimately show ?thesis using assms len ne by (simp add: valid_identity_name_def)
qed

section \<open>Stability of the identity\<close>

text \<open>What the code relies on: the laws of the cryptographic library, and that the decoder reads what the
  encoder wrote, also with the newline that ends the file.\<close>

definition lib_laws :: "'key identity_lib \<Rightarrow> bool" where
  "lib_laws L \<longleftrightarrow> crypto_laws (il_crypto L) \<and>
     (\<forall>st. il_check L (il_marshal L st @ [CHR 0x0A]) = None) \<and>
     (\<forall>st. il_unmarshal L (il_marshal L st @ [CHR 0x0A]) = Inr st)"

text \<open>A generated key has a scalar in range.\<close>

definition valid_key :: "'key crypto \<Rightarrow> go_error + 'key \<Rightarrow> bool" where
  "valid_key c generated \<longleftrightarrow> (\<forall>k. generated = Inr k \<longrightarrow> (\<exists>bs. valid_scalar c bs \<and> k = PrivKeyFromBytes c bs))"

lemma GenerateIdentity_wf:
  assumes "valid_key c generated" "GenerateIdentity c generated nm = Inr i"
  shows "wf_identity c i"
proof -
  from assms(2) obtain n k where n: "normalizeIdentityName nm = Inr n" "generated = Inr k" "i = identityFromKey c n k"
    by (auto simp: GenerateIdentity_def split: sum.splits)
  with assms(1) obtain bs where "valid_scalar c bs" "k = PrivKeyFromBytes c bs" by (auto simp: valid_key_def)
  with n normalizeIdentityName_valid [OF n(1)] show ?thesis by (auto simp: wf_identity_def identityFromKey_def)
qed

lemma reread:
  assumes "lib_laws L" "wf_identity (il_crypto L) i" "MarshalJSON (il_marshal L) i = Inr doc"
  shows "parse_identity L (doc @ [CHR 0x0A]) = Inr i"
  using assms checkStored_own [of "il_crypto L" i]
  by (auto simp: parse_identity_def ParseIdentity_def UnmarshalJSON_def lib_laws_def MarshalJSON_def split: if_splits)

text \<open>A file that holds an identity decides every later run.\<close>

lemma loadOrCreate_settled:
  assumes "undisturbed env" "text_at env path (os_fs s) = Some c" "parse_identity L c = Inr i"
    and run: "loadOrCreateIdentityWith L env random path requestedName generate s = Some (Inr j, s')"
  shows "j = i"
proof -
  obtain a s1 where read: "ReadFile env path s = (a, s1)" by (cases "ReadFile env path s")
  note r = ReadFile_undisturbed [OF assms(1) read]
  from run obtain nm where nm: "normalizeRequestedIdentityName L requestedName = Inr nm"
    by (auto simp: loadOrCreateIdentityWith_def split: sum.splits)
  show ?thesis
  proof (cases a)
    case (Inr c')
    with r assms run nm read show ?thesis by (auto simp: loadOrCreateIdentityWith_def split: option.splits)
  next
    case (Inl e)
    with run nm read obtain k encoded where "create_identity L env path nm k encoded s1 = Some (Inr j, s')"
      by (auto simp: loadOrCreateIdentityWith_def split: if_splits sum.splits)
    then obtain s2 y where ensured: "ensureIdentityDirectory env (filepath_Dir path) s1 = Some (None, s2)"
      and loop: "create_loop L env path nm s2 = Some y" and keep: "keep_identity env path k encoded y = (Inr j, s')"
      by (auto simp: create_identity_def bind_eq_Some_conv split: option.splits)
    have t2: "text_at env path (os_fs s2) = Some c"
      using text_at_grown [OF conjunct1 [OF ensure_undisturbed [OF ensured assms(1)]]] r assms(2) by simp
    from create_loop_undisturbed [OF loop assms(1)] t2 keep assms(3) show ?thesis
      by (auto simp: keep_identity_def text_at_def node_at_def split: sum.splits option.splits prod.splits)
  qed
qed

text \<open>C25. The identity file is safe as long as no other process acts on the file system, whichever calls
  fail: every file that existed is kept unchanged and every directory stays; a run that returns an error
  leaves no new file behind, unless its last call was the removal of the file at that path and this call
  itself failed; and a run that returns an identity found it in the file, or has written it, with mode \<open>0600\<close> whatever the file-mode mask, as the only new file.\<close>

theorem identity_file_safe:
  assumes "undisturbed env" "loadOrCreateIdentityWith L env random path requestedName generate s = Some (r, s')"
  shows "grown (os_fs s) (os_fs s') \<and>
    (case r of
       Inl _ \<Rightarrow> no_new_files (os_fs s) (os_fs s') \<or>
         ((os_calls s' - 1, path) \<in> set (os_removals s') \<and> h_fails (oe_happens env (os_calls s' - 1)) \<noteq> None)
     | Inr i \<Rightarrow>
         (no_new_files (os_fs s) (os_fs s') \<and> (\<exists>c. text_at env path (os_fs s') = Some c \<and> parse_identity L c = Inr i)) \<or>
         (\<exists>doc nm. generate nm = Inr i \<and> MarshalJSON (il_marshal L) i = Inr doc \<and>
           stored env path (doc @ [CHR 0x0A]) (os_fs s) (os_fs s')))"
  using loadOrCreate_outcome [OF assms(2,1)] by (cases r) (simp_all add: run_outcome_def removal_failed_def)

text \<open>C26. The identity is stable under two hypotheses: no other process acts during the runs, and between
  them files and directories were only added, none changed or removed. Then, once a run has returned an
  identity, every later run on the same path that returns one returns the same, whatever name it asks for,
  whatever keys it could generate and whichever calls fail. (Without the hypotheses it is false: a run
  that lost the race for the file may return the identity of a winner whose own run then fails to close
  the file and removes it.)\<close>

theorem identity_stable:
  assumes "undisturbed env" "lib_laws L" "valid_key (il_crypto L) generated"
    "loadOrCreateIdentity L env random generated path requestedName s = Some (Inr i, s1)"
    "grown (os_fs s1) (os_fs s2)"
    "loadOrCreateIdentity L env random' generated' path requestedName' s2 = Some (Inr j, s3)"
  shows "j = i"
proof -
  have "\<exists>c. text_at env path (os_fs s1) = Some c \<and> parse_identity L c = Inr i"
    using loadOrCreate_outcome [OF assms(4) [unfolded loadOrCreateIdentity_def] assms(1)]
      GenerateIdentity_wf [OF assms(3)] reread [OF assms(2)] stored_text by (fastforce simp: run_outcome_def)
  then obtain c where c: "text_at env path (os_fs s1) = Some c" "parse_identity L c = Inr i" by blast
  show ?thesis
    using loadOrCreate_settled [OF assms(1) text_at_grown [OF assms(5) c(1)] c(2)] assms(6)
    by (simp add: loadOrCreateIdentity_def)
qed

lemma fewer_rounds:
  assumes "max 0 r' \<le> max 0 (r - pollDelay)" "0 < r"
  shows "nat ((max 0 r' + (pollDelay - 1)) div pollDelay) + 1 \<le> nat ((max 0 r + (pollDelay - 1)) div pollDelay)"
proof -
  define x where "x = max 0 r'"
  have x: "0 \<le> x" "x \<le> max 0 (r - pollDelay)" using assms by (simp_all add: x_def)
  have "(x + 9999999) div 10000000 + 1 \<le> (r + 9999999) div 10000000"
  proof (cases "10000000 \<le> r")
    case True
    with x have "x + 10000000 + 9999999 \<le> r + 9999999" by (simp add: pollDelay_def)
    then have "(x + 9999999 + 10000000) div 10000000 \<le> (r + 9999999) div 10000000" by (intro zdiv_mono1) simp_all
    then show ?thesis by simp
  next
    case False
    with x have "x = 0" by (simp add: pollDelay_def)
    moreover have "10000000 div 10000000 \<le> (r + 9999999) div 10000000" using assms(2) by (intro zdiv_mono1) simp_all
    ultimately show ?thesis by simp
  qed
  then show ?thesis using x assms(2) by (simp add: pollDelay_def flip: x_def)
qed

text \<open>Every round but the last takes at least the polling delay off the remaining time.\<close>

lemma race_loop_calls:
  "os_calls (snd (race_loop L env path nm deadline s)) \<le>
    os_calls s + 1 + 2 * nat ((max 0 (deadline - os_now s) + (pollDelay - 1)) div pollDelay)"
proof (induction L env path nm deadline s rule: race_loop.induct)
  case (1 L env path nm deadline s)
  obtain a s1 where read: "ReadFile env path s = (a, s1)" by (cases "ReadFile env path s")
  have adv: "os_now s \<le> os_now s1" "os_calls s1 = Suc (os_calls s)"
    using syscall_advances [where env = env and s = s] read unfolding ReadFile_def by (metis snd_conv)+
  show ?case
  proof (cases "\<exists>c e. a = Inr c \<and> parse_identity L c = Inl e \<and> \<not> deadline - os_now s1 \<le> 0")
    case False
    then have "snd (race_loop L env path nm deadline s) = s1"
      by (subst race_loop.simps) (auto simp: read Let_def split: sum.split option.split)
    with adv show ?thesis by simp
  next
    case True
    then obtain c e where c: "a = Inr c" "parse_identity L c = Inl e" "\<not> deadline - os_now s1 \<le> 0" by blast
    let ?d = "if deadline - os_now s1 < pollDelay then deadline - os_now s1 else pollDelay"
    have eq: "race_loop L env path nm deadline s = race_loop L env path nm deadline (Sleep env ?d s1)"
      using c by (subst race_loop.simps) (simp add: read Let_def)
    define s2 where "s2 = Sleep env ?d s1"
    define q where "q = (\<lambda>r. nat ((max 0 r + (pollDelay - 1)) div pollDelay))"
    have r: "max 0 (deadline - os_now s2) \<le> max 0 (deadline - os_now s - pollDelay)" "0 < deadline - os_now s"
      using adv c(3) by (auto simp: s2_def Sleep_def Let_def pollDelay_def)
    have "os_calls (snd (race_loop L env path nm deadline s)) \<le> os_calls s2 + 1 + 2 * q (deadline - os_now s2)"
      unfolding eq s2_def q_def by (rule 1 [OF read [symmetric] c(1,2) refl c(3)])
    moreover have "os_calls s2 = os_calls s + 2" using adv by (simp add: s2_def Sleep_def Let_def)
    moreover have "q (deadline - os_now s2) + 1 \<le> q (deadline - os_now s)"
      using fewer_rounds [OF r] by (simp add: q_def)
    ultimately show ?thesis by (simp add: q_def)
  qed
qed

text \<open>C37. The wait for the winner of a creation race ends: at most 101 reads and 100 pauses,
  however long the calls take and whatever other processes do to the file.\<close>

theorem race_wait_ends:
  "os_calls (snd (readIdentityAfterCreateRace L env path requestedName s)) \<le> os_calls s + 201"
  using race_loop_calls [of L env path requestedName "os_now s + waitLimit" s]
  by (simp add: readIdentityAfterCreateRace_def waitLimit_def pollDelay_def)

section \<open>Well-formed results\<close>

lemma parse_identity_wf: "parse_identity L c = Inr i \<Longrightarrow> wf_identity (il_crypto L) i"
  by (auto simp: parse_identity_def ParseIdentity_def UnmarshalJSON_def split: option.splits sum.splits
      dest: checkStored_candidate IdentityFromPrivateKey_wf)

lemma race_wf: "fst (race_loop L env path nm deadline s) = Inr (Some i) \<Longrightarrow> wf_identity (il_crypto L) i"
proof (induction L env path nm deadline s rule: race_loop.induct)
  case (1 L env path nm deadline s)
  obtain a s1 where read: "ReadFile env path s = (a, s1)" by (cases "ReadFile env path s")
  show ?case
  proof (cases "\<exists>c e. a = Inr c \<and> parse_identity L c = Inl e \<and> \<not> deadline - os_now s1 \<le> 0")
    case False
    with 1(2) show ?thesis
      by (subst (asm) race_loop.simps) (auto simp: read Let_def split: sum.splits option.splits if_splits dest: parse_identity_wf)
  next
    case True
    then obtain c e where c: "a = Inr c" "parse_identity L c = Inl e" "\<not> deadline - os_now s1 \<le> 0" by blast
    have "race_loop L env path nm deadline s = race_loop L env path nm deadline
        (Sleep env (if deadline - os_now s1 < pollDelay then deadline - os_now s1 else pollDelay) s1)"
      using c by (subst race_loop.simps) (simp add: read Let_def)
    with 1(2) 1(1) [OF read [symmetric] c(1,2) refl c(3)] show ?thesis by simp
  qed
qed

lemma create_loop_wf:
  assumes "create_loop L env path nm s = Some y" "fst y = Inr (Inr i)"
  shows "wf_identity (il_crypto L) i"
  using assms
proof (induction rule: create_loop.raw_induct [rotated, consumes 1, case_names step])
  case (step f L env path nm s y)
  obtain a s1 where o: "OpenFile_excl env path 0x180 s = (a, s1)" by (cases "OpenFile_excl env path 0x180 s")
  obtain b s2 where race: "readIdentityAfterCreateRace L env path nm s1 = (b, s2)"
    by (cases "readIdentityAfterCreateRace L env path nm s1")
  show ?case
  proof (cases "\<exists>e. a = Inl e \<and> errors_Is e ErrExist")
    case True
    with step(2,3) o race consider "b = Inr (Some i)" | "f L env path nm s2 = Some y"
      by (cases b) (auto split: option.splits)
    then show ?thesis
    proof cases
      case 1
      with race have "fst (race_loop L env path nm (os_now s1 + waitLimit) s1) = Inr (Some i)"
        by (simp add: readIdentityAfterCreateRace_def)
      then show ?thesis by (rule race_wf)
    qed (use step in blast)
  next
    case False
    with step(2,3) o show ?thesis by (cases a) auto
  qed
qed

lemma loaded_wf:
  assumes "valid_key (il_crypto L) generated" "loadOrCreateIdentity L env random generated path requestedName s = Some (Inr i, s')"
  shows "wf_identity (il_crypto L) i"
proof -
  have kept: "wf_identity (il_crypto L) i"
    if c: "create_identity L env path nm j encoded s1 = Some (Inr i, s')" and j: "wf_identity (il_crypto L) j" for nm j encoded s1
  proof -
    from c obtain s2 y where loop: "create_loop L env path nm s2 = Some y" and keep: "keep_identity env path j encoded y = (Inr i, s')"
      by (auto simp: create_identity_def bind_eq_Some_conv split: option.splits)
    obtain x s3 where y: "y = (x, s3)" by (cases y)
    from keep have "x = Inr (Inr i) \<or> i = j"
      by (auto simp: y keep_identity_def split: sum.splits prod.splits option.splits)
    with create_loop_wf [OF loop, of i] j show ?thesis by (auto simp: y)
  qed
  show ?thesis
    using assms(2) kept GenerateIdentity_wf [OF assms(1)]
    by (auto simp: loadOrCreateIdentity_def loadOrCreateIdentityWith_def split: sum.splits option.splits if_splits prod.splits
        dest: parse_identity_wf new_identity_Inr)
qed

text \<open>C39. Whatever other processes do to the file and whichever calls fail, an identity that a run returns
  is well-formed: its name is canonical and its public key and address belong to its private key.\<close>

theorem loaded_identity_wf:
  assumes "valid_key (il_crypto L) generated" "loadOrCreateIdentity L env random generated path requestedName s = Some (Inr i, s')"
  shows "wf_identity (il_crypto L) i"
  using assms by (rule loaded_wf)

end
