(* ===== verification/IdentityCreation.thy ===== *)
theory IdentityCreation
  imports IdentityFile
begin

text \<open>
  The first run of the command line tool: without interference and without failures the missing
  directories of the identity file are created, level by level, and the file is written
  (\<open>ensureIdentityDirectory\<close> and \<open>loadOrCreateIdentityWith\<close> of \<open>src/cmd/portalite/main.go\<close> return).

  The paths are those that \<open>filepath.Clean\<close> leaves alone and that do not leave the working directory:
  an optional root and plain names.
\<close>

section \<open>Clean paths\<close>

definition plain :: "string \<Rightarrow> bool" where
  "plain name \<longleftrightarrow> name \<noteq> [] \<and> CHR ''/'' \<notin> set name \<and> name \<noteq> ''.'' \<and> name \<noteq> ''..''"

definition render_path :: "bool \<Rightarrow> string list \<Rightarrow> string" where
  "render_path rooted names =
     (if rooted then CHR ''/'' # join_with ''/'' names else if names = [] then ''.'' else join_with ''/'' names)"

definition base_of :: "bool \<Rightarrow> location \<Rightarrow> location" where
  "base_of rooted cwd = (if rooted then [] else cwd)"

lemma enter_plain [simp]: "plain name \<Longrightarrow> enter name loc = name # loc"
  by (simp add: plain_def enter_def)

lemma join_start: "names \<noteq> [] \<Longrightarrow> list_all plain names \<Longrightarrow> \<exists>ch rest. join_with ''/'' names = ch # rest \<and> ch \<noteq> CHR ''/''"
  by (induction names rule: induct_list012) (auto simp: plain_def neq_Nil_conv)

lemma join_snoc: "names \<noteq> [] \<Longrightarrow> join_with sep (names @ [n]) = join_with sep names @ sep @ n"
  by (induction names rule: induct_list012) auto

lemma split_names: "names \<noteq> [] \<Longrightarrow> list_all plain names \<Longrightarrow> split_on (CHR ''/'') (join_with ''/'' names) = names"
  by (rule split_join_with) (auto simp: list_all_iff plain_def)

lemma split_names_sep:
  assumes "names \<noteq> []" "list_all plain names"
  shows "split_on (CHR ''/'') (join_with ''/'' names @ ''/'') = names @ [[]]"
  using split_join_with [of "names @ [[]]" "CHR ''/''"] assms by (simp add: join_snoc list_all_iff plain_def)

lemma clean_names: "list_all plain names \<Longrightarrow> fold (clean_name r) names out = rev names @ out"
  by (induction names arbitrary: out) (auto simp: clean_name_def plain_def)

lemma Dir_render:
  assumes "list_all plain names" "plain n"
  shows "filepath_Dir (render_path r (names @ [n])) = render_path r names"
proof -
  have n: "\<And>ch. ch \<in> set (rev n) \<Longrightarrow> \<not> is_sep ch" using assms(2) by (auto simp: plain_def is_sep_def)
  have drop: "rev (dropWhile (\<lambda>ch. \<not> is_sep ch) (rev (p @ CHR ''/'' # n))) = p @ ''/''" for p
    using dropWhile_append2 [of "rev n" "\<lambda>ch. \<not> is_sep ch" "CHR ''/'' # rev p"] n by (simp add: is_sep_def)
  show ?thesis
  proof (cases "names = []")
    case True
    have "filepath_Dir (CHR ''/'' # n) = filepath_Clean ''/''"
      using drop [of "[]"] by (simp only: filepath_Dir_def append_Nil)
    moreover have "filepath_Dir n = filepath_Clean []"
    proof -
      have "dropWhile (\<lambda>ch. \<not> is_sep ch) (rev n) = []" unfolding dropWhile_eq_Nil_conv using n by blast
      then show ?thesis by (simp only: filepath_Dir_def rev.simps)
    qed
    moreover have "filepath_Clean ''/'' = ''/''" "filepath_Clean [] = ''.''"
      by (simp_all add: filepath_Clean_def is_sep_def clean_name_def)
    ultimately show ?thesis using True by (simp add: render_path_def)
  next
    case False
    obtain ch rest where j: "join_with ''/'' names = ch # rest" "ch \<noteq> CHR ''/''" using join_start [OF False assms(1)] by blast
    have "filepath_Dir (render_path r (names @ [n])) = filepath_Clean (render_path r names @ ''/'')"
      using drop [of "render_path r names"] False
      by (simp add: filepath_Dir_def render_path_def join_snoc split: if_splits)
    also have "\<dots> = render_path r names"
      using j False split_names_sep [OF False assms(1)] clean_names [OF assms(1), of r "[]"]
      by (auto simp: filepath_Clean_def render_path_def is_sep_def clean_name_def)
    finally show ?thesis .
  qed
qed

section \<open>Calls without failures\<close>

definition faultless :: "os_env \<Rightarrow> bool" where
  "faultless env \<longleftrightarrow> undisturbed env \<and> (\<forall>n. h_fails (oe_happens env n) = None \<and> h_count (oe_happens env n) = None)"

lemma faultless_undisturbed: "faultless env \<Longrightarrow> undisturbed env"
  by (simp add: faultless_def)

lemma faultless_syscall:
  assumes "faultless env"
  shows "syscall what f env s = (case f (os_fs s) of
     Inl e \<Rightarrow> (Inl (Wrapped what e), before_call env s)
   | Inr (x, fs) \<Rightarrow> (Inr x, (before_call env s)\<lparr>os_fs := fs\<rparr>))"
  using assms by (simp add: faultless_def syscall_def happens_def undisturbed_def Let_def)

lemma locate_render:
  assumes "list_all plain names" "node_at fs (base_of r cwd) = Some (Dir m)"
  shows "locate cwd (render_path r names) fs = walk fs (base_of r cwd) names"
proof (cases "names = []")
  case True
  with assms(2) show ?thesis by (auto simp: locate_def render_path_def base_of_def is_sep_def enter_def node_at_def)
next
  case False
  obtain ch rest where j: "join_with ''/'' names = ch # rest" "ch \<noteq> CHR ''/''" using join_start [OF False assms(1)] by blast
  have "split_on (CHR ''/'') (CHR ''/'' # join_with ''/'' names) = [] # names"
    using split_names [OF False assms(1)] by simp
  then show ?thesis using False j split_names [OF False assms(1)]
    by (auto simp: locate_def render_path_def base_of_def is_sep_def enter_def node_at_def)
qed

lemma walk_snoc:
  "list_all plain names \<Longrightarrow> walk fs loc (names @ [n]) =
    (case walk fs loc names of Inl e \<Rightarrow> Inl e | Inr l \<Rightarrow> walk fs l [n])"
  by (induction names arbitrary: loc) (auto split: option.split node.split)

lemma walk_plain: "list_all plain names \<Longrightarrow> walk fs loc names = Inr l \<Longrightarrow> l = rev names @ loc"
  by (induction names arbitrary: loc) (auto split: option.splits node.splits)

lemma faultless_before [simp]: "faultless env \<Longrightarrow> h_others (happens env s) fs = fs"
  by (simp add: faultless_undisturbed)

lemma faultless_Mkdir:
  assumes "faultless env" "locate (oe_cwd env) path (os_fs s) = Inr loc"
  shows "Mkdir env path perm s = (case node_at (os_fs s) loc of
     None \<Rightarrow> (Inr (), (before_call env s)\<lparr>os_fs := fmupd loc (Dir (perm AND NOT (oe_umask env))) (os_fs s)\<rparr>)
   | Some _ \<Rightarrow> (Inl (Wrapped (''mkdir '' @ path) ErrExist), before_call env s))"
  using assms by (simp add: Mkdir_def faultless_syscall at_path_def split: option.split)

lemma faultless_missing:
  assumes "faultless env" "locate (oe_cwd env) path (os_fs s) = Inl e"
  shows "Mkdir env path perm s = (Inl (Wrapped (''mkdir '' @ path) e), before_call env s)"
    "ReadFile env path s = (Inl (Wrapped (''open '' @ path) e), before_call env s)"
  using assms by (simp_all add: Mkdir_def ReadFile_def faultless_syscall at_path_def)

section \<open>Creating the directories\<close>

text \<open>No file blocks the way from a directory along the names.\<close>

definition way_free :: "file_system \<Rightarrow> location \<Rightarrow> string list \<Rightarrow> bool" where
  "way_free fs loc names \<longleftrightarrow> (\<forall>k i c m. k \<le> length names \<longrightarrow> node_at fs (rev (take k names) @ loc) \<noteq> Some (File i c m))"

lemma way_free_Cons: "way_free fs loc (n # names) \<Longrightarrow> way_free fs (n # loc) names"
  unfolding way_free_def by (metis Suc_le_mono append_Cons append_assoc append_self_conv2 length_Cons rev.simps(2) take_Suc_Cons)

lemma way_free_snoc: "way_free fs loc (names @ [n]) \<Longrightarrow> way_free fs loc names"
  unfolding way_free_def by (metis le_SucI length_append_singleton linorder_not_le take_append diff_is_0_eq' nat_le_linear take_0 append_Nil2)

lemma walk_way:
  assumes "list_all plain names" "way_free fs loc names"
  shows "walk fs loc names = Inr (rev names @ loc) \<or> walk fs loc names = Inl ErrNotExist"
  using assms
proof (induction names arbitrary: loc)
  case (Cons n names)
  have "node_at fs loc \<noteq> Some (File i c m)" for i c m
    using Cons.prems(2) unfolding way_free_def by (metis append_self_conv2 le0 rev.simps(1) take_0)
  moreover have "walk fs (n # loc) names = Inr (rev names @ n # loc) \<or> walk fs (n # loc) names = Inl ErrNotExist"
    using Cons way_free_Cons by simp
  ultimately show ?case using Cons.prems by (auto split: option.split node.split)
qed simp

lemma ensure_existing:
  assumes "faultless env" "locate (oe_cwd env) path (os_fs s) = Inr loc" "node_at (os_fs s) loc = Some (Dir m)"
  shows "\<exists>s'. ensureIdentityDirectory env path s = Some (None, s') \<and> os_fs s' = os_fs s"
  using assms
  by (subst ensureIdentityDirectory.simps)
    (simp add: faultless_Mkdir errors_Is_def Stat_IsDir_def faultless_syscall at_path_def)

lemma ensure_new:
  assumes f: "faultless env" and l: "locate (oe_cwd env) path (os_fs s) = Inr loc" "node_at (os_fs s) loc = None"
  shows "\<exists>s'. ensureIdentityDirectory env path s = Some (None, s') \<and> os_fs s' = fmupd loc (Dir 0x1C0) (os_fs s)"
proof -
  define s1 where "s1 = (before_call env s)\<lparr>os_fs := fmupd loc (Dir (0x1C0 AND NOT (oe_umask env))) (os_fs s)\<rparr>"
  have ne: "loc \<noteq> []" "fmlookup (os_fs s) loc = None" using l(2) by (auto simp: node_at_def split: if_splits)
  have mk: "Mkdir env path 0x1C0 s = (Inr (), s1)" using faultless_Mkdir [OF f l(1)] l(2) by (simp add: s1_def)
  have "locate (oe_cwd env) path (os_fs s1) = Inr loc"
    using locate_grown [OF grown_fresh [OF ne(2)] l(1)] by (simp add: s1_def)
  then have "Chmod env path 0x1C0 s1 = (Inr (), (before_call env s1)\<lparr>os_fs := fmupd loc (Dir 0x1C0) (os_fs s)\<rparr>)"
    using ne by (simp add: Chmod_def faultless_syscall [OF f] at_path_def s1_def node_at_def)
  with mk show ?thesis by (subst ensureIdentityDirectory.simps) simp
qed

text \<open>The directories along the names exist, and nothing below them has changed.\<close>

definition way_made :: "location \<Rightarrow> string list \<Rightarrow> file_system \<Rightarrow> file_system \<Rightarrow> bool" where
  "way_made loc names fs fs' \<longleftrightarrow> grown fs fs' \<and> no_new_files fs fs' \<and> walk fs' loc names = Inr (rev names @ loc) \<and>
     (\<exists>m. node_at fs' (rev names @ loc) = Some (Dir m)) \<and>
     (\<forall>l. length l > length names + length loc \<longrightarrow> fmlookup fs' l = fmlookup fs l)"

lemma way_made_trans:
  assumes "way_made loc names fs fs1" "way_made loc (names @ ns) fs1 fs'"
  shows "way_made loc (names @ ns) fs fs'"
  using assms grown_trans no_new_files_trans unfolding way_made_def by auto

lemma ensure_reached:
  assumes f: "faultless env" and p: "list_all plain names" and b: "node_at (os_fs s) (base_of r (oe_cwd env)) = Some (Dir m)"
    and w: "walk (os_fs s) (base_of r (oe_cwd env)) names = Inr (rev names @ base_of r (oe_cwd env))"
    and free: "\<And>i c m. node_at (os_fs s) (rev names @ base_of r (oe_cwd env)) \<noteq> Some (File i c m)"
  shows "\<exists>s'. ensureIdentityDirectory env (render_path r names) s = Some (None, s') \<and>
    way_made (base_of r (oe_cwd env)) names (os_fs s) (os_fs s')"
proof -
  let ?loc = "rev names @ base_of r (oe_cwd env)"
  have l: "locate (oe_cwd env) (render_path r names) (os_fs s) = Inr ?loc" using locate_render [OF p b] w by simp
  show ?thesis
  proof (cases "node_at (os_fs s) ?loc")
    case None
    then have n: "fmlookup (os_fs s) ?loc = None" "?loc \<noteq> []" by (auto simp: node_at_def split: if_splits)
    have "way_made (base_of r (oe_cwd env)) names (os_fs s) (fmupd ?loc (Dir 0x1C0) (os_fs s))"
      using n grown_fresh [OF n(1)] walk_grown [OF grown_fresh [OF n(1)] w]
      by (auto simp: way_made_def no_new_files_def node_at_def split: if_splits)
    with ensure_new [OF f l None] show ?thesis by metis
  next
    case (Some nd)
    with free obtain k where "node_at (os_fs s) ?loc = Some (Dir k)" by (metis node.exhaust)
    with ensure_existing [OF f l] w show ?thesis by (force simp: way_made_def)
  qed
qed

lemma render_snoc_ne: "plain n \<Longrightarrow> render_path r (names @ [n]) \<noteq> render_path r names"
  by (cases "names = []") (auto simp: render_path_def join_snoc plain_def)

lemma ensure_step:
  assumes "faultless env" "Mkdir env path 0x1C0 s = (Inl (Wrapped what ErrNotExist), s1)" "filepath_Dir path \<noteq> path"
    "ensureIdentityDirectory env (filepath_Dir path) s1 = Some (None, s2)"
  shows "ensureIdentityDirectory env path s = ensureIdentityDirectory env path s2"
  using assms by (subst ensureIdentityDirectory.simps) (simp add: errors_Is_def Let_def)

lemma ensure_all:
  assumes f: "faultless env" and p: "list_all plain names" and b: "node_at (os_fs s) (base_of r (oe_cwd env)) = Some (Dir m)"
    and free: "way_free (os_fs s) (base_of r (oe_cwd env)) names"
  shows "\<exists>s'. ensureIdentityDirectory env (render_path r names) s = Some (None, s') \<and>
    way_made (base_of r (oe_cwd env)) names (os_fs s) (os_fs s')"
  using p b free
proof (induction names arbitrary: s m rule: rev_induct)
  case Nil
  then show ?case by (intro ensure_reached [OF f]) (auto simp: way_free_def)
next
  case (snoc n names)
  let ?b = "base_of r (oe_cwd env)" and ?path = "render_path r (names @ [n])"
  from snoc.prems have pl: "list_all plain names" "plain n" by simp_all
  have end_free: "node_at (os_fs s) (rev (names @ [n]) @ ?b) \<noteq> Some (File i c m)" for i c m
    using snoc.prems(3) unfolding way_free_def by (metis order_refl take_all)
  show ?case
  proof (cases "walk (os_fs s) ?b (names @ [n]) = Inr (rev (names @ [n]) @ ?b)")
    case True
    with snoc.prems end_free show ?thesis by (intro ensure_reached [OF f])
  next
    case False
    with walk_way [OF snoc.prems(1,3)] have "locate (oe_cwd env) ?path (os_fs s) = Inl ErrNotExist"
      using locate_render [OF snoc.prems(1,2)] by simp
    note mk = faultless_missing(1) [OF f this]
    have fs1: "os_fs (before_call env s) = os_fs s" using f by simp
    from snoc.IH [OF pl(1), of "before_call env s"] snoc.prems way_free_snoc fs1
    obtain s2 where e: "ensureIdentityDirectory env (render_path r names) (before_call env s) = Some (None, s2)"
      and made: "way_made ?b names (os_fs s) (os_fs s2)" by auto
    have same: "ensureIdentityDirectory env ?path s = ensureIdentityDirectory env ?path s2"
      by (rule ensure_step [OF f mk]) (use e Dir_render [OF pl] render_snoc_ne [OF pl(2)] in \<open>metis+\<close>)
    have "walk (os_fs s2) ?b (names @ [n]) = Inr (rev (names @ [n]) @ ?b)"
      using made walk_snoc [OF pl(1)] pl(2) by (auto simp: way_made_def)
    moreover have "node_at (os_fs s2) (rev (names @ [n]) @ ?b) \<noteq> Some (File i c m)" for i c m
      using made end_free node_at_no_new_files unfolding way_made_def by blast
    moreover obtain m' where "node_at (os_fs s2) ?b = Some (Dir m')"
      using node_at_grown(1) snoc.prems(2) made unfolding way_made_def by blast
    ultimately obtain s3 where "ensureIdentityDirectory env ?path s2 = Some (None, s3)" "way_made ?b (names @ [n]) (os_fs s2) (os_fs s3)"
      using ensure_reached [OF f snoc.prems(1)] by blast
    with same way_made_trans [OF made] show ?thesis by auto
  qed
qed

section \<open>Creating the file\<close>

lemma fill_faultless:
  assumes "faultless env"
  shows "\<exists>s'. fill_file env path fd encoded s = (None, s')"
  using assms
  by (simp add: fill_file_def write_file_def File_Chmod_def File_Close_def faultless_syscall)
    (simp add: File_Write_def Let_def happens_def faultless_def)

lemma open_faultless:
  assumes f: "faultless env" and l: "locate (oe_cwd env) path (os_fs s) = Inr loc" "node_at (os_fs s) loc = None"
    and p: "path \<noteq> []" "\<not> is_sep (last path)"
  shows "\<exists>fd s'. create_loop L env path nm s = Some (Inr (Inl fd), s')"
  using l p by (subst create_loop.simps) (simp add: OpenFile_excl_def faultless_syscall [OF f] at_path_def Let_def)

lemma render_last:
  assumes "list_all plain names" "plain n"
  shows "render_path r (names @ [n]) \<noteq> [] \<and> \<not> is_sep (last (render_path r (names @ [n])))"
proof -
  have "\<exists>p. render_path r (names @ [n]) = p @ n"
    by (cases "names = []") (auto simp: render_path_def join_snoc)
  then show ?thesis using assms(2) unfolding plain_def is_sep_def
    by (metis append_is_Nil_conv last_appendR last_in_set)
qed

lemma read_missing:
  assumes f: "faultless env" and p: "list_all plain names" and b: "node_at (os_fs s) (base_of r (oe_cwd env)) = Some (Dir m)"
    and free: "way_free (os_fs s) (base_of r (oe_cwd env)) names" and absent: "fmlookup (os_fs s) (rev names @ base_of r (oe_cwd env)) = None"
    "names \<noteq> []"
  shows "\<exists>what. ReadFile env (render_path r names) s = (Inl (Wrapped what ErrNotExist), before_call env s)"
proof -
  have "node_at (os_fs s) (rev names @ base_of r (oe_cwd env)) = None" using absent by (simp add: node_at_def)
  with walk_way [OF p free] locate_render [OF p b] show ?thesis
    by (auto simp: ReadFile_def faultless_syscall [OF f] at_path_def)
qed

lemma creation_returns:
  assumes f: "faultless env" and p: "list_all plain names" "plain n"
    and b: "node_at (os_fs s) (base_of r (oe_cwd env)) = Some (Dir m)"
    and free: "way_free (os_fs s) (base_of r (oe_cwd env)) names"
    and absent: "fmlookup (os_fs s) (n # rev names @ base_of r (oe_cwd env)) = None"
    and name: "normalizeRequestedIdentityName L requestedName = Inr nm" "new_identity L random generate nm = Inr (i, encoded)"
  shows "\<exists>s'. loadOrCreateIdentityWith L env random (render_path r (names @ [n])) requestedName generate s = Some (Inr i, s') \<and>
    stored env (render_path r (names @ [n])) encoded (os_fs s) (os_fs s')"
proof -
  let ?b = "base_of r (oe_cwd env)" and ?path = "render_path r (names @ [n])"
  have s1: "os_fs (before_call env s) = os_fs s" using f by simp
  have "way_free (os_fs s) ?b (names @ [n])"
    unfolding way_free_def
  proof (intro allI impI)
    fix k i c m
    assume "k \<le> length (names @ [n])"
    then show "node_at (os_fs s) (rev (take k (names @ [n])) @ ?b) \<noteq> Some (File i c m)"
      using free absent by (cases "k \<le> length names") (auto simp: way_free_def node_at_def)
  qed
  then obtain what where read: "ReadFile env ?path s = (Inl (Wrapped what ErrNotExist), before_call env s)"
    using read_missing [OF f _ b, of "names @ [n]"] p absent by auto
  obtain s2 where e: "ensureIdentityDirectory env (render_path r names) (before_call env s) = Some (None, s2)"
    and made: "way_made ?b names (os_fs s) (os_fs s2)"
    using ensure_all [OF f p(1), of "before_call env s" r m] b free s1 by auto
  have l2: "locate (oe_cwd env) ?path (os_fs s2) = Inr (n # rev names @ ?b)"
  proof -
    obtain m' where "node_at (os_fs s2) ?b = Some (Dir m')" using node_at_grown(1) b made unfolding way_made_def by blast
    with locate_render [of "names @ [n]"] p made walk_snoc [OF p(1)] show ?thesis by (auto simp: way_made_def)
  qed
  have a2: "fmlookup (os_fs s2) (n # rev names @ ?b) = None" using made absent by (simp add: way_made_def)
  obtain fd s3 where loop: "create_loop L env ?path nm s2 = Some (Inr (Inl fd), s3)"
    using open_faultless [OF f l2, of L nm] a2 render_last [OF p, of r] by (auto simp: node_at_def)
  obtain s4 where fill: "fill_file env ?path fd encoded s3 = (None, s4)" using fill_faultless [OF f] by blast
  have run: "loadOrCreateIdentityWith L env random ?path requestedName generate s = Some (Inr i, s4)"
    by (simp add: loadOrCreateIdentityWith_def name read errors_Is_def create_identity_def Dir_render [OF p] e loop
        keep_identity_def fill)
  from created_filled(2) [OF loop faultless_undisturbed [OF f] fill refl]
  have "stored env ?path encoded (os_fs s) (os_fs s4)" using made stored_later unfolding way_made_def by blast
  with run show ?thesis by blast
qed

lemma reload:
  assumes "faultless env" "text_at env path (os_fs s) = Some c" "parse_identity L c = Inr i"
    "normalizeRequestedIdentityName L requestedName = Inr nm" "checkIdentityName i nm path = None"
  shows "\<exists>s'. loadOrCreateIdentityWith L env random path requestedName generate s = Some (Inr i, s')"
proof -
  have "\<exists>s'. ReadFile env path s = (Inr c, s')"
    using assms(2) by (auto simp: ReadFile_def faultless_syscall [OF assms(1)] at_path_def text_at_def
        split: sum.splits option.splits node.splits)
  then show ?thesis using assms(3-5) by (auto simp: loadOrCreateIdentityWith_def)
qed

text \<open>C38. Creating an identity ends: in an undisturbed file system without failures, when no file blocks
  the way to the path and nothing is there yet, a run returns the generated identity and has stored it,
  however many directories were missing.\<close>

theorem fresh_identity_created:
  assumes "faultless env" "list_all plain names" "plain n" "node_at (os_fs s) (base_of r (oe_cwd env)) = Some (Dir m)"
    "way_free (os_fs s) (base_of r (oe_cwd env)) names" "fmlookup (os_fs s) (n # rev names @ base_of r (oe_cwd env)) = None"
    "normalizeRequestedIdentityName L requestedName = Inr nm" "new_identity L random generate nm = Inr (i, encoded)"
  shows "\<exists>s'. loadOrCreateIdentityWith L env random (render_path r (names @ [n])) requestedName generate s = Some (Inr i, s') \<and>
    stored env (render_path r (names @ [n])) encoded (os_fs s) (os_fs s')"
  using assms by (rule creation_returns)

section \<open>Witnesses\<close>

text \<open>A working directory without entries, the usual mask, and no failures.\<close>

definition sample_os :: os_env where
  "sample_os = \<lparr>oe_cwd = [''app'', ''srv''], oe_umask = 0x12,
     oe_happens = \<lambda>_. \<lparr>h_others = id, h_elapsed = 1, h_fails = None, h_count = None\<rparr>\<rparr>"

definition sample_state :: os_state where
  "sample_state = \<lparr>os_fs = fmap_of_list [([''srv''], Dir 0x1ED), ([''app'', ''srv''], Dir 0x1ED)], os_now = 0, os_calls = 0, os_removals = []\<rparr>"

definition sample_lib :: "byte list identity_lib" where
  "sample_lib = \<lparr>il_crypto = sample_crypto, il_marshal = sample_marshal, il_check = \<lambda>_. None, il_unmarshal = sample_unmarshal\<rparr>"

definition sample_generated :: "go_error + byte list" where
  "sample_generated = Inr (PrivKeyFromBytes sample_crypto (replicate 32 1))"

definition sample_random :: "go_error + byte list" where
  "sample_random = Inr [1, 2, 3, 4, 5, 6]"

lemma sample_os_faultless: "faultless sample_os"
  by (simp add: faultless_def undisturbed_def sample_os_def)

lemma unary_roundtrip_rest: "unary_parse (length fs) (unary_fields fs @ rest) = fs"
proof (induction fs)
  case (Cons f fs)
  have "takeWhile (\<lambda>ch. ch = CHR ''1'') (unary_fields (f # fs) @ rest) = replicate (length f) CHR ''1''"
    by (simp add: takeWhile_append)
  then show ?case using Cons by (simp add: Let_def)
qed simp

lemma sample_lib_laws: "lib_laws sample_lib"
proof -
  have "sample_unmarshal (sample_marshal st @ rest) = Inr st" for st rest
  proof -
    let ?fs = "[st_name st, st_address st, st_public_key st, st_private_key st, st_mnemonic st]"
    have "length ?fs = 5" by simp
    then have "unary_parse 5 (sample_marshal st @ rest) = ?fs"
      using unary_roundtrip_rest [of ?fs rest] by (simp only: sample_marshal_def)
    then show ?thesis by (simp add: sample_unmarshal_def)
  qed
  then show ?thesis by (simp add: lib_laws_def sample_lib_def sample_laws)
qed

lemma sample_valid_key: "valid_key (il_crypto sample_lib) sample_generated"
  using sample_scalar by (auto simp: valid_key_def sample_generated_def sample_lib_def)

lemma sample_new: "\<exists>i encoded. new_identity sample_lib sample_random (GenerateIdentity (il_crypto sample_lib) sample_generated) [] = Inr (i, encoded)"
proof -
  let ?nm = "''portalite-'' @ hex_encode [1, 2, 3, 4, 5, 6]"
  have v: "valid_identity_name ?nm"
    by (rule random_label_valid) (simp_all add: identity_name_char_def char_class_defs)
  then obtain i where g: "GenerateIdentity (il_crypto sample_lib) sample_generated ?nm = Inr i"
    by (simp only: GenerateIdentity_def valid_name_fixed sample_generated_def sum.case)
  have w: "wf_identity (il_crypto sample_lib) i" using GenerateIdentity_wf [OF sample_valid_key g] .
  have "crypto_laws (il_crypto sample_lib)" using sample_lib_laws by (simp add: lib_laws_def)
  from wf_identity_initialised [OF this w] have "\<exists>doc. MarshalJSON (il_marshal sample_lib) i = Inr doc"
    by (simp add: MarshalJSON_def)
  then show ?thesis using g
    by (elim exE) (intro exI, simp only: new_identity_def new_identity_name_def randomIdentityName_def sample_random_def
        sum.case if_True simp_thms)
qed

lemma sample_path: "render_path False ([''keys''] @ [''identity.json'']) = ''keys/identity.json''"
  by (simp add: render_path_def)

lemma sample_created:
  obtains i encoded s' where
    "new_identity sample_lib sample_random (GenerateIdentity (il_crypto sample_lib) sample_generated) [] = Inr (i, encoded)"
    "loadOrCreateIdentity sample_lib sample_os sample_random sample_generated ''keys/identity.json'' [] sample_state = Some (Inr i, s')"
    "stored sample_os ''keys/identity.json'' encoded (os_fs sample_state) (os_fs s')"
proof -
  obtain i encoded where new: "new_identity sample_lib sample_random (GenerateIdentity (il_crypto sample_lib) sample_generated) [] = Inr (i, encoded)"
    using sample_new by blast
  have pl: "list_all plain [''keys'']" "plain ''identity.json''" by (simp_all add: plain_def)
  have st: "node_at (os_fs sample_state) (base_of False (oe_cwd sample_os)) = Some (Dir 0x1ED)"
    "way_free (os_fs sample_state) (base_of False (oe_cwd sample_os)) [''keys'']"
    "fmlookup (os_fs sample_state) (''identity.json'' # rev [''keys''] @ base_of False (oe_cwd sample_os)) = None"
    by (auto simp: sample_state_def sample_os_def base_of_def node_at_def way_free_def fmlookup_of_list le_Suc_eq)
  have nm: "normalizeRequestedIdentityName sample_lib [] = Inr []" by (simp add: normalizeRequestedIdentityName_def)
  from creation_returns [OF sample_os_faultless pl st nm new] new show ?thesis
    using that unfolding sample_path loadOrCreateIdentity_def by blast
qed

theorem fresh_identity_created_witness:
  "\<exists>i encoded s'. loadOrCreateIdentity sample_lib sample_os sample_random sample_generated ''keys/identity.json'' [] sample_state = Some (Inr i, s') \<and>
     stored sample_os ''keys/identity.json'' encoded (os_fs sample_state) (os_fs s')"
proof -
  obtain i encoded where new: "new_identity sample_lib sample_random (GenerateIdentity (il_crypto sample_lib) sample_generated) [] = Inr (i, encoded)"
    using sample_new by blast
  have "\<exists>s'. loadOrCreateIdentityWith sample_lib sample_os sample_random (render_path False ([''keys''] @ [''identity.json''])) []
      (GenerateIdentity (il_crypto sample_lib) sample_generated) sample_state = Some (Inr i, s') \<and>
    stored sample_os (render_path False ([''keys''] @ [''identity.json''])) encoded (os_fs sample_state) (os_fs s')"
    by (rule fresh_identity_created [where m = "0x1ED" and nm = "[]", OF sample_os_faultless])
      (auto simp: plain_def sample_state_def sample_os_def base_of_def node_at_def way_free_def
        fmlookup_of_list le_Suc_eq normalizeRequestedIdentityName_def new)
  then show ?thesis unfolding sample_path loadOrCreateIdentity_def by blast
qed

theorem identity_file_safe_witness:
  "\<exists>i s'. loadOrCreateIdentityWith sample_lib sample_os sample_random ''keys/identity.json'' []
      (GenerateIdentity (il_crypto sample_lib) sample_generated) sample_state = Some (Inr i, s') \<and> grown (os_fs sample_state) (os_fs s')"
proof -
  obtain i encoded s' where
    "loadOrCreateIdentity sample_lib sample_os sample_random sample_generated ''keys/identity.json'' [] sample_state = Some (Inr i, s')"
    by (rule sample_created)
  then have run: "loadOrCreateIdentityWith sample_lib sample_os sample_random ''keys/identity.json'' []
      (GenerateIdentity (il_crypto sample_lib) sample_generated) sample_state = Some (Inr i, s')"
    by (simp only: loadOrCreateIdentity_def)
  from identity_file_safe [OF faultless_undisturbed [OF sample_os_faultless] run] run show ?thesis by blast
qed

theorem identity_stable_witness:
  "\<exists>i s1 s3. loadOrCreateIdentity sample_lib sample_os sample_random sample_generated ''keys/identity.json'' [] sample_state = Some (Inr i, s1) \<and>
     loadOrCreateIdentity sample_lib sample_os (Inl EOF) (Inl EOF) ''keys/identity.json'' [] s1 = Some (Inr i, s3)"
proof -
  obtain i encoded s1 where new: "new_identity sample_lib sample_random (GenerateIdentity (il_crypto sample_lib) sample_generated) [] = Inr (i, encoded)"
    and run: "loadOrCreateIdentity sample_lib sample_os sample_random sample_generated ''keys/identity.json'' [] sample_state = Some (Inr i, s1)"
    and st: "stored sample_os ''keys/identity.json'' encoded (os_fs sample_state) (os_fs s1)" by (rule sample_created)
  from new_identity_Inr [OF new] obtain doc nm where d: "MarshalJSON (il_marshal sample_lib) i = Inr doc" "encoded = doc @ [CHR 0x0A]"
    "GenerateIdentity (il_crypto sample_lib) sample_generated nm = Inr i" by blast
  have "parse_identity sample_lib encoded = Inr i"
    using reread [OF sample_lib_laws GenerateIdentity_wf [OF sample_valid_key d(3)] d(1)] d(2) by simp
  then obtain j s3 where second: "loadOrCreateIdentity sample_lib sample_os (Inl EOF) (Inl EOF) ''keys/identity.json'' [] s1 = Some (Inr j, s3)"
    using reload [OF sample_os_faultless stored_text [OF st], of sample_lib i "[]" "[]"
        "Inl EOF" "GenerateIdentity (il_crypto sample_lib) (Inl EOF)"]
    unfolding loadOrCreateIdentity_def by (auto simp: normalizeRequestedIdentityName_def checkIdentityName_def)
  have "j = i"
    using identity_stable [OF faultless_undisturbed [OF sample_os_faultless] sample_lib_laws sample_valid_key run grown_refl second] .
  with run second show ?thesis by blast
qed

theorem loaded_identity_wf_witness:
  "\<exists>i s'. loadOrCreateIdentity sample_lib sample_os sample_random sample_generated ''keys/identity.json'' [] sample_state = Some (Inr i, s') \<and>
     wf_identity (il_crypto sample_lib) i"
proof -
  obtain i encoded s' where
    "loadOrCreateIdentity sample_lib sample_os sample_random sample_generated ''keys/identity.json'' [] sample_state = Some (Inr i, s')"
    by (rule sample_created)
  with loaded_identity_wf [OF sample_valid_key this] show ?thesis by blast
qed

end
