(* ===== verification/UdpProxy.thy ===== *)
theory UdpProxy
  imports Exposure "HOL-Library.Product_Lexorder"
begin

text \<open>
  The UDP side of the proxy (\<open>src/udp_proxy.go\<close>): a table of flows, each with its own socket to the
  local target, that forwards relayed datagrams and carries the responses back.

  Every region under the mutex is one operation on the record \<open>udpProxyFlowManager\<close>; the step relation
  interleaves those of the accept loop, of the readers and of the cleanup loop. \<open>remove_flow\<close>,
  \<open>cleanup_tick\<close> and \<open>close_manager\<close> are one step each with the \<open>Close\<close> calls that the code makes after
  the region, so that a flow which is removed but not yet closed is not seen. A socket is a number that
  \<open>net.DialUDP\<close> returned, and since every flow has its own socket, the pointer comparisons
  \<open>m.flows[key] == flow\<close> compare sockets. \<open>um_opened\<close>, \<open>um_closes\<close> and \<open>um_written\<close> are a
  history that the code does not keep.

  The lemmas show that the table stays within its capacity, that sockets are not leaked, and that a
  response travels back on the flow whose socket received it.
\<close>

section \<open>State\<close>

datatype udpProxyFlowKey = FlowKey (fk_relayURL: string) (fk_flowID: "32 word")

instantiation udpProxyFlowKey :: linorder
begin

definition less_eq_udpProxyFlowKey :: "udpProxyFlowKey \<Rightarrow> udpProxyFlowKey \<Rightarrow> bool" where
  "a \<le> b \<longleftrightarrow> (fk_relayURL a, fk_flowID a) \<le> (fk_relayURL b, fk_flowID b)"

definition less_udpProxyFlowKey :: "udpProxyFlowKey \<Rightarrow> udpProxyFlowKey \<Rightarrow> bool" where
  "a < b \<longleftrightarrow> (fk_relayURL a, fk_flowID a) < (fk_relayURL b, fk_flowID b)"

instance
proof
  fix a b c :: udpProxyFlowKey
  show "a < b \<longleftrightarrow> a \<le> b \<and> \<not> b \<le> a"
    unfolding less_eq_udpProxyFlowKey_def less_udpProxyFlowKey_def by (rule less_le_not_le)
  show "a \<le> a" unfolding less_eq_udpProxyFlowKey_def by (rule order_refl)
  show "a \<le> b \<Longrightarrow> b \<le> c \<Longrightarrow> a \<le> c" unfolding less_eq_udpProxyFlowKey_def by (rule order_trans)
  show "a \<le> b \<or> b \<le> a" unfolding less_eq_udpProxyFlowKey_def by (rule linear)
  show "a = b" if "a \<le> b" "b \<le> a"
    using order_antisym [OF that [unfolded less_eq_udpProxyFlowKey_def]] by (simp add: udpProxyFlowKey.expand)
qed

end

record udpProxyFlow =
  fl_key :: udpProxyFlowKey
  fl_conn :: nat
  fl_frame :: DatagramFrame
  fl_lastSeen :: instant

record udpProxyFlowManager =
  um_flows :: "(udpProxyFlowKey, udpProxyFlow) fmap"
  um_closed :: bool
  um_opened :: "(udpProxyFlowKey \<times> nat) list"
  um_closes :: "nat list"
  um_written :: "(nat \<times> byte list) list"

definition new_manager :: udpProxyFlowManager where
  "new_manager = \<lparr>um_flows = fmempty, um_closed = False, um_opened = [], um_closes = [], um_written = []\<rparr>"

definition close_conn :: "nat \<Rightarrow> udpProxyFlowManager \<Rightarrow> udpProxyFlowManager" where
  "close_conn c m = m\<lparr>um_closes := um_closes m @ [c]\<rparr>"

section \<open>Operations\<close>

text \<open>The locked region of \<open>forward\<close>: the flow that carries the datagram, created if it is new.\<close>

definition forward_locked :: "instant \<Rightarrow> (go_error + nat) \<Rightarrow> DatagramFrame \<Rightarrow> udpProxyFlowManager \<Rightarrow>
    udpProxyFlowManager \<times> (go_error + udpProxyFlow)" where
  "forward_locked now dial frame m =
     (let key = FlowKey (RelayURL frame) (FlowID frame) in
      if um_closed m then (m, Inl NetErrClosed)
      else (case fmlookup (um_flows m) key of
          None \<Rightarrow>
            if int (fcard (fmdom (um_flows m))) \<ge> defaultUDPProxyMaxFlows then (m, Inl ErrUDPFlowCapacity)
            else (case dial of
                Inl err \<Rightarrow> (m, Inl (Wrapped ''dial local UDP target'' err))
              | Inr conn \<Rightarrow>
                  (let flow = \<lparr>fl_key = key, fl_conn = conn, fl_frame = frame\<lparr>Payload := []\<rparr>, fl_lastSeen = now\<rparr>
                   in (m\<lparr>um_flows := fmupd key flow (um_flows m), um_opened := um_opened m @ [(key, conn)]\<rparr>, Inr flow)))
        | Some flow \<Rightarrow>
            (let flow = flow\<lparr>fl_frame := (fl_frame flow)\<lparr>UDPAddr := UDPAddr frame\<rparr>, fl_lastSeen := now\<rparr>
             in (m\<lparr>um_flows := fmupd key flow (um_flows m)\<rparr>, Inr flow))))"

text \<open>\<open>remove\<close>: the flow leaves the table if it is still the one there, and its socket is closed.\<close>

definition remove_flow :: "udpProxyFlowKey \<Rightarrow> nat \<Rightarrow> udpProxyFlowManager \<Rightarrow> udpProxyFlowManager" where
  "remove_flow key conn m =
     close_conn conn
       (case fmlookup (um_flows m) key of
          Some flow \<Rightarrow> if fl_conn flow = conn then m\<lparr>um_flows := fmdrop key (um_flows m)\<rparr> else m
        | None \<Rightarrow> m)"

text \<open>\<open>forward\<close> without interference between its two regions; \<open>write\<close> is the outcome of the write.\<close>

definition forward :: "instant \<Rightarrow> (go_error + nat) \<Rightarrow> go_error option \<Rightarrow> DatagramFrame \<Rightarrow> udpProxyFlowManager \<Rightarrow>
    udpProxyFlowManager \<times> go_error option" where
  "forward now dial write frame m =
     (case forward_locked now dial frame m of
        (m', Inl err) \<Rightarrow> (m', Some err)
      | (m', Inr flow) \<Rightarrow>
          (case write of
             None \<Rightarrow> (m'\<lparr>um_written := um_written m' @ [(fl_conn flow, Payload frame)]\<rparr>, None)
           | Some err \<Rightarrow> (remove_flow (fl_key flow) (fl_conn flow) m', Some (Wrapped ''write local UDP target'' err))))"

text \<open>One round of \<open>readResponses\<close> for the flow with the given key and socket. The locked region gives
  the frame to send, or ends the reader.\<close>

definition response_locked :: "instant \<Rightarrow> udpProxyFlowKey \<Rightarrow> nat \<Rightarrow> byte list \<Rightarrow> udpProxyFlowManager \<Rightarrow>
    udpProxyFlowManager \<times> DatagramFrame option" where
  "response_locked now key conn bytes m =
     (if um_closed m then (m, None)
      else (case fmlookup (um_flows m) key of
          None \<Rightarrow> (m, None)
        | Some flow \<Rightarrow>
            if fl_conn flow \<noteq> conn then (m, None)
            else (m\<lparr>um_flows := fmupd key (flow\<lparr>fl_lastSeen := now\<rparr>) (um_flows m)\<rparr>,
                  Some ((fl_frame flow)\<lparr>Payload := bytes\<rparr>))))"

definition readResponses_round :: "instant \<Rightarrow> udpProxyFlowKey \<Rightarrow> nat \<Rightarrow> (go_error + byte list) \<Rightarrow>
    (DatagramFrame \<Rightarrow> go_error option) \<Rightarrow> bool \<Rightarrow> udpProxyFlowManager \<Rightarrow> udpProxyFlowManager \<times> DatagramFrame option \<times> bool" where
  "readResponses_round now key conn input send ctxDone m =
     (case input of
        Inl _ \<Rightarrow> (remove_flow key conn m, None, False)
      | Inr bytes \<Rightarrow>
          (case response_locked now key conn bytes m of
             (m', None) \<Rightarrow> (m', None, False)
           | (m', Some frame) \<Rightarrow>
               (case send frame of
                  None \<Rightarrow> (m', Some frame, True)
                | Some err \<Rightarrow>
                    if ctxDone \<or> errors_Is err NetErrClosed then (remove_flow key conn m', Some frame, False)
                    else (m', Some frame, True))))"

text \<open>One tick of \<open>cleanupLoop\<close>: idle flows leave the table and their sockets are closed.\<close>

definition idle_flow :: "instant \<Rightarrow> udpProxyFlow \<Rightarrow> bool" where
  "idle_flow now flow \<longleftrightarrow> now - fl_lastSeen flow \<ge> defaultUDPFlowIdleTimeout"

definition flow_list :: "(udpProxyFlowKey, udpProxyFlow) fmap \<Rightarrow> udpProxyFlow list" where
  "flow_list fs = map snd (sorted_list_of_fmap fs)"

definition cleanup_tick :: "instant \<Rightarrow> udpProxyFlowManager \<Rightarrow> udpProxyFlowManager" where
  "cleanup_tick now m =
     (let expired = filter (idle_flow now) (flow_list (um_flows m));
          m = m\<lparr>um_flows := fold (\<lambda>flow. fmdrop (fl_key flow)) expired (um_flows m)\<rparr>
      in fold (\<lambda>flow. close_conn (fl_conn flow)) expired m)"

definition close_manager :: "udpProxyFlowManager \<Rightarrow> udpProxyFlowManager" where
  "close_manager m =
     (if um_closed m then m
      else (let flows = flow_list (um_flows m);
                m = m\<lparr>um_closed := True, um_flows := fold (\<lambda>flow. fmdrop (fl_key flow)) flows (um_flows m)\<rparr>
            in fold (\<lambda>flow. close_conn (fl_conn flow)) flows m))"

text \<open>\<open>runUDPProxy\<close>: \<open>accepts\<close> is what successive calls of \<open>AcceptDatagram\<close> return, each with the time
  and the outcomes of forwarding; \<open>None\<close> is a proxy that is still running. Every return after the start of
  the manager closes it.\<close>

fun udp_loop :: "go_error option \<Rightarrow> ((go_error + DatagramFrame) \<times> instant \<times> (go_error + nat) \<times> go_error option) list \<Rightarrow>
    udpProxyFlowManager \<Rightarrow> (udpProxyFlowManager \<times> go_error) option" where
  "udp_loop ctxErr [] m = None"
| "udp_loop ctxErr ((Inl err, _) # rest) m =
     Some (close_manager m, (case ctxErr of Some c \<Rightarrow> c | None \<Rightarrow> Wrapped ''accept relayed UDP datagram'' err))"
| "udp_loop ctxErr ((Inr frame, now, dial, write) # rest) m =
     udp_loop ctxErr rest (fst (forward now dial write frame m))"

definition runUDPProxy :: "go_error option \<Rightarrow> go_error option \<Rightarrow> go_error option \<Rightarrow> string \<Rightarrow>
    ((go_error + DatagramFrame) \<times> instant \<times> (go_error + nat) \<times> go_error option) list \<Rightarrow>
    (udpProxyFlowManager \<times> go_error) option" where
  "runUDPProxy resolveErr readyErr ctxErr target accepts =
     (case resolveErr of
        Some err \<Rightarrow> Some (new_manager, Wrapped (''resolve UDP target '' @ target) err)
      | None \<Rightarrow>
          (case readyErr of
             Some err \<Rightarrow> Some (new_manager, Wrapped ''wait for UDP relay'' err)
           | None \<Rightarrow> udp_loop ctxErr accepts new_manager))"

section \<open>Interleaving\<close>

inductive udp_step :: "udpProxyFlowManager \<Rightarrow> udpProxyFlowManager \<Rightarrow> bool" where
  forwarded: "(\<And>c. dial = Inr c \<Longrightarrow> c \<notin> snd ` set (um_opened m)) \<Longrightarrow> forward_locked now dial frame m = (m', r) \<Longrightarrow> udp_step m m'"
| written: "(key, conn) \<in> set (um_opened m) \<Longrightarrow> udp_step m (m\<lparr>um_written := um_written m @ [(conn, bytes)]\<rparr>)"
| removed: "(key, conn) \<in> set (um_opened m) \<Longrightarrow> udp_step m (remove_flow key conn m)"
| responded: "(key, conn) \<in> set (um_opened m) \<Longrightarrow> response_locked now key conn bytes m = (m', r) \<Longrightarrow> udp_step m m'"
| ticked: "udp_step m (cleanup_tick now m)"
| closed: "udp_step m (close_manager m)"

text \<open>The table is within its capacity, every flow is filed under its own key with its own open socket, and
  every other socket that was opened has been closed.\<close>

definition wf_flow :: "udpProxyFlowManager \<Rightarrow> udpProxyFlowKey \<Rightarrow> udpProxyFlow \<Rightarrow> bool" where
  "wf_flow m k fl \<longleftrightarrow> fl_key fl = k \<and> RelayURL (fl_frame fl) = fk_relayURL k \<and> FlowID (fl_frame fl) = fk_flowID k \<and>
     (k, fl_conn fl) \<in> set (um_opened m) \<and> fl_conn fl \<notin> set (um_closes m)"

definition udp_inv :: "udpProxyFlowManager \<Rightarrow> bool" where
  "udp_inv m \<longleftrightarrow> int (fcard (fmdom (um_flows m))) \<le> defaultUDPProxyMaxFlows \<and>
     (\<forall>k fl. fmlookup (um_flows m) k = Some fl \<longrightarrow> wf_flow m k fl) \<and>
     distinct (map snd (um_opened m)) \<and>
     set (um_closes m) \<subseteq> snd ` set (um_opened m) \<and>
     (\<forall>k c. (k, c) \<in> set (um_opened m) \<longrightarrow> c \<in> set (um_closes m) \<or> (\<exists>fl. fmlookup (um_flows m) k = Some fl \<and> fl_conn fl = c)) \<and>
     (um_closed m \<longrightarrow> um_flows m = fmempty)"

section \<open>Lemmas\<close>

lemma udp_invI:
  assumes "int (fcard (fmdom (um_flows m))) \<le> defaultUDPProxyMaxFlows"
    "\<And>k fl. fmlookup (um_flows m) k = Some fl \<Longrightarrow> wf_flow m k fl" "distinct (map snd (um_opened m))"
    "set (um_closes m) \<subseteq> snd ` set (um_opened m)"
    "\<And>k c. (k, c) \<in> set (um_opened m) \<Longrightarrow> c \<in> set (um_closes m) \<or> (\<exists>fl. fmlookup (um_flows m) k = Some fl \<and> fl_conn fl = c)"
    "um_closed m \<Longrightarrow> um_flows m = fmempty"
  shows "udp_inv m"
  using assms unfolding udp_inv_def by blast

lemma udp_inv_basic:
  assumes "udp_inv m"
  shows "int (fcard (fmdom (um_flows m))) \<le> defaultUDPProxyMaxFlows" "distinct (map snd (um_opened m))"
    "set (um_closes m) \<subseteq> snd ` set (um_opened m)" "um_closed m \<Longrightarrow> um_flows m = fmempty"
    "fmlookup (um_flows m) k = Some fl \<Longrightarrow> wf_flow m k fl"
  using assms unfolding udp_inv_def by blast+

lemma udp_invD:
  assumes "udp_inv m" "fmlookup (um_flows m) k = Some fl"
  shows "fl_key fl = k" "RelayURL (fl_frame fl) = fk_relayURL k" "FlowID (fl_frame fl) = fk_flowID k"
    "(k, fl_conn fl) \<in> set (um_opened m)" "fl_conn fl \<notin> set (um_closes m)" "\<not> um_closed m"
  using assms unfolding udp_inv_def wf_flow_def by (simp, metis, metis, metis, metis, auto)

lemma udp_inv_opened:
  "udp_inv m \<Longrightarrow> (k, c) \<in> set (um_opened m) \<Longrightarrow>
   c \<in> set (um_closes m) \<or> (\<exists>fl. fmlookup (um_flows m) k = Some fl \<and> fl_conn fl = c)"
  unfolding udp_inv_def by blast

lemma opened_unique: "udp_inv m \<Longrightarrow> (k, c) \<in> set (um_opened m) \<Longrightarrow> (k', c) \<in> set (um_opened m) \<Longrightarrow> k = k'"
  unfolding udp_inv_def by (metis distinct_map inj_onD prod.sel(1,2))

lemma fcard_drop: "fcard (fmdom (fmdrop k m)) \<le> fcard (fmdom m)"
  by (rule fcard_mono) auto

lemma set_flow_list: "fl \<in> set (flow_list fs) \<longleftrightarrow> (\<exists>k. fmlookup fs k = Some fl)"
  by (simp add: flow_list_def set_sorted_list_of_fmap image_iff Bex_def split_paired_Ex)

lemma drop_fold: "fold (\<lambda>flow. fmdrop (fl_key flow)) es fs = fmfilter (\<lambda>k. k \<notin> fl_key ` set es) fs"
  by (induction es arbitrary: fs) (auto intro!: fmap_ext)

lemma close_fold:
  "fold (\<lambda>flow. close_conn (fl_conn flow)) es m = m\<lparr>um_closes := um_closes m @ map fl_conn es\<rparr>"
  by (induction es arbitrary: m) (simp_all add: close_conn_def)

text \<open>Taking a set of flows out of the table and closing their sockets keeps the invariant.\<close>

lemma udp_inv_evict:
  assumes "udp_inv m" "\<And>fl. fl \<in> set es \<Longrightarrow> \<exists>k. fmlookup (um_flows m) k = Some fl"
    "closed' \<longrightarrow> fmfilter (\<lambda>k. k \<notin> fl_key ` set es) (um_flows m) = fmempty"
  shows "udp_inv (m\<lparr>um_closed := closed', um_flows := fmfilter (\<lambda>k. k \<notin> fl_key ` set es) (um_flows m),
    um_closes := um_closes m @ map fl_conn es\<rparr>)" (is "udp_inv ?m")
proof -
  have in_es: "fmlookup (um_flows m) (fl_key fl) = Some fl \<and> (fl_key fl, fl_conn fl) \<in> set (um_opened m)" if "fl \<in> set es" for fl
    using assms(2) [OF that] udp_invD(1,4) [OF assms(1)] by auto
  have keep: "fl_conn fl \<notin> fl_conn ` set es"
    if "fmlookup (um_flows m) k = Some fl" "k \<notin> fl_key ` set es" for k fl
  proof
    assume "fl_conn fl \<in> fl_conn ` set es"
    then obtain g where g: "g \<in> set es" "fl_conn g = fl_conn fl" by auto
    with in_es [OF g(1)] that(1) assms(1) have "fl_key g = k"
      using opened_unique [OF assms(1), of "fl_key g" "fl_conn g" k] udp_invD(4) [OF assms(1) that(1)] by simp
    with g(1) that(2) show False by blast
  qed
  show ?thesis
  proof (rule udp_invI)
    have "fcard (fmdom (fmfilter (\<lambda>k. k \<notin> fl_key ` set es) (um_flows m))) \<le> fcard (fmdom (um_flows m))"
      by (rule fcard_mono) auto
    then show "int (fcard (fmdom (um_flows ?m))) \<le> defaultUDPProxyMaxFlows" using udp_inv_basic(1) [OF assms(1)] by simp
  next
    fix k fl assume "fmlookup (um_flows ?m) k = Some fl"
    then have k: "fmlookup (um_flows m) k = Some fl" "k \<notin> fl_key ` set es" by (auto split: if_splits)
    from udp_inv_basic(5) [OF assms(1) k(1)] keep [OF k] show "wf_flow ?m k fl" by (simp add: wf_flow_def)
  next
    show "set (um_closes ?m) \<subseteq> snd ` set (um_opened ?m)"
      using udp_inv_basic(3) [OF assms(1)] in_es by (force simp: image_iff)
  next
    fix k c assume "(k, c) \<in> set (um_opened ?m)"
    then have "c \<in> set (um_closes m) \<or> (\<exists>fl. fmlookup (um_flows m) k = Some fl \<and> fl_conn fl = c)"
      using udp_inv_opened [OF assms(1)] by simp
    then show "c \<in> set (um_closes ?m) \<or> (\<exists>fl. fmlookup (um_flows ?m) k = Some fl \<and> fl_conn fl = c)"
    proof (elim disjE exE conjE)
      fix fl assume f: "fmlookup (um_flows m) k = Some fl" "fl_conn fl = c"
      show ?thesis
      proof (cases "k \<in> fl_key ` set es")
        case True
        with in_es f have "fl \<in> set es" by fastforce
        with f(2) show ?thesis by auto
      qed (use f in auto)
    qed simp
  qed (use assms(3) udp_inv_basic(2) [OF assms(1)] in auto)
qed

lemma udp_inv_cleanup: "udp_inv m \<Longrightarrow> udp_inv (cleanup_tick now m)"
proof -
  assume i: "udp_inv m"
  let ?es = "filter (idle_flow now) (flow_list (um_flows m))"
  have "cleanup_tick now m = m\<lparr>um_closed := um_closed m, um_flows := fmfilter (\<lambda>k. k \<notin> fl_key ` set ?es) (um_flows m),
      um_closes := um_closes m @ map fl_conn ?es\<rparr>"
    by (simp add: cleanup_tick_def Let_def close_fold drop_fold)
  moreover have "um_closed m \<longrightarrow> fmfilter (\<lambda>k. k \<notin> fl_key ` set ?es) (um_flows m) = fmempty"
  proof
    assume "um_closed m"
    then have "um_flows m = fmempty" using i unfolding udp_inv_def by blast
    then show "fmfilter (\<lambda>k. k \<notin> fl_key ` set ?es) (um_flows m) = fmempty"
      using fmfilter_empty by metis
  qed
  ultimately show ?thesis using udp_inv_evict [OF i, of ?es "um_closed m"] by (auto simp: set_flow_list)
qed

lemma close_manager_open:
  assumes "udp_inv m" "\<not> um_closed m"
  shows "close_manager m = m\<lparr>um_closed := True, um_flows := fmempty, um_closes := um_closes m @ map fl_conn (flow_list (um_flows m))\<rparr>"
    "fmfilter (\<lambda>k. k \<notin> fl_key ` set (flow_list (um_flows m))) (um_flows m) = fmempty"
proof -
  have "k \<in> fl_key ` set (flow_list (um_flows m))" if "fmlookup (um_flows m) k = Some fl" for k fl
    by (rule image_eqI [of _ _ fl]) (use udp_invD(1) [OF assms(1) that] that set_flow_list in auto)
  then show f: "fmfilter (\<lambda>k. k \<notin> fl_key ` set (flow_list (um_flows m))) (um_flows m) = fmempty"
  proof (intro fmap_ext)
    fix x
    assume h: "\<And>k fl. fmlookup (um_flows m) k = Some fl \<Longrightarrow> k \<in> fl_key ` set (flow_list (um_flows m))"
    show "fmlookup (fmfilter (\<lambda>k. k \<notin> fl_key ` set (flow_list (um_flows m))) (um_flows m)) x = fmlookup fmempty x"
      using h [of x] by (cases "fmlookup (um_flows m) x") simp_all
  qed
  show "close_manager m = m\<lparr>um_closed := True, um_flows := fmempty, um_closes := um_closes m @ map fl_conn (flow_list (um_flows m))\<rparr>"
    using assms(2) f by (simp add: close_manager_def Let_def close_fold drop_fold)
qed

lemma udp_inv_close: "udp_inv m \<Longrightarrow> udp_inv (close_manager m)"
proof (cases "um_closed m")
  case True
  then show "udp_inv m \<Longrightarrow> ?thesis" by (simp add: close_manager_def)
next
  case False
  assume i: "udp_inv m"
  note c = close_manager_open [OF i False]
  show ?thesis
    using udp_inv_evict [OF i, of "flow_list (um_flows m)" True] by (auto simp: c set_flow_list)
qed

lemma udp_inv_remove:
  assumes "udp_inv m" "(key, conn) \<in> set (um_opened m)"
  shows "udp_inv (remove_flow key conn m)"
proof (cases "\<exists>fl. fmlookup (um_flows m) key = Some fl \<and> fl_conn fl = conn")
  case True
  then obtain fl where fl: "fmlookup (um_flows m) key = Some fl" "fl_conn fl = conn" by blast
  have k: "fl_key fl = key" by (rule udp_invD(1) [OF assms(1) fl(1)])
  have "remove_flow key conn m = m\<lparr>um_closed := um_closed m, um_flows := fmfilter (\<lambda>k. k \<notin> fl_key ` set [fl]) (um_flows m),
      um_closes := um_closes m @ map fl_conn [fl]\<rparr>"
    using fl k by (simp add: remove_flow_def close_conn_def fmfilter_alt_defs)
  moreover have "um_closed m \<longrightarrow> fmfilter (\<lambda>k. k \<notin> fl_key ` set [fl]) (um_flows m) = fmempty"
    using udp_invD(6) [OF assms(1) fl(1)] by simp
  ultimately show ?thesis using udp_inv_evict [OF assms(1), of "[fl]" "um_closed m"] fl(1) by auto
next
  case False
  then have r: "remove_flow key conn m = close_conn conn m"
    by (auto simp: remove_flow_def split: option.splits)
  have c: "conn \<in> set (um_closes m)" using False assms unfolding udp_inv_def by blast
  then have "set (um_closes m @ [conn]) = set (um_closes m)" by auto
  then show ?thesis using assms(1) unfolding r close_conn_def udp_inv_def wf_flow_def by simp
qed

text \<open>Refreshing a flow in place.\<close>

lemma udp_inv_refresh:
  assumes "udp_inv m" "fmlookup (um_flows m) k = Some fl" "fl_key fl' = fl_key fl" "fl_conn fl' = fl_conn fl"
    "RelayURL (fl_frame fl') = RelayURL (fl_frame fl)" "FlowID (fl_frame fl') = FlowID (fl_frame fl)"
  shows "udp_inv (m\<lparr>um_flows := fmupd k fl' (um_flows m)\<rparr>)"
proof (rule udp_invI)
  have "finsert k (fmdom (um_flows m)) = fmdom (um_flows m)" using assms(2) by (auto dest: fmdomI)
  then show "int (fcard (fmdom (um_flows (m\<lparr>um_flows := fmupd k fl' (um_flows m)\<rparr>)))) \<le> defaultUDPProxyMaxFlows"
    using udp_inv_basic(1) [OF assms(1)] by simp
next
  fix k' g assume "fmlookup (um_flows (m\<lparr>um_flows := fmupd k fl' (um_flows m)\<rparr>)) k' = Some g"
  then show "wf_flow (m\<lparr>um_flows := fmupd k fl' (um_flows m)\<rparr>) k' g"
    using udp_inv_basic(5) [OF assms(1)] assms(2-6) by (cases "k' = k") (auto simp: wf_flow_def)
next
  fix k' c assume "(k', c) \<in> set (um_opened (m\<lparr>um_flows := fmupd k fl' (um_flows m)\<rparr>))"
  then show "c \<in> set (um_closes (m\<lparr>um_flows := fmupd k fl' (um_flows m)\<rparr>)) \<or>
      (\<exists>g. fmlookup (um_flows (m\<lparr>um_flows := fmupd k fl' (um_flows m)\<rparr>)) k' = Some g \<and> fl_conn g = c)"
    using udp_inv_opened [OF assms(1), of k' c] assms(2,4) by (cases "k' = k") auto
qed (use udp_inv_basic(2,3) [OF assms(1)] udp_invD(6) [OF assms(1,2)] in auto)

lemma udp_inv_new:
  assumes "udp_inv m" "\<not> um_closed m" "fmlookup (um_flows m) k = None" "int (fcard (fmdom (um_flows m))) < defaultUDPProxyMaxFlows"
    "conn \<notin> snd ` set (um_opened m)" "fl_key fl = k" "fl_conn fl = conn" "RelayURL (fl_frame fl) = fk_relayURL k" "FlowID (fl_frame fl) = fk_flowID k"
  shows "udp_inv (m\<lparr>um_flows := fmupd k fl (um_flows m), um_opened := um_opened m @ [(k, conn)]\<rparr>)" (is "udp_inv ?m")
proof (rule udp_invI)
  have "k |\<notin>| fmdom (um_flows m)" using assms(3) by (simp add: fmdom_iff)
  then have "fcard (finsert k (fmdom (um_flows m))) = Suc (fcard (fmdom (um_flows m)))"
    by (rule fcard_finsert_disjoint)
  then show "int (fcard (fmdom (um_flows ?m))) \<le> defaultUDPProxyMaxFlows" using assms(4) by simp
next
  have n: "conn \<notin> set (um_closes m)" using udp_inv_basic(3) [OF assms(1)] assms(5) by blast
  fix k' g assume "fmlookup (um_flows ?m) k' = Some g"
  then show "wf_flow ?m k' g"
    using udp_inv_basic(5) [OF assms(1), of k' g] assms(6-9) n by (cases "k' = k") (auto simp: wf_flow_def)
next
  fix k' c assume "(k', c) \<in> set (um_opened ?m)"
  then consider "(k', c) \<in> set (um_opened m)" | "k' = k" "c = conn" by auto
  then show "c \<in> set (um_closes ?m) \<or> (\<exists>g. fmlookup (um_flows ?m) k' = Some g \<and> fl_conn g = c)"
  proof cases
    case 1
    then show ?thesis using udp_inv_opened [OF assms(1) 1] assms(3) by (cases "k' = k") auto
  qed (use assms(7) in simp)
qed (use udp_inv_basic(2,3) [OF assms(1)] assms(2,5) in auto)

lemma udp_inv_forward_locked:
  assumes "udp_inv m" "forward_locked now dial frame m = (m', r)" "\<And>c. dial = Inr c \<Longrightarrow> c \<notin> snd ` set (um_opened m)"
  shows "udp_inv m'"
proof (cases "fmlookup (um_flows m) (FlowKey (RelayURL frame) (FlowID frame))")
  case None
  with assms show ?thesis
    by (auto simp: forward_locked_def Let_def intro!: udp_inv_new split: if_splits sum.splits)
next
  case (Some fl)
  with assms(1,2) udp_inv_refresh [OF assms(1) Some] show ?thesis
    by (auto simp: forward_locked_def Let_def split: if_splits)
qed

lemma udp_inv_response:
  assumes "udp_inv m" "response_locked now key conn bytes m = (m', r)"
  shows "udp_inv m'"
  using assms by (auto simp: response_locked_def intro!: udp_inv_refresh split: if_splits option.splits)

interpretation udp: invariant "(=) new_manager" udp_step udp_inv
proof
  fix m assume "new_manager = m"
  then show "udp_inv m" by (auto simp: udp_inv_def new_manager_def defaultUDPProxyMaxFlows_def fcard_fempty)
next
  fix m m' assume "udp_inv m" "udp_step m m'"
  from this(2,1) show "udp_inv m'"
  proof (induction rule: udp_step.induct)
    case (forwarded dial m now frame m' r)
    then show ?case using udp_inv_forward_locked by blast
  next
    case (written key conn m bytes)
    then show ?case by (simp add: udp_inv_def wf_flow_def)
  next
    case (responded key conn m now bytes m' r)
    then show ?case using udp_inv_response by blast
  qed (simp_all add: udp_inv_remove udp_inv_cleanup udp_inv_close)
qed

section \<open>Properties\<close>

text \<open>C33. Under any interleaving of the accept loop, the readers and the cleanup loop, the table never
  exceeds its capacity, every socket that was opened is either closed or belongs to the flow it was opened
  for, and once the manager is closed all of them are closed.\<close>

theorem udp_sockets_accounted:
  assumes "reachable ((=) new_manager) udp_step m"
  shows "int (fcard (fmdom (um_flows m))) \<le> defaultUDPProxyMaxFlows \<and>
    (\<forall>k c. (k, c) \<in> set (um_opened m) \<longrightarrow> (c \<in> set (um_closes m)) \<noteq> (\<exists>fl. fmlookup (um_flows m) k = Some fl \<and> fl_conn fl = c)) \<and>
    (um_closed m \<longrightarrow> set (um_closes m) = snd ` set (um_opened m))"
proof -
  have i: "udp_inv m" by (rule udp.reachable_inv [OF assms])
  have n: "fl_conn fl \<notin> set (um_closes m)" if "fmlookup (um_flows m) k = Some fl" for k fl
    by (rule udp_invD(5) [OF i that])
  have "set (um_closes m) = snd ` set (um_opened m)" if c: "um_closed m"
  proof
    show "set (um_closes m) \<subseteq> snd ` set (um_opened m)" by (rule udp_inv_basic(3) [OF i])
    show "snd ` set (um_opened m) \<subseteq> set (um_closes m)"
      using udp_inv_opened [OF i] udp_inv_basic(4) [OF i c] by fastforce
  qed
  then show ?thesis using udp_inv_basic(1) [OF i] udp_inv_opened [OF i] n by blast
qed

text \<open>A response travels back on the flow whose socket received it: the frame that a reader sends
  carries the relay and the flow that the socket was opened for, and the bytes that were read.\<close>

theorem response_keeps_flow:
  assumes "reachable ((=) new_manager) udp_step m" "response_locked now key conn bytes m = (m', Some frame)"
  shows "RelayURL frame = fk_relayURL key \<and> FlowID frame = fk_flowID key \<and> Payload frame = bytes \<and>
    (key, conn) \<in> set (um_opened m) \<and> conn \<notin> set (um_closes m)"
proof -
  have i: "udp_inv m" by (rule udp.reachable_inv [OF assms(1)])
  from assms(2) obtain fl where fl: "fmlookup (um_flows m) key = Some fl" "fl_conn fl = conn" "frame = (fl_frame fl)\<lparr>Payload := bytes\<rparr>"
    by (auto simp: response_locked_def split: if_splits option.splits)
  with udp_invD [OF i fl(1)] show ?thesis by auto
qed

text \<open>A cleanup tick evicts exactly the flows that have been idle for the timeout and closes exactly
  their sockets.\<close>

theorem cleanup_tick_exact:
  assumes "reachable ((=) new_manager) udp_step m"
  shows "(\<forall>k fl. fmlookup (um_flows (cleanup_tick now m)) k = Some fl \<longleftrightarrow> fmlookup (um_flows m) k = Some fl \<and> \<not> idle_flow now fl) \<and>
    set (um_closes (cleanup_tick now m)) = set (um_closes m) \<union> {fl_conn fl |k fl. fmlookup (um_flows m) k = Some fl \<and> idle_flow now fl}"
proof -
  have i: "udp_inv m" by (rule udp.reachable_inv [OF assms])
  let ?es = "filter (idle_flow now) (flow_list (um_flows m))"
  have e: "cleanup_tick now m = m\<lparr>um_flows := fmfilter (\<lambda>k. k \<notin> fl_key ` set ?es) (um_flows m), um_closes := um_closes m @ map fl_conn ?es\<rparr>"
    by (simp add: cleanup_tick_def Let_def close_fold drop_fold)
  have k: "k \<in> fl_key ` set ?es \<longleftrightarrow> idle_flow now fl" if "fmlookup (um_flows m) k = Some fl" for k fl
    using udp_invD(1) [OF i] that by (fastforce simp: set_flow_list image_iff)
  have "fmlookup (fmfilter (\<lambda>k. k \<notin> fl_key ` set ?es) (um_flows m)) k = Some fl \<longleftrightarrow> fmlookup (um_flows m) k = Some fl \<and> \<not> idle_flow now fl" for k fl
    using k [of k fl] by (auto simp only: fmlookup_filter split: if_splits)
  moreover have "set (map fl_conn ?es) = {fl_conn fl |k fl. fmlookup (um_flows m) k = Some fl \<and> idle_flow now fl}"
    by (auto simp: set_flow_list)
  ultimately show ?thesis unfolding e by simp
qed

text \<open>\<open>runUDPProxy\<close> returns only an error and leaves its manager closed once it has started.\<close>

lemma udp_loop_closes: "udp_loop ctxErr accepts m = Some (m', err) \<Longrightarrow> um_closed m'"
  by (induction ctxErr accepts m rule: udp_loop.induct)
    (auto simp: close_manager_def Let_def close_fold split: if_splits)

text \<open>A datagram opens a flow.\<close>

definition sample_frame :: DatagramFrame where
  "sample_frame = \<lparr>FlowID = 7, Payload = [1], RelayURL = ''r'', UDPAddr = ''u''\<rparr>"

definition sample_manager :: udpProxyFlowManager where
  "sample_manager = fst (forward_locked 0 (Inr 3) sample_frame new_manager)"

lemma sample_manager_fields:
  "um_flows sample_manager = fmupd (FlowKey ''r'' 7) \<lparr>fl_key = FlowKey ''r'' 7, fl_conn = 3, fl_frame = sample_frame\<lparr>Payload := []\<rparr>, fl_lastSeen = 0\<rparr> fmempty"
  "um_opened sample_manager = [(FlowKey ''r'' 7, 3)]" "\<not> um_closed sample_manager" "um_closes sample_manager = []"
  by (simp_all add: sample_manager_def forward_locked_def Let_def new_manager_def sample_frame_def defaultUDPProxyMaxFlows_def fcard_fempty)

lemma sample_manager_reachable: "reachable ((=) new_manager) udp_step sample_manager"
proof -
  have "udp_step new_manager sample_manager"
    by (rule forwarded [of "Inr 3" new_manager 0 sample_frame sample_manager "snd (forward_locked 0 (Inr 3) sample_frame new_manager)"])
      (simp_all add: sample_manager_def new_manager_def)
  then show ?thesis
    using reach_step [of "(=) new_manager" udp_step new_manager] reach_init [of "(=) new_manager" new_manager udp_step] by simp
qed

theorem udp_sockets_accounted_witness:
  "((3 :: nat) \<in> set (um_closes sample_manager)) \<noteq> (\<exists>fl. fmlookup (um_flows sample_manager) (FlowKey ''r'' 7) = Some fl \<and> fl_conn fl = 3)"
  using udp_sockets_accounted [OF sample_manager_reachable] by (simp add: sample_manager_fields)

theorem response_keeps_flow_witness:
  "\<exists>m' frame. response_locked 1 (FlowKey ''r'' 7) 3 [9] sample_manager = (m', Some frame) \<and> FlowID frame = 7 \<and> Payload frame = [9]"
proof -
  have "\<exists>m' frame. response_locked 1 (FlowKey ''r'' 7) 3 [9] sample_manager = (m', Some frame)"
    by (simp add: response_locked_def sample_manager_fields)
  then show ?thesis using response_keeps_flow [OF sample_manager_reachable] by fastforce
qed

theorem cleanup_tick_exact_witness:
  "fmlookup (um_flows (cleanup_tick (10 * minute) sample_manager)) (FlowKey ''r'' 7) = None"
proof -
  have "idle_flow (10 * minute) \<lparr>fl_key = FlowKey ''r'' 7, fl_conn = 3, fl_frame = sample_frame\<lparr>Payload := []\<rparr>, fl_lastSeen = 0\<rparr>"
    by (simp add: idle_flow_def defaultUDPFlowIdleTimeout_def)
  then show ?thesis
    using cleanup_tick_exact [OF sample_manager_reachable, of "10 * minute"]
    by (cases "fmlookup (um_flows (cleanup_tick (10 * minute) sample_manager)) (FlowKey ''r'' 7)")
      (auto simp: sample_manager_fields)
qed

end
