(* ===== verification/Proxy.thy ===== *)
theory Proxy
  imports UdpProxy
begin

text \<open>
  The proxy (\<open>src/proxy.go\<close>): pairs of a relayed and a local connection, the TCP loop, and the driver
  that runs the TCP and UDP loops together.

  Connections are numbers; the outcomes of dialling, copying and half-closing are arguments.
  \<open>pp_closes\<close> is the history of the closes on a pair. The step relation interleaves the goroutine of a
  connection with the closes that shutdown and the two copy directions may cause at any time. \<open>close_pair\<close>
  is one step with the two \<open>Close\<close> calls that the code makes after the mutex is released, so that a pair
  which is marked but whose connections are not yet closed is not seen.

  The lemmas show that each connection of a pair is closed exactly once, and which error the proxy
  returns.
\<close>

section \<open>Pairs\<close>

definition proxyBufferSize :: nat where "proxyBufferSize = 32768"

record proxyPair =
  pp_relay :: "nat option"
  pp_local :: "nat option"
  pp_closed :: bool
  pp_closes :: "nat list"

definition newProxyPair :: "nat \<Rightarrow> proxyPair" where
  "newProxyPair relay = \<lparr>pp_relay = Some relay, pp_local = None, pp_closed = False, pp_closes = []\<rparr>"

definition setLocal :: "nat \<Rightarrow> proxyPair \<Rightarrow> proxyPair \<times> bool" where
  "setLocal loc p =
     (if pp_closed p then (p\<lparr>pp_closes := pp_closes p @ [loc]\<rparr>, False)
      else (p\<lparr>pp_local := Some loc\<rparr>, True))"

definition connections :: "proxyPair \<Rightarrow> nat option \<times> nat option" where
  "connections p = (pp_relay p, pp_local p)"

definition opt_list :: "'a option \<Rightarrow> 'a list" where
  "opt_list x = (case x of None \<Rightarrow> [] | Some y \<Rightarrow> [y])"

definition close_pair :: "proxyPair \<Rightarrow> proxyPair" where
  "close_pair p =
     (if pp_closed p then p
      else p\<lparr>pp_closed := True, pp_closes := pp_closes p @ opt_list (pp_relay p) @ opt_list (pp_local p)\<rparr>)"

text \<open>The active pairs: the set of the pairs' addresses, over the store of all pairs.\<close>

record activeProxyPairs =
  ap_store :: "(nat, proxyPair) fmap"
  ap_pairs :: "nat fset"

definition add_pair :: "nat \<Rightarrow> activeProxyPairs \<Rightarrow> activeProxyPairs" where
  "add_pair i a = a\<lparr>ap_pairs := finsert i (ap_pairs a)\<rparr>"

definition remove_pair :: "nat \<Rightarrow> activeProxyPairs \<Rightarrow> activeProxyPairs" where
  "remove_pair i a = a\<lparr>ap_pairs := ap_pairs a - {|i|}\<rparr>"

definition close_at :: "nat \<Rightarrow> activeProxyPairs \<Rightarrow> activeProxyPairs" where
  "close_at i a =
     (case fmlookup (ap_store a) i of
        None \<Rightarrow> a
      | Some p \<Rightarrow> a\<lparr>ap_store := fmupd i (close_pair p) (ap_store a)\<rparr>)"

definition closeAll :: "activeProxyPairs \<Rightarrow> activeProxyPairs" where
  "closeAll a = fold close_at (sorted_list_of_fset (ap_pairs a)) a"

section \<open>One connection\<close>

text \<open>\<open>halfCloseWrite\<close>: a connection without \<open>CloseWrite\<close> has nothing to do.\<close>

definition halfCloseWrite :: "go_error option option \<Rightarrow> go_error option" where
  "halfCloseWrite closeWriter = (case closeWriter of Some outcome \<Rightarrow> outcome | None \<Rightarrow> None)"

text \<open>The goroutine of one copy direction, after \<open>copyWithPooledBuffer\<close> returned \<open>copyErr\<close>.\<close>

definition copy_ended :: "go_error option \<Rightarrow> go_error option option \<Rightarrow> proxyPair \<Rightarrow> proxyPair" where
  "copy_ended copyErr closeWriter p =
     (case copyErr of
        Some _ \<Rightarrow> close_pair p
      | None \<Rightarrow> (case halfCloseWrite closeWriter of Some _ \<Rightarrow> close_pair p | None \<Rightarrow> p))"

text \<open>\<open>proxyConnection\<close> up to the start of the copies: \<open>True\<close> when they run.\<close>

definition proxyConnection_start :: "(go_error + nat) \<Rightarrow> proxyPair \<Rightarrow> proxyPair \<times> bool" where
  "proxyConnection_start dial p =
     (case dial of
        Inl _ \<Rightarrow> (close_pair p, False)
      | Inr loc \<Rightarrow>
          (case setLocal loc p of
             (p', False) \<Rightarrow> (close_pair p', False)
           | (p', True) \<Rightarrow>
               (case connections p' of
                  (Some _, Some _) \<Rightarrow> (p', True)
                | _ \<Rightarrow> (close_pair p', False))))"

datatype phase = Dialing | Copying nat | Finished

text \<open>The goroutine of a connection together with closes from outside. \<open>Copying n\<close> waits for \<open>n\<close> copy
  directions. The third component records the local connection that was dialled.\<close>

inductive pair_step :: "phase \<times> proxyPair \<times> nat option \<Rightarrow> phase \<times> proxyPair \<times> nat option \<Rightarrow> bool" where
  dial_failed: "proxyConnection_start (Inl err) p = (p', r) \<Longrightarrow> pair_step (Dialing, p, d) (Finished, p', d)"
| dialled: "Some loc \<noteq> pp_relay p \<Longrightarrow> proxyConnection_start (Inr loc) p = (p', r) \<Longrightarrow>
    pair_step (Dialing, p, d) ((if r then Copying 2 else Finished), p', Some loc)"
| copied: "pair_step (Copying (Suc (Suc n)), p, d) (Copying (Suc n), copy_ended copyErr closeWriter p, d)"
| copied_last: "pair_step (Copying 1, p, d) (Finished, close_pair (copy_ended copyErr closeWriter p), d)"
| closed_outside: "pair_step (ph, p, d) (ph, close_pair p, d)"

inductive_cases pair_finishedE: "pair_step (Finished, p, d) x"

definition pair_init :: "nat \<Rightarrow> phase \<times> proxyPair \<times> nat option \<Rightarrow> bool" where
  "pair_init relay = (=) (Dialing, newProxyPair relay, None)"

section \<open>The TCP loop\<close>

text \<open>\<open>runTCPProxy\<close>: \<open>accepts\<close> is what successive calls of \<open>Accept\<close> return; \<open>None\<close> is a loop that is
  still running. The result is the pairs in the state before the final wait, and the error.\<close>

fun tcp_loop :: "(go_error + nat) list \<Rightarrow> nat \<Rightarrow> activeProxyPairs \<Rightarrow> (activeProxyPairs \<times> go_error) option" where
  "tcp_loop [] i a = None"
| "tcp_loop (Inl err # rest) i a = Some (closeAll a, err)"
| "tcp_loop (Inr conn # rest) i a =
     tcp_loop rest (Suc i) (add_pair i (a\<lparr>ap_store := fmupd i (newProxyPair conn) (ap_store a)\<rparr>))"

definition runTCPProxy :: "go_error option \<Rightarrow> (go_error + nat) list \<Rightarrow> (activeProxyPairs \<times> go_error) option" where
  "runTCPProxy ctxErr accepts =
     map_option (\<lambda>(a, err). (a, case ctxErr of Some c \<Rightarrow> c | None \<Rightarrow> err))
       (tcp_loop accepts 0 \<lparr>ap_store = fmempty, ap_pairs = {||}\<rparr>)"

section \<open>The driver\<close>

record ProxyConfig =
  pc_TCPTarget :: string
  pc_UDPTarget :: string

text \<open>\<open>errors.Join\<close> drops nil errors.\<close>

definition join_errors :: "go_error option list \<Rightarrow> go_error option" where
  "join_errors es = errors_Join (concat (map opt_list es))"

definition normalizeProxyTarget :: "string \<Rightarrow> go_error + string" where
  "normalizeProxyTarget t =
     (if t = [] then Inr []
      else (case NormalizeTarget t of Inl e \<Rightarrow> Inl (NormError e) | Inr n \<Rightarrow> Inr n))"

definition normalizeProxyConfig :: "ProxyConfig \<Rightarrow> go_error + ProxyConfig" where
  "normalizeProxyConfig config =
     (case normalizeProxyTarget (pc_TCPTarget config) of
        Inl e \<Rightarrow> Inl e
      | Inr t \<Rightarrow>
          (case normalizeProxyTarget (pc_UDPTarget config) of
             Inl e \<Rightarrow> Inl e
           | Inr u \<Rightarrow>
               if t = [] \<and> u = [] then Inl (ErrorText ''portalite: at least one proxy target is required'')
               else Inr \<lparr>pc_TCPTarget = t, pc_UDPTarget = u\<rparr>))"

definition proxyWorkerCount :: "ProxyConfig \<Rightarrow> nat" where
  "proxyWorkerCount config = (if pc_TCPTarget config \<noteq> [] then 1 else 0) + (if pc_UDPTarget config \<noteq> [] then 1 else 0)"

definition benign :: "go_error \<Rightarrow> bool" where
  "benign e \<longleftrightarrow> errors_Is e ContextCanceled \<or> errors_Is e NetErrClosed"

text \<open>The loop over the remaining workers.\<close>

fun proxy_primary :: "go_error option \<Rightarrow> go_error option list \<Rightarrow> go_error option" where
  "proxy_primary primary [] = primary"
| "proxy_primary primary (workerErr # rest) =
     proxy_primary
       (case workerErr of
          Some e \<Rightarrow> if primary = None \<and> \<not> benign e then Some e else primary
        | None \<Rightarrow> primary) rest"

definition proxy_verdict :: "bool \<Rightarrow> go_error option \<Rightarrow> go_error option \<Rightarrow> go_error option" where
  "proxy_verdict ctxDone primary closeErr =
     (if ctxDone then None
      else (case primary of
          Some p \<Rightarrow>
            if errors_Is p ErrNoRelays then join_errors [Some ErrNoRelays, closeErr]
            else if \<not> benign p then join_errors [Some p, closeErr]
            else (case closeErr of Some c \<Rightarrow> Some (Wrapped ''close exposure'' c) | None \<Rightarrow> primary)
        | None \<Rightarrow> (case closeErr of Some c \<Rightarrow> Some (Wrapped ''close exposure'' c) | None \<Rightarrow> None)))"

text \<open>\<open>ProxyWithConfig\<close>: \<open>first\<close> is the first worker's result if it came before the cancellation,
  \<open>rest\<close> the results that arrive afterwards, \<open>ctxDone\<close> whether the caller's context has ended when all
  have arrived, and \<open>closeErr\<close> the result of closing the exposure, which every path does.\<close>

definition ProxyWithConfig :: "bool \<Rightarrow> bool \<Rightarrow> ProxyConfig \<Rightarrow> go_error option option \<Rightarrow> go_error option list \<Rightarrow> bool \<Rightarrow>
    go_error option \<Rightarrow> go_error option" where
  "ProxyWithConfig exposure_nil ctx_nil config first rest ctxDone closeErr =
     (if exposure_nil then Some (ErrorText ''portalite: exposure is nil'')
      else if ctx_nil then join_errors [Some (ErrorText ''portalite: context is nil''), closeErr]
      else (case normalizeProxyConfig config of
          Inl e \<Rightarrow> join_errors [Some e, closeErr]
        | Inr config \<Rightarrow>
            (let primary = (case first of Some r \<Rightarrow> r | None \<Rightarrow> None);
                 received = (case first of Some _ \<Rightarrow> 1 | None \<Rightarrow> 0);
                 primary = proxy_primary primary (take (proxyWorkerCount config - received) rest)
             in proxy_verdict ctxDone primary closeErr)))"

definition Proxy_TCP :: "string \<Rightarrow> ProxyConfig" where
  "Proxy_TCP target = \<lparr>pc_TCPTarget = target, pc_UDPTarget = []\<rparr>"

definition Proxy_UDP :: "string \<Rightarrow> ProxyConfig" where
  "Proxy_UDP target = \<lparr>pc_TCPTarget = [], pc_UDPTarget = target\<rparr>"

section \<open>Properties\<close>

text \<open>What a pair has closed: nothing while it is open; afterwards its relay and its local connection,
  once each.\<close>

definition pair_inv :: "nat \<Rightarrow> phase \<times> proxyPair \<times> nat option \<Rightarrow> bool" where
  "pair_inv relay = (\<lambda>(ph, p, d).
     pp_relay p = Some relay \<and> d \<noteq> Some relay \<and>
     (if pp_closed p then pp_closes p = relay # opt_list d else pp_closes p = [] \<and> pp_local p = d) \<and>
     (ph = Dialing \<longrightarrow> d = None \<and> pp_local p = None) \<and> (ph = Finished \<longrightarrow> pp_closed p))"

lemma close_pair_facts: "pp_closed (close_pair p)" "pp_relay (close_pair p) = pp_relay p"
  "pp_closed p \<Longrightarrow> close_pair p = p" "pp_local (close_pair p) = pp_local p"
  by (simp_all add: close_pair_def)

lemma copy_ended_cases: "copy_ended copyErr closeWriter p = p \<or> copy_ended copyErr closeWriter p = close_pair p"
  by (simp add: copy_ended_def split: option.split)

lemma pair_inv_close: "pair_inv relay (ph, p, d) \<Longrightarrow> pair_inv relay (ph, close_pair p, d)"
  by (auto simp: pair_inv_def close_pair_def opt_list_def)

lemma pair_inv_phase: "pair_inv relay (ph, p, d) \<Longrightarrow> ph \<noteq> Dialing \<Longrightarrow> ph' \<noteq> Dialing \<Longrightarrow> ph' \<noteq> Finished \<or> pp_closed p \<Longrightarrow>
   pair_inv relay (ph', p, d)"
  by (auto simp: pair_inv_def)

lemma pair_inv_copy_ended: "pair_inv relay (ph, p, d) \<Longrightarrow> pair_inv relay (ph, copy_ended copyErr closeWriter p, d)"
  using copy_ended_cases [of copyErr closeWriter p] pair_inv_close by auto

lemma pair_inv_start:
  assumes "pair_inv relay (Dialing, p, d)" "proxyConnection_start (Inr loc) p = (p', r)" "Some loc \<noteq> pp_relay p"
  shows "pair_inv relay ((if r then Copying 2 else Finished), p', Some loc)"
  using assms
  by (auto simp: pair_inv_def proxyConnection_start_def setLocal_def connections_def close_pair_def opt_list_def
      split: if_splits)

interpretation pair: invariant "pair_init relay" pair_step "pair_inv relay" for relay
proof
  fix s assume "pair_init relay s"
  then show "pair_inv relay s" by (auto simp: pair_init_def pair_inv_def newProxyPair_def)
next
  fix s t assume "pair_inv relay s" "pair_step s t"
  from this(2,1) show "pair_inv relay t"
  proof (induction rule: pair_step.induct)
    case (dial_failed err p p' r d)
    then have "p' = close_pair p" by (simp add: proxyConnection_start_def)
    with pair_inv_close [OF dial_failed(2)] show ?case by (auto simp: pair_inv_def close_pair_facts)
  next
    case (dialled loc p p' r d)
    then show ?case by (intro pair_inv_start)
  next
    case (copied n p d copyErr closeWriter)
    then show ?case by (intro pair_inv_phase [OF pair_inv_copy_ended]) auto
  next
    case (copied_last p d copyErr closeWriter)
    then show ?case
      by (intro pair_inv_phase [OF pair_inv_close [OF pair_inv_copy_ended]]) (auto simp: close_pair_facts)
  qed (rule pair_inv_close)
qed

lemma finished_final: "pair_inv relay (Finished, p, d) \<Longrightarrow> pair_step (Finished, p, d) x \<Longrightarrow> x = (Finished, p, d)"
  by (erule pair_finishedE) (simp add: pair_inv_def close_pair_facts)

text \<open>C34. However the two copy directions, the dial and the shutdown interleave, when the goroutine of a
  proxied connection has finished, the relayed connection has been closed exactly once, and so has the
  local one if it was dialled; a later close changes nothing.\<close>

theorem pair_closed_once:
  assumes "reachable (pair_init relay) pair_step (Finished, p, d)"
  shows "pp_closed p \<and> count_list (pp_closes p) relay = 1 \<and> (\<forall>loc. d = Some loc \<longrightarrow> count_list (pp_closes p) loc = 1) \<and>
    length (pp_closes p) = (case d of None \<Rightarrow> 1 | Some _ \<Rightarrow> 2) \<and>
    (\<forall>x. pair_step (Finished, p, d) x \<longrightarrow> x = (Finished, p, d))"
  using pair.reachable_inv [OF assms] finished_final [OF pair.reachable_inv [OF assms]]
  by (auto simp: pair_inv_def opt_list_def split: option.splits if_splits)

theorem pair_closed_once_witness:
  "\<exists>p. reachable (pair_init 1) pair_step (Finished, p, None) \<and> count_list (pp_closes p) (1 :: nat) = 1"
proof -
  have "pair_step (Dialing, newProxyPair 1, None) (Finished, close_pair (newProxyPair 1), None)"
    by (rule dial_failed [of EOF _ _ False]) (simp add: proxyConnection_start_def)
  then have "reachable (pair_init 1) pair_step (Finished, close_pair (newProxyPair 1), None)"
    using reach_step [of "pair_init 1" pair_step] reach_init [of "pair_init 1" "(Dialing, newProxyPair 1, None)" pair_step]
    by (simp add: pair_init_def)
  from pair_closed_once [OF this] this show ?thesis by blast
qed

lemma errors_Is_self: "errors_Is e e"
  by (cases e) (simp_all add: errors_Is_def)

lemma errors_Is_joined: "e \<in> set es \<Longrightarrow> errors_Is e c \<Longrightarrow> errors_Is (Joined es) c"
  by (auto simp: errors_Is_def)

lemma errors_Is_wrapped: "errors_Is e c \<Longrightarrow> errors_Is (Wrapped s e) c"
  by (simp add: errors_Is_def)

lemma join_errors_pair:
  "join_errors [Some a, None] = Some (Joined [a])" "join_errors [Some a, Some b] = Some (Joined [a, b])"
  by (simp_all add: join_errors_def errors_Join_def opt_list_def)

text \<open>The primary error: the first result if there was one before the cancellation, and otherwise the first
  worker error that is neither a cancellation nor the closed listener.\<close>

lemma proxy_primary_first:
  "proxy_primary p rs = (case p of Some e \<Rightarrow> Some e
     | None \<Rightarrow> find_map (\<lambda>r. case r of Some e \<Rightarrow> if benign e then None else Some e | None \<Rightarrow> None) rs)"
  by (induction p rs rule: proxy_primary.induct) (auto split: option.splits)

text \<open>What the proxy returns when its targets are valid. Nothing after a cancellation; otherwise
  \<open>ErrNoRelays\<close> exactly when it is the primary error, a failure of closing the exposure is never lost, and
  nil only if neither a worker nor closing failed.\<close>

theorem proxy_verdict_spec:
  "(ctxDone \<longrightarrow> proxy_verdict ctxDone primary closeErr = None) \<and>
   (\<not> ctxDone \<longrightarrow>
     (proxy_verdict ctxDone primary closeErr = None \<longleftrightarrow> primary = None \<and> closeErr = None) \<and>
     (\<forall>c. closeErr = Some c \<longrightarrow> (\<exists>r. proxy_verdict ctxDone primary closeErr = Some r \<and> errors_Is r c)) \<and>
     (\<forall>p. primary = Some p \<longrightarrow> errors_Is p ErrNoRelays \<longrightarrow>
        (\<exists>r. proxy_verdict ctxDone primary closeErr = Some r \<and> errors_Is r ErrNoRelays)) \<and>
     (\<forall>p. primary = Some p \<longrightarrow> \<not> benign p \<longrightarrow> \<not> errors_Is p ErrNoRelays \<longrightarrow>
        (\<exists>r. proxy_verdict ctxDone primary closeErr = Some r \<and> errors_Is r p)))"
proof (cases ctxDone)
  case False
  have "errors_Is r c" if "r \<in> {Joined [x, c], Wrapped s c}" for r x c s
    using that by (auto intro: errors_Is_joined errors_Is_wrapped errors_Is_self)
  with False show ?thesis
    by (cases primary; cases closeErr)
      (auto simp: proxy_verdict_def join_errors_pair intro: errors_Is_joined errors_Is_wrapped errors_Is_self)
qed (simp add: proxy_verdict_def)

theorem proxy_verdict_spec_witness:
  "\<exists>r. proxy_verdict False (Some ErrNoRelays) (Some EOF) = Some r \<and> errors_Is r ErrNoRelays"
  using proxy_verdict_spec [of False "Some ErrNoRelays" "Some EOF"] errors_Is_self [of ErrNoRelays] by blast

text \<open>Shutting the TCP loop down closes every pair that it created.\<close>

lemma close_at_lookup:
  "fmlookup (ap_store (close_at i a)) j = (if i = j then map_option close_pair (fmlookup (ap_store a) j) else fmlookup (ap_store a) j)"
  by (auto simp: close_at_def split: option.split)

lemma close_fold_lookup:
  "fmlookup (ap_store (fold close_at is a)) j =
     (if j \<in> set is then map_option close_pair (fmlookup (ap_store a) j) else fmlookup (ap_store a) j)"
  by (induction "is" arbitrary: a)
    (auto simp: close_at_lookup option.map_comp comp_def close_pair_facts)

lemma closeAll_lookup:
  "fmlookup (ap_store (closeAll a)) j =
     (if j |\<in>| ap_pairs a then map_option close_pair (fmlookup (ap_store a) j) else fmlookup (ap_store a) j)"
  by (simp add: closeAll_def close_fold_lookup)

lemma tcp_loop_closes:
  "tcp_loop accepts i a = Some (a', err) \<Longrightarrow> fmdom (ap_store a) |\<subseteq>| ap_pairs a \<Longrightarrow>
   fmlookup (ap_store a') j = Some p \<Longrightarrow> pp_closed p"
  by (induction accepts i a rule: tcp_loop.induct)
    (auto simp: closeAll_lookup add_pair_def close_pair_facts fmdom_iff dest: fmdomI split: if_splits, blast dest: fmdomI)

text \<open>When the TCP loop stops accepting, every connection it ever took over is closed.\<close>

theorem runTCPProxy_closes_all:
  assumes "runTCPProxy ctxErr accepts = Some (a, err)" "fmlookup (ap_store a) j = Some p"
  shows "pp_closed p"
  using assms tcp_loop_closes [of accepts 0 "\<lparr>ap_store = fmempty, ap_pairs = {||}\<rparr>"] by (auto simp: runTCPProxy_def)

theorem runTCPProxy_closes_all_witness:
  "\<exists>a err p. runTCPProxy None [Inr 5, Inl NetErrClosed] = Some (a, err) \<and> fmlookup (ap_store a) 0 = Some p \<and> pp_closed p"
proof -
  obtain a err where a: "runTCPProxy None [Inr 5, Inl NetErrClosed] = Some (a, err)"
    by (auto simp: runTCPProxy_def)
  then have "fmlookup (ap_store a) 0 \<noteq> None"
    by (auto simp: runTCPProxy_def closeAll_lookup add_pair_def)
  with runTCPProxy_closes_all [OF a] a show ?thesis by blast
qed

end
