(* ===== verification/Cli.thy ===== *)
theory Cli
  imports GoFlag IdentityCreation Proxy
begin

text \<open>
  The command line tool (\<open>src/cmd/portalite/main.go\<close>): its arguments, the identity it runs with, the
  exposure it starts, what it prints and its exit status.

  A run goes through the checks of the arguments (\<open>expose_plan\<close>), the identity and the exposure. What
  the session does (the notifications it receives and the outcome of the proxy) and when the context is
  cancelled are arguments: the model says what a run prints and returns once the proxy has returned and the
  updates are closed, and not that they do; \<open>updates.Wait\<close> and the blocking calls of the proxy are left
  out. The output is a list of texts; the message of an error is kept as the error.
\<close>

section \<open>Output\<close>

datatype out_text = Text string | ErrText go_error

definition newline :: out_text where
  "newline = Text [CHR 0x0A]"

definition usageLine :: string where
  "usageLine = ''Usage: portalite expose [--relay HTTPS_URL]... [--identity FILE] [--name LABEL] [--ephemeral] '' @
     ''[--no-discovery] [--udp-target TARGET] [TARGET]'' @ [CHR 0x0A]"

definition writeUsage :: "out_text list" where
  "writeUsage = [Text usageLine]"

record cli_result =
  cr_code :: nat
  cr_stdout :: "out_text list"
  cr_stderr :: "out_text list"

definition usageError :: "out_text \<Rightarrow> cli_result" where
  "usageError message = \<lparr>cr_code = 2, cr_stdout = [], cr_stderr = [Text ''portalite: '', message, newline] @ writeUsage\<rparr>"

definition failure :: "go_error \<Rightarrow> cli_result" where
  "failure err = \<lparr>cr_code = 1, cr_stdout = [], cr_stderr = [Text ''portalite: '', ErrText err, newline]\<rparr>"

definition silent :: "nat \<Rightarrow> cli_result" where
  "silent c = \<lparr>cr_code = c, cr_stdout = [], cr_stderr = []\<rparr>"

text \<open>\<open>writeRelayStatus\<close>: the output on stdout and on stderr; a nil error prints as \<open><nil>\<close>.\<close>

definition writeRelayStatus :: "RelayStatus \<Rightarrow> out_text list \<times> out_text list" where
  "writeRelayStatus status =
     (case rs_State status of
        RelayReady \<Rightarrow> ([Text (''URL '' @ rs_PublicURL status), newline], [])
      | RelayUDPReady \<Rightarrow> ([Text (''UDP '' @ rs_UDPAddr status), newline], [])
      | RelayFailed \<Rightarrow>
          ([], [Text (''portalite: relay '' @ rs_RelayURL status @ '': ''),
                (case rs_Err status of Some e \<Rightarrow> ErrText e | None \<Rightarrow> Text ''<nil>''), newline])
      | RelayConnecting \<Rightarrow> ([], []))"

section \<open>Arguments\<close>

definition relayFlags_String :: "string list \<Rightarrow> string" where
  "relayFlags_String r = join_with '','' r"

definition relayFlags_Set :: "string \<Rightarrow> string list \<Rightarrow> string list" where
  "relayFlags_Set value r = r @ [value]"

record cliOptions =
  co_relayValues :: "string list"
  co_identityPath :: string
  co_name :: string
  co_udpTarget :: string
  co_ephemeral :: bool
  co_noDiscovery :: bool
  co_identityFlagSet :: bool

definition default_options :: cliOptions where
  "default_options = \<lparr>co_relayValues = [], co_identityPath = ''identity.json'', co_name = [], co_udpTarget = [],
     co_ephemeral = False, co_noDiscovery = False, co_identityFlagSet = False\<rparr>"

definition expose_flags :: flag_set where
  "expose_flags = map_of [(''relay'', ValueFlag), (''identity'', ValueFlag), (''name'', ValueFlag),
     (''ephemeral'', BoolFlag), (''no-discovery'', BoolFlag), (''udp-target'', ValueFlag)]"

fun set_option :: "string \<times> string \<Rightarrow> cliOptions \<Rightarrow> cliOptions" where
  "set_option (name, value) o' =
    (if name = ''relay'' then o'\<lparr>co_relayValues := relayFlags_Set value (co_relayValues o')\<rparr>
     else if name = ''identity'' then o'\<lparr>co_identityPath := value, co_identityFlagSet := True\<rparr>
     else if name = ''name'' then o'\<lparr>co_name := value\<rparr>
     else if name = ''ephemeral'' then o'\<lparr>co_ephemeral := (value = ''true'')\<rparr>
     else if name = ''no-discovery'' then o'\<lparr>co_noDiscovery := (value = ''true'')\<rparr>
     else if name = ''udp-target'' then o'\<lparr>co_udpTarget := value\<rparr>
     else o')"

definition parse_options :: "string list \<Rightarrow> go_error + cliOptions \<times> string list" where
  "parse_options args =
     (case flag_Parse expose_flags args of
        Inl err \<Rightarrow> Inl err
      | Inr (as, rest) \<Rightarrow> Inr (fold set_option as default_options, rest))"

definition selectRelays_cli :: "string list \<Rightarrow> norm_error + string list" where
  "selectRelays_cli explicit = NormalizeRelays (if explicit = [] then DefaultRelays else explicit)"

text \<open>What the checks of the arguments produce.\<close>

record expose_plan =
  pl_options :: cliOptions
  pl_target :: string
  pl_udpTarget :: string
  pl_relays :: "string list"

definition optional_target :: "string \<Rightarrow> norm_error + string" where
  "optional_target t = (if t = [] then Inr [] else NormalizeTarget t)"

definition check_options :: "cliOptions \<Rightarrow> string list \<Rightarrow> cli_result + expose_plan" where
  "check_options opts rest =
     (if length rest > 1 then Inl (usageError (Text ''expected at most one TCP TARGET''))
      else
        (case (case rest of [] \<Rightarrow> Inr [] | arg # _ \<Rightarrow> NormalizeTarget arg) of
           Inl err \<Rightarrow> Inl (usageError (ErrText (NormError err)))
         | Inr target \<Rightarrow>
             (case optional_target (co_udpTarget opts) of
                Inl err \<Rightarrow> Inl (usageError (ErrText (NormError err)))
              | Inr udpTarget \<Rightarrow>
                  if target = [] \<and> udpTarget = [] then Inl (usageError (Text ''missing TCP TARGET or --udp-target''))
                  else
                    (case selectRelays_cli (co_relayValues opts) of
                       Inl err \<Rightarrow> Inl (usageError (ErrText (NormError err)))
                     | Inr relays \<Rightarrow>
                         if co_ephemeral opts \<and> co_identityFlagSet opts
                         then Inl (usageError (Text ''--identity cannot be combined with --ephemeral''))
                         else Inr \<lparr>pl_options = opts, pl_target = target, pl_udpTarget = udpTarget, pl_relays = relays\<rparr>))))"

definition expose_arguments :: "string list \<Rightarrow> cli_result + expose_plan" where
  "expose_arguments args =
     (case args of
        [] \<Rightarrow> Inl (usageError (Text ''missing command''))
      | command # rest \<Rightarrow>
          if rest = [] \<and> (command = ''--help'' \<or> command = ''-h'')
          then Inl \<lparr>cr_code = 0, cr_stdout = writeUsage, cr_stderr = []\<rparr>
          else if command \<noteq> ''expose'' then Inl (usageError (Text (''unknown command '' @ go_quote command)))
          else
            (case parse_options rest of
               Inl err \<Rightarrow>
                 if errors_Is err ErrHelp then Inl \<lparr>cr_code = 0, cr_stdout = writeUsage, cr_stderr = []\<rparr>
                 else Inl (usageError (ErrText err))
             | Inr (opts, left) \<Rightarrow> check_options opts left))"

section \<open>The run\<close>

text \<open>The environment of a run: what \<open>ctx.Err\<close> returns before the exposure is started, when \<open>Expose\<close>
  looks at it, after \<open>Expose\<close> has failed, when the proxy ends and at the end; the notifications of the session; the results of the proxy's workers; and
  the error of closing the exposure.\<close>

record session =
  se_ctxBefore :: "go_error option"
  se_ctxExpose :: "go_error option"
  se_ctxFailed :: "go_error option"
  se_ctxProxy :: bool
  se_ctxEnd :: "go_error option"
  se_updates :: "RelayStatus list"
  se_first :: "go_error option option"
  se_rest :: "go_error option list"
  se_closeErr :: "go_error option"

definition cli_config :: "expose_plan \<Rightarrow> 'k Identity \<Rightarrow> 'k ExposeConfig" where
  "cli_config plan i = \<lparr>ec_Relays = pl_relays plan, ec_Identity = i, ec_UDPEnabled = (pl_udpTarget plan \<noteq> []),
     ec_DisableDiscovery = co_noDiscovery (pl_options plan), ec_MaxActiveRelays = 0\<rparr>"

definition plan_proxy :: "expose_plan \<Rightarrow> ProxyConfig" where
  "plan_proxy plan = \<lparr>pc_TCPTarget = pl_target plan, pc_UDPTarget = pl_udpTarget plan\<rparr>"

text \<open>The end of a run, after the proxy has returned \<open>err\<close>.\<close>

definition run_verdict :: "go_error option \<Rightarrow> go_error option \<Rightarrow> cli_result" where
  "run_verdict ctxErr err =
     (if ctxErr \<noteq> None then silent 0
      else (case err of
          None \<Rightarrow> silent 0
        | Some e \<Rightarrow> if errors_Is e ErrNoRelays then silent 1 else failure e))"

definition with_updates :: "RelayStatus list \<Rightarrow> cli_result \<Rightarrow> cli_result" where
  "with_updates updates r =
     r\<lparr>cr_stdout := concat (map (\<lambda>st. fst (writeRelayStatus st)) updates) @ cr_stdout r,
       cr_stderr := concat (map (\<lambda>st. snd (writeRelayStatus st)) updates) @ cr_stderr r\<rparr>"

definition serve :: "expose_plan \<Rightarrow> session \<Rightarrow> cli_result" where
  "serve plan se = with_updates (se_updates se) (run_verdict (se_ctxEnd se)
     (ProxyWithConfig False False (plan_proxy plan) (se_first se) (se_rest se) (se_ctxProxy se) (se_closeErr se)))"

text \<open>From the identity on, for a session that ends with the given results; \<open>None\<close> is a panic of
  \<open>Expose\<close>.\<close>

definition run_exposure :: "expose_plan \<Rightarrow> session \<Rightarrow> 'k Identity \<Rightarrow> cli_result option" where
  "run_exposure plan se i =
     (if se_ctxBefore se \<noteq> None then Some (silent 0)
      else
        (case (Expose (Some (se_ctxExpose se)) (cli_config plan i) :: (go_error + ('k, unit) Exposure) option) of
           None \<Rightarrow> None
         | Some (Inl err) \<Rightarrow>
             Some (if se_ctxFailed se \<noteq> None then silent 0
                   else if errors_Is err ErrNoRelays then silent 1
                   else failure err)
         | Some (Inr exposure) \<Rightarrow> Some (serve plan se)))"

fun as_identity_usage :: "go_error \<Rightarrow> go_error option" where
  "as_identity_usage (IdentityUsageError e) = Some e"
| "as_identity_usage _ = None"

definition identity_failure :: "go_error \<Rightarrow> cli_result" where
  "identity_failure err =
     (if errors_As as_identity_usage err \<noteq> None
      then usageError (ErrText err) else failure err)"

text \<open>The loader of the identity is an argument, as in the source; \<open>None\<close> also when it does not return.\<close>

definition select_identity :: "'k identity_lib \<Rightarrow> go_error + byte list \<Rightarrow>
    (string \<Rightarrow> string \<Rightarrow> os_state \<Rightarrow> ((go_error + 'k Identity) \<times> os_state) option) \<Rightarrow>
    (string \<Rightarrow> go_error + 'k Identity) \<Rightarrow> cliOptions \<Rightarrow> os_state \<Rightarrow> ((go_error + 'k Identity) \<times> os_state) option" where
  "select_identity L random loadIdentity generateIdentity opts s =
     (if co_ephemeral opts then Some (loadEphemeralIdentity L random (co_name opts) generateIdentity, s)
      else loadIdentity (co_identityPath opts) (co_name opts) s)"

definition runWithIdentityModes :: "'k identity_lib \<Rightarrow> go_error + byte list \<Rightarrow>
    (string \<Rightarrow> string \<Rightarrow> os_state \<Rightarrow> ((go_error + 'k Identity) \<times> os_state) option) \<Rightarrow>
    (string \<Rightarrow> go_error + 'k Identity) \<Rightarrow> session \<Rightarrow> string list \<Rightarrow> os_state \<Rightarrow>
    (cli_result \<times> os_state) option" where
  "runWithIdentityModes L random loadIdentity generateIdentity se args s =
     (case expose_arguments args of
        Inl r \<Rightarrow> Some (r, s)
      | Inr plan \<Rightarrow>
          (case select_identity L random loadIdentity generateIdentity (pl_options plan) s of
             None \<Rightarrow> None
           | Some (Inl err, s) \<Rightarrow> Some (identity_failure err, s)
           | Some (Inr i, s) \<Rightarrow> map_option (\<lambda>r. (r, s)) (run_exposure plan se i)))"

definition runWithIdentityLoader :: "'k identity_lib \<Rightarrow> go_error + byte list \<Rightarrow> go_error + 'k \<Rightarrow>
    (string \<Rightarrow> string \<Rightarrow> os_state \<Rightarrow> ((go_error + 'k Identity) \<times> os_state) option) \<Rightarrow> session \<Rightarrow> string list \<Rightarrow> os_state \<Rightarrow>
    (cli_result \<times> os_state) option" where
  "runWithIdentityLoader L random generated loadIdentity se =
     runWithIdentityModes L random loadIdentity (GenerateIdentity (il_crypto L) generated) se"

definition run_cli :: "'k identity_lib \<Rightarrow> os_env \<Rightarrow> go_error + byte list \<Rightarrow> go_error + 'k \<Rightarrow> session \<Rightarrow>
    string list \<Rightarrow> os_state \<Rightarrow> (cli_result \<times> os_state) option" where
  "run_cli L env random generated se =
     runWithIdentityModes L random (loadOrCreateIdentity L env random generated)
       (GenerateIdentity (il_crypto L) generated) se"

section \<open>Arguments round trip\<close>

text \<open>The arguments for given options: every value in the argument of its flag, and the end of the flags.\<close>

definition flag_arg :: "string \<Rightarrow> string \<Rightarrow> string" where
  "flag_arg name value = ''--'' @ name @ CHR ''='' # value"

definition switch_arg :: "string \<Rightarrow> string" where
  "switch_arg name = ''--'' @ name"

definition render_options :: "cliOptions \<Rightarrow> string list" where
  "render_options opts =
     map (flag_arg ''relay'') (co_relayValues opts) @
     (if co_identityFlagSet opts then [flag_arg ''identity'' (co_identityPath opts)] else []) @
     [flag_arg ''name'' (co_name opts), flag_arg ''udp-target'' (co_udpTarget opts)] @
     (if co_ephemeral opts then [switch_arg ''ephemeral''] else []) @
     (if co_noDiscovery opts then [switch_arg ''no-discovery''] else []) @ [''--'']"

lemma expose_flag_names:
  "good_flag_name ''relay''" "good_flag_name ''identity''" "good_flag_name ''name''" "good_flag_name ''udp-target''"
  "good_flag_name ''ephemeral''" "good_flag_name ''no-discovery''"
  by (simp_all add: good_flag_name_def)

lemma expose_flag_kinds:
  "expose_flags ''relay'' = Some ValueFlag" "expose_flags ''identity'' = Some ValueFlag" "expose_flags ''name'' = Some ValueFlag"
  "expose_flags ''udp-target'' = Some ValueFlag" "expose_flags ''ephemeral'' = Some BoolFlag" "expose_flags ''no-discovery'' = Some BoolFlag"
  by (simp_all add: expose_flags_def)

lemmas parse_flag =
  Parse_assigned(1) [where formal = expose_flags, OF expose_flag_names(1) expose_flag_kinds(1), folded flag_arg_def]
  Parse_assigned(1) [where formal = expose_flags, OF expose_flag_names(2) expose_flag_kinds(2), folded flag_arg_def]
  Parse_assigned(1) [where formal = expose_flags, OF expose_flag_names(3) expose_flag_kinds(3), folded flag_arg_def]
  Parse_assigned(1) [where formal = expose_flags, OF expose_flag_names(4) expose_flag_kinds(4), folded flag_arg_def]
  Parse_switch [where formal = expose_flags, OF expose_flag_names(5) expose_flag_kinds(5), folded switch_arg_def]
  Parse_switch [where formal = expose_flags, OF expose_flag_names(6) expose_flag_kinds(6), folded switch_arg_def]
  Parse_end [of expose_flags]

lemma parse_relays:
  "flag_Parse expose_flags (map (flag_arg ''relay'') rs @ rest) =
    map_sum id (apfst ((@) (map (Pair ''relay'') rs))) (flag_Parse expose_flags rest)"
proof (induction rs)
  case Nil
  show ?case by (cases "flag_Parse expose_flags rest") auto
next
  case (Cons r rs)
  have "flag_Parse expose_flags (flag_arg ''relay'' r # map (flag_arg ''relay'') rs @ rest) =
    map_sum id (apfst (Cons (''relay'', r))) (flag_Parse expose_flags (map (flag_arg ''relay'') rs @ rest))"
    by (rule parse_flag(1))
  with Cons show ?case by (cases "flag_Parse expose_flags rest") auto
qed

lemma set_relays: "fold set_option (map (Pair ''relay'') rs) o' = o'\<lparr>co_relayValues := co_relayValues o' @ rs\<rparr>"
  by (induction rs arbitrary: o') (simp_all add: relayFlags_Set_def)

lemma options_roundtrip:
  assumes "co_identityFlagSet opts \<or> co_identityPath opts = ''identity.json''"
  shows "parse_options (render_options opts @ rest) = Inr (opts, rest)"
proof -
  have "flag_Parse expose_flags (render_options opts @ rest) = Inr
    (map (Pair ''relay'') (co_relayValues opts) @
     (if co_identityFlagSet opts then [(''identity'', co_identityPath opts)] else []) @
     [(''name'', co_name opts), (''udp-target'', co_udpTarget opts)] @
     (if co_ephemeral opts then [(''ephemeral'', ''true'')] else []) @
     (if co_noDiscovery opts then [(''no-discovery'', ''true'')] else []), rest)"
    unfolding render_options_def append_assoc parse_relays by (simp add: parse_flag)
  then show ?thesis using assms
    by (cases opts) (auto simp: parse_options_def set_relays default_options_def)
qed

text \<open>Every combination of options can be given on the command line: the options are read back from
  their arguments whatever the values contain, and the arguments after the end of the flags are kept.\<close>

theorem cli_options_roundtrip:
  assumes "co_identityFlagSet opts \<or> co_identityPath opts = ''identity.json''"
  shows "parse_options (render_options opts @ rest) = Inr (opts, rest)"
  using assms by (rule options_roundtrip)

theorem cli_options_roundtrip_witness:
  "parse_options (render_options \<lparr>co_relayValues = [''https://a=b'', ''--x''], co_identityPath = ''id'', co_name = [],
      co_udpTarget = ''53'', co_ephemeral = False, co_noDiscovery = True, co_identityFlagSet = True\<rparr> @ [''-3000'']) =
    Inr (\<lparr>co_relayValues = [''https://a=b'', ''--x''], co_identityPath = ''id'', co_name = [],
      co_udpTarget = ''53'', co_ephemeral = False, co_noDiscovery = True, co_identityFlagSet = True\<rparr>, [''-3000''])"
  by (rule cli_options_roundtrip) simp

section \<open>From the arguments to the exposure\<close>

lemma Parse_length: "flag_Parse formal args = Inr (as, rest) \<Longrightarrow> length as + length rest \<le> length args"
proof (induction formal args arbitrary: as rest rule: flag_Parse.induct)
  case (1 formal args)
  show ?case
  proof (cases "parse_one formal args")
    case (Stop r)
    with 1(2) have "as = []" "rest = r" by (simp_all add: flag_Parse.simps [of formal args])
    with Stop show ?thesis
      by (auto simp: parse_one_def set_value_def Let_def split: list.splits if_splits option.splits flag_kind.splits)
  next
    case (Fail e)
    with 1(2) show ?thesis by (simp add: flag_Parse.simps [of formal args])
  next
    case (Assign n v r)
    with 1(2) obtain bs where "flag_Parse formal r = Inr (bs, rest)" "as = (n, v) # bs"
      by (auto simp: flag_Parse.simps [of formal args] split: sum.splits)
    with 1(1) [OF Assign] parse_one_shorter [OF Assign] show ?thesis by fastforce
  qed
qed

lemma options_relays: "length (co_relayValues (fold set_option as o')) \<le> length as + length (co_relayValues o')"
proof (induction as arbitrary: o')
  case (Cons a as)
  have "length (co_relayValues (set_option a o')) \<le> Suc (length (co_relayValues o'))"
    by (cases a) (simp add: relayFlags_Set_def)
  with Cons [of "set_option a o'"] show ?case by simp
qed simp

lemma NormalizeRelays_length: "NormalizeRelays inputs = Inr rs \<Longrightarrow> length rs \<le> length inputs"
proof -
  assume "NormalizeRelays inputs = Inr rs"
  then obtain cs where "map normalizeRelay inputs = map Inr cs" "rs = rev (remdups (rev cs))"
    unfolding NormalizeRelays_Inr_iff by blast
  then show ?thesis using length_remdups_leq [of "rev cs"] map_eq_imp_length_eq by fastforce
qed

lemma plan_facts:
  assumes "expose_arguments args = Inr plan"
  shows "NormalizeRelays (pl_relays plan) = Inr (pl_relays plan)"
    "length (pl_relays plan) \<le> length args + length DefaultRelays"
    "normalizeProxyConfig (plan_proxy plan) = Inr (plan_proxy plan)"
    "\<not> (co_ephemeral (pl_options plan) \<and> co_identityFlagSet (pl_options plan))"
proof -
  from assms obtain more opts left where args: "args = ''expose'' # more" and parsed: "parse_options more = Inr (opts, left)"
    and checked: "check_options opts left = Inr plan"
    by (auto simp: expose_arguments_def split: list.splits if_splits sum.splits)
  from checked have plan: "pl_options plan = opts" "selectRelays_cli (co_relayValues opts) = Inr (pl_relays plan)"
    "\<not> (co_ephemeral opts \<and> co_identityFlagSet opts)" "pl_target plan \<noteq> [] \<or> pl_udpTarget plan \<noteq> []"
    "optional_target (co_udpTarget opts) = Inr (pl_udpTarget plan)"
    "(case left of [] \<Rightarrow> Inr [] | arg # _ \<Rightarrow> NormalizeTarget arg) = Inr (pl_target plan)"
    by (auto simp: check_options_def split: if_splits sum.splits)
  show "NormalizeRelays (pl_relays plan) = Inr (pl_relays plan)"
    using plan(2) relays.norm_fixed unfolding selectRelays_cli_def by blast
  show "\<not> (co_ephemeral (pl_options plan) \<and> co_identityFlagSet (pl_options plan))" using plan by simp
  from parsed obtain as where "flag_Parse expose_flags more = Inr (as, left)" "opts = fold set_option as default_options"
    by (auto simp: parse_options_def split: sum.splits)
  with Parse_length [of expose_flags more as left] options_relays [of as default_options]
  have "length (co_relayValues opts) \<le> length args" by (simp add: args default_options_def)
  with NormalizeRelays_length [OF plan(2) [unfolded selectRelays_cli_def]]
  show "length (pl_relays plan) \<le> length args + length DefaultRelays" by (auto split: if_splits)
  have fixed: "t \<noteq> [] \<longrightarrow> NormalizeTarget t = Inr t" if "t = [] \<or> (\<exists>x. NormalizeTarget x = Inr t)" for t
    using that target.norm_fixed by blast
  have "pl_target plan \<noteq> [] \<longrightarrow> NormalizeTarget (pl_target plan) = Inr (pl_target plan)"
    using plan(6) by (intro fixed) (auto split: list.splits)
  moreover have "pl_udpTarget plan \<noteq> [] \<longrightarrow> NormalizeTarget (pl_udpTarget plan) = Inr (pl_udpTarget plan)"
    using plan(5) by (intro fixed) (auto simp: optional_target_def split: if_splits)
  ultimately show "normalizeProxyConfig (plan_proxy plan) = Inr (plan_proxy plan)"
    using plan(4) by (auto simp: normalizeProxyConfig_def plan_proxy_def normalizeProxyTarget_def)
qed

text \<open>A configuration with canonical relays and a well-formed identity starts an exposure.\<close>

lemma config_exposed:
  fixes cfg :: "'k ExposeConfig"
  assumes "NormalizeRelays (ec_Relays cfg) = Inr (ec_Relays cfg)" "length (ec_Relays cfg) \<le> n + length DefaultRelays" "n < 2 ^ 32"
    "ec_MaxActiveRelays cfg = 0" "crypto_laws c" "wf_identity c (ec_Identity cfg)"
  shows "\<exists>e :: ('k, 'p) Exposure. Expose (Some None) cfg = Some (Inr e) \<and> ex_started e = ec_Relays cfg \<and>
    (\<forall>u. fmlookup (ex_statuses e) u = (if u \<in> set (ec_Relays cfg) then Some (connecting u) else None)) \<and>
    ex_discoveryEnabled e = (\<not> ec_DisableDiscovery cfg) \<and> \<not> exposure_closed e \<and> \<not> ex_panicked e"
proof -
  have "int (length (ec_Relays cfg)) + max_discovered (ec_MaxActiveRelays cfg) < 2 ^ 33"
    using assms(2-4) by (simp add: max_discovered_def defaultMaxActiveRelays_def DefaultRelays_eq defaultRelays_def)
  with exposed [of cfg "ec_Relays cfg" defaultRelayTimings, where ?'p = 'p] wf_identity_initialised [OF assms(5,6)] assms(1)
  show ?thesis unfolding Expose_def by blast
qed

lemma plan_exposed:
  fixes i :: "'k Identity"
  assumes "expose_arguments args = Inr plan" "crypto_laws c" "wf_identity c i" "length args < 2 ^ 32"
  shows "\<exists>e :: ('k, 'p) Exposure. Expose (Some None) (cli_config plan i) = Some (Inr e) \<and> ex_started e = pl_relays plan \<and>
    (\<forall>u. fmlookup (ex_statuses e) u = (if u \<in> set (pl_relays plan) then Some (connecting u) else None)) \<and>
    ex_discoveryEnabled e = (\<not> co_noDiscovery (pl_options plan)) \<and> \<not> exposure_closed e \<and> \<not> ex_panicked e"
  using config_exposed [of "cli_config plan i" "length args" c, where ?'p = 'p] plan_facts(1,2) [OF assms(1)] assms(2-4)
  by (simp add: cli_config_def)

text \<open>C27. Arguments that pass the checks start an exposure: with any well-formed identity and a live
  context \<open>Expose\<close> neither fails nor panics on the configuration, every selected relay is connecting and its
  supervisor started once in the order of the arguments, discovery runs unless it was switched off, and the
  proxy accepts the targets as they are.\<close>

theorem cli_exposes:
  fixes i :: "'k Identity"
  assumes "expose_arguments args = Inr plan" "crypto_laws c" "wf_identity c i" "length args < 2 ^ 32"
  shows "(\<exists>e :: ('k, 'p) Exposure. Expose (Some None) (cli_config plan i) = Some (Inr e) \<and> ex_started e = pl_relays plan \<and>
      (\<forall>u. fmlookup (ex_statuses e) u = (if u \<in> set (pl_relays plan) then Some (connecting u) else None)) \<and>
      ex_discoveryEnabled e = (\<not> co_noDiscovery (pl_options plan)) \<and> \<not> exposure_closed e \<and> \<not> ex_panicked e) \<and>
    normalizeProxyConfig (plan_proxy plan) = Inr (plan_proxy plan)"
  using plan_exposed [OF assms] plan_facts(3) [OF assms(1)] by blast

text \<open>An ephemeral run touches no file: it leaves the file system as it is, makes no system call, and its
  result does not depend on the loader of identity files.\<close>

theorem ephemeral_touches_no_file:
  assumes "expose_arguments args = Inr plan" "co_ephemeral (pl_options plan)"
  shows "(\<forall>r s'. runWithIdentityModes L random loader generate se args s = Some (r, s') \<longrightarrow> s' = s) \<and>
    runWithIdentityModes L random loader generate se args s = runWithIdentityModes L random loader' generate se args s"
  using assms by (auto simp: runWithIdentityModes_def select_identity_def split: sum.splits)

section \<open>Exit status\<close>

lemma code_cases [simp]:
  "cr_code (silent n) = n" "cr_code (failure e) = 1" "cr_code (usageError m) = 2" "cr_code (with_updates us r) = cr_code r"
  by (simp_all add: silent_def failure_def usageError_def with_updates_def)

lemma failure_no_usage [simp]: "failure e \<noteq> usageError m"
  by (simp add: failure_def usageError_def)

lemma verdict_code: "cr_code (run_verdict ctx err) \<le> 1"
  by (simp add: run_verdict_def split: option.split)

lemma run_exposure_code: "run_exposure plan se i = Some r \<Longrightarrow> cr_code r \<le> 1"
  using verdict_code by (auto simp: run_exposure_def serve_def split: if_splits option.splits sum.splits)

text \<open>The two ways to ask for help.\<close>

definition help_requested :: "string list \<Rightarrow> bool" where
  "help_requested args \<longleftrightarrow> args = [''--help''] \<or> args = [''-h''] \<or>
     (\<exists>rest err. args = ''expose'' # rest \<and> parse_options rest = Inl err \<and> errors_Is err ErrHelp)"

lemma arguments_code:
  assumes "expose_arguments args = Inl r"
  shows "if help_requested args then r = \<lparr>cr_code = 0, cr_stdout = writeUsage, cr_stderr = []\<rparr> else (\<exists>m. r = usageError m)"
  using assms unfolding help_requested_def
  by (auto simp: expose_arguments_def check_options_def split: list.splits if_splits sum.splits)

lemma as_identity_usage_Some: "as_identity_usage e \<noteq> None \<longleftrightarrow> (\<exists>u. e = IdentityUsageError u)"
  by (cases e) simp_all

lemma identity_failure_code: "cr_code (identity_failure e) = (if \<exists>u. IdentityUsageError u \<in> set (err_tree e) then 2 else 1)"
proof -
  have "errors_As as_identity_usage e \<noteq> None \<longleftrightarrow> (\<exists>u. IdentityUsageError u \<in> set (err_tree e))"
    unfolding errors_As_def find_map_None_iff by (auto simp: as_identity_usage_Some simp del: not_None_eq)
  then show ?thesis by (simp add: identity_failure_def)
qed

lemma usage_shape:
  "cr_code (identity_failure e) = 2 \<Longrightarrow> \<exists>m. identity_failure e = usageError m"
  by (auto simp: identity_failure_def split: if_splits)

text \<open>The requested name is refused, or the identity file holds an identity with another name.\<close>

definition wrong_name :: "'k identity_lib \<Rightarrow> os_env \<Rightarrow> cliOptions \<Rightarrow> os_state \<Rightarrow> bool" where
  "wrong_name L env opts s \<longleftrightarrow>
     (case normalizeRequestedIdentityName L (co_name opts) of
        Inl _ \<Rightarrow> True
      | Inr nm \<Rightarrow> \<not> co_ephemeral opts \<and> nm \<noteq> [] \<and>
          (\<exists>c i. fst (ReadFile env (co_identityPath opts) s) = Inr c \<and> parse_identity L c = Inr i \<and> nm \<noteq> id_name i))"

lemma wrong_name_usage:
  assumes "wrong_name L env opts s"
  shows "\<exists>u s'. select_identity L random (loadOrCreateIdentity L env random generated) generate opts s = Some (Inl (IdentityUsageError u), s')"
proof (cases "normalizeRequestedIdentityName L (co_name opts)")
  case (Inl e)
  then show ?thesis
    by (simp add: select_identity_def loadEphemeralIdentity_def loadOrCreateIdentity_def loadOrCreateIdentityWith_def)
next
  case (Inr nm)
  with assms obtain c i s1 where "\<not> co_ephemeral opts" "nm \<noteq> []" "ReadFile env (co_identityPath opts) s = (Inr c, s1)"
    "parse_identity L c = Inr i" "nm \<noteq> id_name i"
    by (auto simp: wrong_name_def) (metis surjective_pairing)
  with Inr show ?thesis
    by (simp add: select_identity_def loadOrCreateIdentity_def loadOrCreateIdentityWith_def checkIdentityName_def)
qed

text \<open>C40. The exit status is 2 exactly in two cases: the arguments are refused for any reason but a request
  for help, or the identity could not be loaded and the error is, or wraps, an identity usage error. The
  latter is so whenever the requested name is refused, and whenever the identity file that was read holds
  an identity with another name. An exit with 2 prints nothing on stdout and the message with the usage
  on stderr, whatever a session would have done, because none is started. Otherwise the status is 0 or 1.\<close>

theorem cli_exit_status:
  assumes "run_cli L env random generated se args s = Some (r, s')"
  shows "cr_code r \<le> 2 \<and>
    (cr_code r = 2 \<longleftrightarrow>
      (\<exists>q. expose_arguments args = Inl q \<and> \<not> help_requested args) \<or>
      (\<exists>plan e u. expose_arguments args = Inr plan \<and> IdentityUsageError u \<in> set (err_tree e) \<and>
        select_identity L random (loadOrCreateIdentity L env random generated) (GenerateIdentity (il_crypto L) generated)
          (pl_options plan) s = Some (Inl e, s'))) \<and>
    (\<forall>plan. expose_arguments args = Inr plan \<longrightarrow> wrong_name L env (pl_options plan) s \<longrightarrow> cr_code r = 2) \<and>
    (cr_code r = 2 \<longrightarrow> cr_stdout r = [] \<and> (\<exists>m. cr_stderr r = [Text ''portalite: '', m, newline] @ writeUsage) \<and>
      (\<forall>se'. run_cli L env random generated se' args s = Some (r, s')))"
proof (cases "expose_arguments args")
  case (Inl q)
  with assms have "r = q" "s' = s" by (simp_all add: run_cli_def runWithIdentityModes_def)
  with arguments_code [OF Inl] Inl show ?thesis
    by (auto simp: run_cli_def runWithIdentityModes_def split: if_splits) (simp_all add: usageError_def)
next
  case (Inr plan)
  note args = Inr
  let ?select = "select_identity L random (loadOrCreateIdentity L env random generated) (GenerateIdentity (il_crypto L) generated)
    (pl_options plan) s"
  have wrong: "wrong_name L env (pl_options plan) s \<Longrightarrow> \<exists>u t. ?select = Some (Inl (IdentityUsageError u), t)"
    by (rule wrong_name_usage)
  from assms args obtain x where l: "?select = Some (x, s')"
    by (auto simp: run_cli_def runWithIdentityModes_def split: option.splits sum.splits)
  show ?thesis
  proof (cases x)
    case (Inl e)
    have run: "run_cli L env random generated se' args s = Some (identity_failure e, s')" for se'
      using args l Inl by (simp add: run_cli_def runWithIdentityModes_def)
    with assms have r: "r = identity_failure e" by simp
    have "cr_stdout r = [] \<and> (\<exists>m. cr_stderr r = [Text ''portalite: '', m, newline] @ writeUsage)" if "cr_code r = 2"
      using usage_shape that unfolding r by (force simp: usageError_def)
    moreover have "wrong_name L env (pl_options plan) s \<Longrightarrow> cr_code r = 2"
      using wrong l Inl unfolding r identity_failure_code by auto
    ultimately show ?thesis using args l Inl run unfolding r by (auto simp: identity_failure_code)
  next
    case (Inr i)
    with assms args l have "run_exposure plan se i = Some r" by (auto simp: run_cli_def runWithIdentityModes_def)
    from run_exposure_code [OF this] wrong args l Inr show ?thesis by auto
  qed
qed

section \<open>Witnesses\<close>

definition sample_options :: cliOptions where
  "sample_options = default_options\<lparr>co_relayValues := [''https://rly.best''], co_ephemeral := True\<rparr>"

definition sample_plan :: expose_plan where
  "sample_plan = \<lparr>pl_options = sample_options, pl_target = ''127.0.0.1:3000'', pl_udpTarget = [], pl_relays = [''https://rly.best'']\<rparr>"

definition sample_args :: "string list" where
  "sample_args = ''expose'' # render_options sample_options @ [''3000'']"

lemma sample_arguments: "expose_arguments sample_args = Inr sample_plan"
proof -
  have "parse_options (render_options sample_options @ [''3000'']) = Inr (sample_options, [''3000''])"
    by (rule options_roundtrip) (simp add: sample_options_def default_options_def)
  moreover have "check_options sample_options [''3000''] = Inr sample_plan"
    by (simp add: check_options_def NormalizeTarget_3000 sample_options_def default_options_def optional_target_def
        selectRelays_cli_def sample_relays sample_plan_def)
  moreover have "render_options sample_options @ [''3000''] \<noteq> []" by simp
  ultimately show ?thesis unfolding expose_arguments_def sample_args_def list.case by simp
qed

lemma sample_args_short: "length sample_args < 2 ^ 32"
  by (simp add: sample_args_def render_options_def sample_options_def default_options_def)

definition sample_session :: session where
  "sample_session = \<lparr>se_ctxBefore = None, se_ctxExpose = None, se_ctxFailed = None, se_ctxProxy = False, se_ctxEnd = None,
     se_updates = [], se_first = Some (Some ErrNoRelays), se_rest = [], se_closeErr = None\<rparr>"

lemma sample_lib_crypto: "crypto_laws (il_crypto sample_lib)"
  using sample_lib_laws by (simp add: lib_laws_def)

theorem cli_exposes_witness:
  "\<exists>e :: (byte list, unit) Exposure. Expose (Some None) (cli_config sample_plan
      (identityFromKey sample_crypto ''app'' (PrivKeyFromBytes sample_crypto (replicate 32 1)))) = Some (Inr e) \<and>
    ex_started e = [''https://rly.best'']"
  using cli_exposes [OF sample_arguments sample_laws sample_wf sample_args_short, where ?'p = unit]
  by (auto simp: sample_plan_def)

theorem ephemeral_touches_no_file_witness:
  "co_ephemeral (pl_options sample_plan) \<and>
   runWithIdentityModes sample_lib sample_random (\<lambda>_ _ _. None) (GenerateIdentity sample_crypto sample_generated) sample_session sample_args sample_state =
   runWithIdentityModes sample_lib sample_random (\<lambda>_ _ s. Some (Inl EOF, s)) (GenerateIdentity sample_crypto sample_generated)
     sample_session sample_args sample_state"
proof -
  have e: "co_ephemeral (pl_options sample_plan)" by (simp add: sample_plan_def sample_options_def)
  from ephemeral_touches_no_file [OF sample_arguments e] e show ?thesis by blast
qed

text \<open>An ephemeral run with a name that is no label.\<close>

definition refused_options :: cliOptions where
  "refused_options = sample_options\<lparr>co_name := ''-''\<rparr>"

lemma refused_arguments:
  "expose_arguments (''expose'' # render_options refused_options @ [''3000'']) = Inr (sample_plan\<lparr>pl_options := refused_options\<rparr>)"
proof -
  have "parse_options (render_options refused_options @ [''3000'']) = Inr (refused_options, [''3000''])"
    by (rule options_roundtrip) (simp add: refused_options_def sample_options_def default_options_def)
  moreover have "check_options refused_options [''3000''] = Inr (sample_plan\<lparr>pl_options := refused_options\<rparr>)"
    by (simp add: check_options_def NormalizeTarget_3000 refused_options_def sample_options_def default_options_def optional_target_def
        selectRelays_cli_def sample_relays sample_plan_def)
  moreover have "render_options refused_options @ [''3000''] \<noteq> []" by simp
  ultimately show ?thesis unfolding expose_arguments_def list.case by simp
qed

theorem cli_exit_status_witness:
  "\<exists>r. run_cli sample_lib sample_os sample_random sample_generated sample_session
      (''expose'' # render_options refused_options @ [''3000'']) sample_state = Some (r, sample_state) \<and> cr_code r = 2"
proof -
  let ?args = "''expose'' # render_options refused_options @ [''3000'']"
  have n: "\<exists>e. normalizeRequestedIdentityName sample_lib ''-'' = Inl e"
  proof -
    have "to_lower (trim_space ''-'') = ''-''" by code_simp
    then show ?thesis
      by (simp add: normalizeRequestedIdentityName_def IdentityFromPrivateKey_def normalizeIdentityName_def)
  qed
  then have w: "wrong_name sample_lib sample_os refused_options sample_state"
    by (auto simp: wrong_name_def refused_options_def)
  have "\<exists>e. select_identity sample_lib sample_random (loadOrCreateIdentity sample_lib sample_os sample_random sample_generated)
      (GenerateIdentity (il_crypto sample_lib) sample_generated) refused_options sample_state = Some (Inl e, sample_state)"
    using n by (auto simp: select_identity_def refused_options_def sample_options_def loadEphemeralIdentity_def)
  then obtain r where run: "run_cli sample_lib sample_os sample_random sample_generated sample_session ?args sample_state = Some (r, sample_state)"
    by (auto simp: run_cli_def runWithIdentityModes_def refused_arguments)
  from cli_exit_status [OF run] refused_arguments w run show ?thesis by auto
qed

end
