(* ===== verification/HttpDemo.thy ===== *)
theory HttpDemo
  imports Cli
begin

text \<open>
  The demonstration server (\<open>src/cmd/http-demo/main.go\<close>): its arguments, the identity it generates, the
  exposure that \<open>http.Server.Serve\<close> accepts from, its output and its exit status. The errors of
  \<open>Serve\<close> and of closing the exposure are arguments.
\<close>

section \<open>Arguments\<close>

definition demo_usageLine :: string where
  "demo_usageLine = ''Usage: portalite-http-demo [--relay HTTPS_URL]... [--name LABEL]'' @ [CHR 0x0A]"

record demoOptions =
  do_relays :: "string list"
  do_name :: string
  do_noDiscovery :: bool

definition demo_flags :: flag_set where
  "demo_flags = map_of [(''relay'', ValueFlag), (''name'', ValueFlag), (''no-discovery'', BoolFlag)]"

fun demo_set_option :: "string \<times> string \<Rightarrow> demoOptions \<Rightarrow> demoOptions" where
  "demo_set_option (name, value) o' =
    (if name = ''relay'' then o'\<lparr>do_relays := relayFlags_Set value (do_relays o')\<rparr>
     else if name = ''name'' then o'\<lparr>do_name := value\<rparr>
     else if name = ''no-discovery'' then o'\<lparr>do_noDiscovery := (value = ''true'')\<rparr>
     else o')"

definition demo_usageError :: "out_text list \<Rightarrow> cli_result" where
  "demo_usageError message =
     \<lparr>cr_code = 2, cr_stdout = [], cr_stderr = [Text ''portalite-http-demo: ''] @ message @ [newline, Text demo_usageLine]\<rparr>"

definition demo_failure :: "nat \<Rightarrow> go_error \<Rightarrow> cli_result" where
  "demo_failure status err = \<lparr>cr_code = status, cr_stdout = [], cr_stderr = [Text ''portalite-http-demo: '', ErrText err, newline]\<rparr>"

definition demo_arguments :: "string list \<Rightarrow> cli_result + demoOptions \<times> string list" where
  "demo_arguments args =
     (case flag_Parse demo_flags args of
        Inl err \<Rightarrow>
          if errors_Is err ErrHelp then Inl \<lparr>cr_code = 0, cr_stdout = [Text demo_usageLine], cr_stderr = []\<rparr>
          else Inl (demo_usageError [ErrText err])
      | Inr (as, rest) \<Rightarrow>
          (let opts = fold demo_set_option as \<lparr>do_relays = [], do_name = [], do_noDiscovery = False\<rparr> in
           case rest of
             arg # _ \<Rightarrow> Inl (demo_usageError [Text (''unexpected argument '' @ go_quote arg)])
           | [] \<Rightarrow>
               (case NormalizeRelays (if do_relays opts = [] then DefaultRelays else do_relays opts) of
                  Inl err \<Rightarrow> Inl (demo_failure 2 (NormError err))
                | Inr normalizedRelays \<Rightarrow> Inr (opts, normalizedRelays))))"

section \<open>Identity and handler\<close>

definition demo_randomIdentityName :: "go_error + byte list \<Rightarrow> go_error + string" where
  "demo_randomIdentityName random =
     (case random of
        Inl err \<Rightarrow> Inl (Wrapped ''generate identity name'' err)
      | Inr suffix' \<Rightarrow> Inr (''http-demo-'' @ hex_encode suffix'))"

definition demo_identity :: "'k crypto \<Rightarrow> go_error + byte list \<Rightarrow> go_error + 'k \<Rightarrow> string \<Rightarrow> cli_result + 'k Identity" where
  "demo_identity c random generated name =
     (case (if name = [] then demo_randomIdentityName random else Inr name) of
        Inl err \<Rightarrow> Inl (demo_failure 1 err)
      | Inr name \<Rightarrow>
          (case GenerateIdentity c generated name of
             Inl err \<Rightarrow> Inl (demo_failure 2 err)
           | Inr i \<Rightarrow> Inr i))"

text \<open>The response of the handler: its header fields and its body.\<close>

definition demoHandler :: "string \<Rightarrow> string \<Rightarrow> string \<Rightarrow> (string \<times> string) list \<times> string" where
  "demoHandler identityName verb path =
     ([(''Content-Type'', ''text/plain; charset=utf-8'')],
      ''portalite virtual HTTP server'' @ [CHR 0x0A] @ ''identity='' @ identityName @ [CHR 0x0A] @
      ''method='' @ verb @ [CHR 0x0A] @ ''path='' @ path @ [CHR 0x0A])"

section \<open>The run\<close>

definition demo_status :: "RelayStatus \<Rightarrow> out_text list \<times> out_text list" where
  "demo_status status =
     (case rs_State status of
        RelayReady \<Rightarrow> ([Text (''URL '' @ rs_PublicURL status), newline], [])
      | RelayFailed \<Rightarrow>
          ([], [Text (''portalite-http-demo: relay '' @ rs_RelayURL status @ '': ''),
                (case rs_Err status of Some e \<Rightarrow> ErrText e | None \<Rightarrow> Text ''<nil>''), newline])
      | _ \<Rightarrow> ([], []))"

record demo_session =
  ds_ctxExpose :: "go_error option"
  ds_ctxEnd :: "go_error option"
  ds_updates :: "RelayStatus list"
  ds_serveErr :: "go_error option"
  ds_closeErr :: "go_error option"

definition demo_config :: "demoOptions \<Rightarrow> string list \<Rightarrow> 'k Identity \<Rightarrow> 'k ExposeConfig" where
  "demo_config opts relays i = \<lparr>ec_Relays = relays, ec_Identity = i, ec_UDPEnabled = False,
     ec_DisableDiscovery = do_noDiscovery opts, ec_MaxActiveRelays = 0\<rparr>"

definition demo_verdict :: "demo_session \<Rightarrow> cli_result" where
  "demo_verdict ds =
     (if ds_ctxEnd ds \<noteq> None then silent 0
      else
        (case ds_serveErr ds of
           Some err \<Rightarrow>
             if errors_Is err ErrNoRelays then silent 1
             else if \<not> errors_Is err NetErrClosed \<and> \<not> errors_Is err ErrServerClosed then demo_failure 1 err
             else (case ds_closeErr ds of Some e \<Rightarrow> demo_failure 1 e | None \<Rightarrow> silent 0)
         | None \<Rightarrow> (case ds_closeErr ds of Some e \<Rightarrow> demo_failure 1 e | None \<Rightarrow> silent 0)))"

definition demo_serve :: "demo_session \<Rightarrow> cli_result" where
  "demo_serve ds =
     (let r = demo_verdict ds in
      r\<lparr>cr_stdout := concat (map (\<lambda>st. fst (demo_status st)) (ds_updates ds)) @ cr_stdout r,
        cr_stderr := concat (map (\<lambda>st. snd (demo_status st)) (ds_updates ds)) @ cr_stderr r\<rparr>)"

text \<open>\<open>None\<close> is a panic of \<open>Expose\<close>.\<close>

definition run_demo :: "'k crypto \<Rightarrow> go_error + byte list \<Rightarrow> go_error + 'k \<Rightarrow> demo_session \<Rightarrow> string list \<Rightarrow> cli_result option" where
  "run_demo c random generated ds args =
     (case demo_arguments args of
        Inl r \<Rightarrow> Some r
      | Inr (opts, relays) \<Rightarrow>
          (case demo_identity c random generated (do_name opts) of
             Inl r \<Rightarrow> Some r
           | Inr i \<Rightarrow>
               (case (Expose (Some (ds_ctxExpose ds)) (demo_config opts relays i) :: (go_error + ('k, unit) Exposure) option) of
                  None \<Rightarrow> None
                | Some (Inl err) \<Rightarrow> Some (demo_failure 1 err)
                | Some (Inr _) \<Rightarrow> Some (demo_serve ds))))"

section \<open>Properties\<close>

lemma demo_options_relays: "length (do_relays (fold demo_set_option as o')) \<le> length as + length (do_relays o')"
proof (induction as arbitrary: o')
  case (Cons a as)
  have "length (do_relays (demo_set_option a o')) \<le> Suc (length (do_relays o'))"
    by (cases a) (simp add: relayFlags_Set_def)
  with Cons [of "demo_set_option a o'"] show ?case by simp
qed simp

lemma demo_arguments_relays:
  assumes "demo_arguments args = Inr (opts, relays)"
  shows "NormalizeRelays relays = Inr relays" "length relays \<le> length args + length DefaultRelays"
proof -
  from assms obtain as where p: "flag_Parse demo_flags args = Inr (as, [])"
    and o: "opts = fold demo_set_option as \<lparr>do_relays = [], do_name = [], do_noDiscovery = False\<rparr>"
    and n: "NormalizeRelays (if do_relays opts = [] then DefaultRelays else do_relays opts) = Inr relays"
    by (auto simp: demo_arguments_def Let_def split: sum.splits list.splits if_splits)
  show "NormalizeRelays relays = Inr relays" using n relays.norm_fixed by blast
  have "length (do_relays opts) \<le> length args"
    using Parse_length [OF p] demo_options_relays [of as "\<lparr>do_relays = [], do_name = [], do_noDiscovery = False\<rparr>"] o by simp
  with NormalizeRelays_length [OF n] show "length relays \<le> length args + length DefaultRelays" by (auto split: if_splits)
qed

lemma demo_identity_wf:
  "valid_key c generated \<Longrightarrow> demo_identity c random generated nm = Inr i \<Longrightarrow> wf_identity c i"
  by (auto simp: demo_identity_def dest: GenerateIdentity_wf split: sum.splits if_splits)

text \<open>A random name never makes the demonstration fail with a usage error.\<close>

lemma demo_random_name:
  assumes "demo_randomIdentityName random = Inr nm" "\<And>bytes. random = Inr bytes \<Longrightarrow> length bytes = 6"
  shows "valid_identity_name nm"
proof -
  from assms obtain bytes where "length bytes = 6" "nm = ''http-demo-'' @ hex_encode bytes"
    by (auto simp: demo_randomIdentityName_def split: sum.splits)
  then show ?thesis
    by (simp only:) (rule random_label_valid, simp_all add: identity_name_char_def char_class_defs)
qed

lemma demo_exposed:
  fixes i :: "'k Identity"
  assumes "demo_arguments args = Inr (opts, relays)" "crypto_laws c" "wf_identity c i" "length args < 2 ^ 32"
  shows "\<exists>e :: ('k, unit) Exposure. Expose (Some None) (demo_config opts relays i) = Some (Inr e)"
  using config_exposed [of "demo_config opts relays i" "length args" c, where ?'p = unit] demo_arguments_relays [OF assms(1)] assms(2-4)
  by (auto simp: demo_config_def)

text \<open>The demonstration server always returns a status, and only for the reasons the source names: bad
  arguments, a name that is refused or a failing random source, a cancelled context, or the end of the
  session; with accepted arguments \<open>Expose\<close> never fails on the configuration.\<close>

theorem demo_outcome:
  assumes "crypto_laws c" "valid_key c generated" "length args < 2 ^ 32"
  shows "run_demo c random generated ds args = Some
    (case demo_arguments args of
       Inl r \<Rightarrow> r
     | Inr (opts, relays) \<Rightarrow>
         (case demo_identity c random generated (do_name opts) of
            Inl r \<Rightarrow> r
          | Inr i \<Rightarrow> (case ds_ctxExpose ds of Some err \<Rightarrow> demo_failure 1 err | None \<Rightarrow> demo_serve ds)))"
proof (cases "\<exists>opts relays i. demo_arguments args = Inr (opts, relays) \<and> demo_identity c random generated (do_name opts) = Inr i")
  case True
  then obtain opts relays i where a: "demo_arguments args = Inr (opts, relays)" "demo_identity c random generated (do_name opts) = Inr i" by blast
  from demo_exposed [OF a(1) assms(1) demo_identity_wf [OF assms(2) a(2)] assms(3)]
  show ?thesis by (cases "ds_ctxExpose ds") (auto simp: run_demo_def a Expose_def exposeWithTimings_def)
next
  case False
  then show ?thesis by (auto simp: run_demo_def split: sum.split)
qed

theorem demo_outcome_witness:
  "run_demo sample_crypto sample_random sample_generated \<lparr>ds_ctxExpose = Some ContextCanceled, ds_ctxEnd = None, ds_updates = [],
      ds_serveErr = None, ds_closeErr = None\<rparr> [''x''] = Some (demo_usageError [Text (''unexpected argument '' @ go_quote ''x'')])"
proof -
  have "demo_arguments [''x''] = Inl (demo_usageError [Text (''unexpected argument '' @ go_quote ''x'')])"
    by (simp add: demo_arguments_def flag_Parse.simps parse_one_def Let_def)
  then show ?thesis
    by (subst demo_outcome) (use sample_valid_key in \<open>simp_all add: sample_laws sample_lib_def\<close>)
qed

end
