(* ===== verification/Spec2Isabelle.thy ===== *)
theory Spec2Isabelle
  imports ExposureSteps ExposureLocks LeaseRun HttpDemo
begin

text \<open>
  Verification library for Portalite, a Go SDK and command line tool that exposes one local service
  through several relays.

  \<^bold>\<open>The program.\<close> An \<^emph>\<open>exposure\<close> (\<open>src/exposure.go\<close>) starts one \<^emph>\<open>relay supervisor\<close>
  (\<open>src/relay.go\<close>) per relay. A supervisor obtains a TLS configuration for its relay, registers a lease
  by a signed challenge, then runs the workers of the lease: reverse session slots that hand client
  connections to the exposure, a renewal loop and, with UDP, a QUIC backhaul (\<open>src/datagram.go\<close>). It
  reports to the exposure (\<open>markReady\<close>, \<open>markFailed\<close>, \<open>markDatagramReady\<close>), which keeps the status of
  every relay, wakes its callers and decides when no relay is left. Discovery (\<open>src/discovery.go\<close>) adds
  relays that the members advertise with signed descriptors. The proxies (\<open>src/proxy.go\<close>,
  \<open>src/udp_proxy.go\<close>) connect what the exposure accepts to local targets. Relay and target addresses go
  through \<open>src/normalization.go\<close>; identities are keys of \<open>src/identity.go\<close>. The command line tool
  (\<open>src/cmd/portalite/main.go\<close>) parses its arguments, loads or creates the file of the identity, exposes the
  target and proxies to it; \<open>src/cmd/http-demo/main.go\<close> serves HTTP on an exposure.

  \<^bold>\<open>Theories.\<close>
  \<^item> \<open>Prelude\<close>: lemmas on lists, options, finite maps and words, reachability, and the interfaces as
    locales, each interpreted on the definitions of the components: \<open>normaliser\<close> (results are fixed points),
    \<open>codec\<close> (decoding inverts encoding), \<open>ledger\<close> (what was opened and closed in a sequence of events),
    \<open>invariant\<close> (a property of the reachable states), its extension \<open>progress\<close> (a settled state has a step
    that lowers a rank, so the goal can be reached) and \<open>simulation\<close> (runs of a concrete and of an abstract
    machine).
  \<^item> \<open>GoNet\<close>: what the code uses of Go's \<open>strings\<close>, \<open>strconv\<close>, \<open>net\<close>, \<open>net/netip\<close> and \<open>net/url\<close>.
  \<^item> \<open>Normalization\<close>: \<open>src/normalization.go\<close> and \<open>src/registry.go\<close>. Accepted addresses are canonical and
    fixed points; lists are de-duplicated in order; the first error is reported.
  \<^item> \<open>RelayErrors\<close>: \<open>go_error\<close> as the chain that \<open>errors.Is\<close> and \<open>errors.As\<close> walk; classification of
    failures, retry delays and timings of \<open>src/relay.go\<close> and \<open>APIError\<close> of \<open>src/protocol.go\<close>.
  \<^item> \<open>Datagram\<close>: \<open>src/datagram.go\<close>. Framing on 64-bit words with its round trip; the backhaul handshake
    with the lifetime of the connection.
  \<^item> \<open>Identity\<close>: \<open>src/identity.go\<close>. Names, keys, checksummed addresses, persistence round trip.
  \<^item> \<open>ControlApi\<close>, \<open>Lease\<close>, \<open>Reverse\<close>, \<open>Supervisor\<close>: \<open>src/relay.go\<close> and \<open>src/protocol.go\<close>. API calls and
    their results, endpoint validation; registration, renewal and the state of the lease; reverse sessions
    and the attribution of signing failures; TLS bootstrap, the retry loop of registration, the merged
    result of the workers, and the supervisor as the step relation \<open>sup_step\<close>. A renewal installs exactly
    the checked answer of the relay.
  \<^item> \<open>LeaseRun\<close>: \<open>runLease\<close> of \<open>src/relay.go\<close> as the step relation \<open>lease_step\<close> of the workers, their channel
    of results and the goroutine that collects them; the lease can always end, and what it returns does not
    depend on the order in which the workers end.
  \<^item> \<open>Discovery\<close>: \<open>src/discovery.go\<close>. Descriptors and what their signatures bind, candidates, merging in
    every order of Go's map iterations, selection and fetching.
  \<^item> \<open>Exposure\<close>, \<open>ExposureSteps\<close>: \<open>src/exposure.go\<close>. The operations on the membership and the queues, their
    specification \<open>spec_op\<close> with the refinement, and the goroutines as the step relation \<open>ex_step\<close>.
  \<^item> \<open>ExposureLocks\<close>: the mutex of \<open>src/exposure.go\<close> as a \<open>sync.RWMutex\<close> with the lock operations of every
    call. The calls that take it one section at a time cannot block each other; the three that take the read
    lock twice can deadlock with a writer.
  \<^item> \<open>UdpProxy\<close>, \<open>Proxy\<close>: \<open>src/udp_proxy.go\<close> and \<open>src/proxy.go\<close>. The flow table and its goroutines
    (\<open>udp_step\<close>), proxied pairs (\<open>pair_step\<close>), the accept loops and the verdict of the driver.
  \<^item> \<open>GoOs\<close>, \<open>GoFlag\<close>: what the tools use of Go's \<open>os\<close>, \<open>path/filepath\<close> and \<open>flag\<close>. Names lead to inodes;
    before every call other processes may change the file system, and every call may fail, as the
    environment says. \<open>undisturbed\<close> and \<open>grown\<close> say what the others leave alone.
  \<^item> \<open>IdentityFile\<close>, \<open>IdentityCreation\<close>: the identity file of \<open>src/cmd/portalite/main.go\<close>. Loading, the
    exclusive creation with its clean-up, and the wait of a run that lost the race for the creation. An
    existing file is never changed, a created one holds the complete identity, and a later run loads the
    identity that an earlier one returned; without faults a fresh identity is created.
  \<^item> \<open>Cli\<close>, \<open>HttpDemo\<close>: the rest of \<open>src/cmd/portalite/main.go\<close> and \<open>src/cmd/http-demo/main.go\<close>. Arguments,
    the plan made of them, the run with what it prints, the exit status.

  \<^bold>\<open>Conventions.\<close> A Go struct is a record whose fields carry a prefix; a function that can fail returns
  \<open>go_error + 'a\<close>, and one that can panic an option. Times are integers in nanoseconds. Go's \<open>int\<close> is an
  integer reduced to 64 bits by \<open>int64\<close> where a sum or product could leave the range, and a byte is an
  8-bit word. Maps are finite maps.
  A function that holds a mutex is split at its critical sections: \<open>f_locked\<close> is the section and returns
  the actions that the goroutine performs after it; \<open>f\<close> runs both without interference, and the step
  relation of the exposure interleaves them, a publication in up to three parts. Some steps are coarser
  than the code: the removal of a UDP flow and the closing of the flow manager (\<open>remove_flow\<close>,
  \<open>cleanup_tick\<close>, \<open>close_manager\<close>), the closing of a proxied pair (\<open>close_pair\<close>), and the receive of
  \<open>Accept\<close> (\<open>accept_select\<close>) are one step with the \<open>Close\<close> calls after the section, so that the moment
  between the two is not seen. A \<open>select\<close> is the list of its ready cases. A loop that waits is modelled round
  by round: a round takes what the environment answered and returns the verdict of the source (return,
  retry after a delay, go on); no fuel is needed. Loading an identity starts over when the file
  disappears and is a \<open>partial_function (option)\<close>, where \<open>None\<close> means that it does not return; the bounded
  wait in it is a function whose termination is proved by the time left. Histories (\<open>ex_started\<close>, \<open>ex_offered\<close>, \<open>ex_delivered\<close>,
  \<open>ex_discarded\<close>, \<open>ex_sent\<close>, \<open>os_removals\<close>, \<open>um_opened\<close>, \<open>um_closes\<close>, \<open>pp_closes\<close> and the counters of signers and connections of
  the supervisor) record what happened and are read by no operation.

  \<^bold>\<open>Parameters.\<close> Code outside the repository is an argument: the environment records hold Keccak-256 and
  secp256k1, JSON encoding and decoding, HTTP exchanges, the TLS library, the keyless signer and the QUIC
  library. What is needed of them (for instance that the encoder, the hash and key recovery do not collide
  on two given descriptors, \<open>no_collision\<close>) is a named hypothesis, and the witnesses instantiate it by a
  concrete environment. The relay's own code, such as the signing of descriptors, is not part of the model.

  \<^bold>\<open>What the theorems show.\<close> For every interleaving of an exposure: the membership is consistent, nothing
  panics, callers are woken, a total failure is signalled, a failure is final, the updates arrive in the order
  in which they were sent, and \<open>Close\<close> leaves neither goroutine nor connection when it returns. That it
  returns is not claimed: it waits for goroutines that may wait for the mutex, and a caller of \<open>WaitReady\<close>,
  \<open>WaitDatagramReady\<close> or \<open>SendDatagram\<close> can deadlock on it. For every interleaving of a supervisor: the lease
  is consistent, a checked answer to a renewal is installed, the live lease is unregistered and what was
  opened is closed; a lease ends
  when its workers do, and whether the relay is registered again depends only on what they returned. For
  the tools: as long as other processes leave the file system alone, whatever calls fail, no file that
  existed is changed, a failing run leaves none behind unless the removal fails, and later runs find the same
  identity; whatever the others do, an identity that is returned is
  well formed; arguments that pass the checks never make the exposure fail or panic, and the exit status is
  2 exactly for refused arguments and identity usage errors. For discovery: no signed field of a descriptor
  can be changed under its signature, except that the times are signed modulo \<open>2\<^sup>6\<^sup>4\<close> nanoseconds. Per
  operation: the functional behaviour on every branch, bounds of delays and buffers, and the round trips of
  framing, identities and options.
  The progress theorems say that a run to the goal exists from every reachable state in which its condition
  holds (every worker has returned, the calls take the mutex one section at a time); which goroutine runs
  next is left to the scheduler.

  \<^bold>\<open>Bounds.\<close> \<open>make(chan T, n)\<close> panics when \<open>n\<close> is negative or the buffer exceeds what can be allocated
  (\<open>makechan\<close>, with the sizes of the elements and a limit of \<open>2\<^sup>4\<^sup>8\<close> bytes, Go's on 64-bit Linux). The
  theorems on \<open>Expose\<close> therefore assume fewer than \<open>2\<^sup>3\<^sup>3\<close> relays, or \<open>2\<^sup>3\<^sup>2\<close> arguments of the tool, which
  keeps every buffer within the limit.

  \<^bold>\<open>Not modelled.\<close> In the tools: \<open>main\<close> with the delivery of signals, the output streams beyond the text
  written to them, symbolic links and the permissions of the caller. In the library: the bytes moved by
  \<open>io.CopyBuffer\<close> and the buffer pool, dropping of idle connections, getters that return a field under its
  lock, and the text of JSON documents. A run of the tool takes the results of its session as arguments:
  \<open>updates.Wait\<close> and the blocking calls of the proxy are not modelled. The Go memory model below the
  granularity of a critical section is not modelled either: the data race between \<open>failedOnce.Do\<close> in
  \<open>markExhausted\<close> and \<open>rearmAllFailedLocked\<close> of \<open>src/exposure.go\<close> is outside what the step relation
  shows.
\<close>

end
